(* ===== verification/Prelude.thy ===== *)
theory Prelude
  imports Main "HOL-Library.Word" "HOL-Library.Finite_Map" "HOL-Library.List_Lexorder"
begin

unbundle bit_operations_syntax

section \<open>Shared types, literals and automation\<close>

text \<open>
  The model's view of Go values: a \<open>byte\<close> is an 8-bit word, a \<open>string\<close> or
  \<open>[]byte\<close> is a list of bytes, \<open>int32\<close>, \<open>uint32\<close>, \<open>int64\<close> and \<open>uint64\<close> are words of
  that width (signed comparisons are written \<open><s\<close>), a \<open>map[string]T\<close> is a finite map.
  A Go string literal is written \<open>lit ''text''\<close>; \<open>lit\<close> is injective, so two literals
  are compared without unfolding their bytes. A single byte literal \<open>'x'\<close> is \<open>ch CHR ''x''\<close>.
\<close>

type_synonym byte = "8 word"
type_synonym bytes = "byte list"
type_synonym u32 = "32 word"
type_synonym u64 = "64 word"
type_synonym 'v gomap = "(bytes, 'v) fmap"

abbreviation ch :: "char \<Rightarrow> byte" where
  "ch c \<equiv> of_char c"

definition lit :: "String.string \<Rightarrow> bytes" where
  "lit s = map of_char s"

named_theorems reader_simps "how the primitive reader operations act on the unread input"
named_theorems emit_simps "how the writers append to their output"

lemma of_char_byte_eq [simp]: "(of_char c :: byte) = of_char d \<longleftrightarrow> c = d"
proof
  assume "(of_char c :: byte) = of_char d"
  then have "unat (of_char c :: byte) = unat (of_char d :: byte)" by simp
  moreover have "unat (of_char e :: byte) = of_char e" for e
  proof -
    have "unat (of_nat (of_char e) :: byte) = (of_char e :: nat) mod 2 ^ 8"
      by (simp add: unat_of_nat del: of_char_mod_256)
    also have "\<dots> = of_char e" by simp
    finally show ?thesis by (simp add: of_nat_of_char)
  qed
  ultimately have "(of_char c :: nat) = of_char d" by simp
  then show "c = d" by simp
qed simp

lemma lit_eq_iff [simp]: "lit s = lit t \<longleftrightarrow> s = t"
  by (auto simp: lit_def inj_def intro!: inj_map_eq_map [THEN iffD1])

lemma lit_Nil [simp]: "lit [] = []"
  by (simp add: lit_def)

lemma lit_eq_Nil [simp]: "lit s = [] \<longleftrightarrow> s = []" "[] = lit s \<longleftrightarrow> s = []"
  by (auto simp: lit_def)

lemma length_lit [simp]: "length (lit s) = length s"
  by (simp add: lit_def)

lemma lit_Cons: "lit (c # s) = of_char c # lit s"
  by (simp add: lit_def)

lemma hd_lit: "s \<noteq> [] \<Longrightarrow> hd (lit s) = of_char (hd s)"
  by (cases s) (simp_all add: lit_def)

end
