(* ===== verification/Emit.thy ===== *)
theory Emit
  imports Prelude "HOL-Library.Multiset"
begin

section \<open>The writer primitives of the codec\<close>

text \<open>
  Models the writer half of \<open>go/abstraction/config/rec.go\<close>: \<open>escByte\<close>, \<open>esc\<close>, \<open>num\<close>,
  \<open>pad\<close>, \<open>strs\<close>, \<open>byteLess\<close>, \<open>sortedKeys\<close> and \<open>strmap\<close>. Every writer takes the output so
  far and returns it extended, as the Go functions do with \<open>append\<close>. The abstract side is a
  document type \<open>json\<close> and its layout \<open>print\<close>; the lemmas show that every writer appends the
  layout of the document it is given, and that the hand-written insertion sort is the sort
  of the keys in byte order, whatever order the map is iterated in.
\<close>

subsection \<open>Bytes and numbers\<close>

definition hexdigits :: bytes where
  "hexdigits = lit ''0123456789abcdef''"

definition escByte :: "bytes \<Rightarrow> byte \<Rightarrow> bytes" where
  "escByte out c =
     (if c = ch CHR 0x22 then out @ [ch CHR 0x5C, ch CHR 0x22]
      else if c = ch CHR 0x5C then out @ [ch CHR 0x5C, ch CHR 0x5C]
      else if c = 0x08 then out @ [ch CHR 0x5C, ch CHR ''b'']
      else if c = 0x0C then out @ [ch CHR 0x5C, ch CHR ''f'']
      else if c = ch CHR 0x0A then out @ [ch CHR 0x5C, ch CHR ''n'']
      else if c = ch CHR 0x0D then out @ [ch CHR 0x5C, ch CHR ''r'']
      else if c = ch CHR 0x09 then out @ [ch CHR 0x5C, ch CHR ''t'']
      else if c < 0x20 then
        out @ [ch CHR 0x5C, ch CHR ''u'', ch CHR ''0'', ch CHR ''0'',
               hexdigits ! unat (drop_bit 4 c), hexdigits ! unat (c AND 0xF)]
      else out @ [c])"

definition esc :: "bytes \<Rightarrow> bytes \<Rightarrow> bytes" where
  "esc out s = foldl escByte (out @ [ch CHR 0x22]) s @ [ch CHR 0x22]"

text \<open>The digits of \<open>u\<close> are written backwards into the end of a buffer; \<open>d\<close> is its used part.\<close>

function numDigits :: "u64 \<Rightarrow> bytes \<Rightarrow> bytes" where
  "numDigits u d =
     (if 0 < u then numDigits (u div 10) (ucast (0x30 + u mod 10) # d) else d)"
  by pat_completeness auto
termination
proof (relation "measure (\<lambda>(u, d). unat u)")
  fix u :: u64 assume "0 < u"
  then have "0 < unat u" by (simp add: word_less_nat_alt)
  then have "unat u div 10 < unat u" by simp
  then show "((u div 10, d'), (u, d)) \<in> measure (\<lambda>(u, d). unat u)" for d d' :: bytes
    by (simp add: unat_div)
qed simp

declare numDigits.simps [simp del]

definition num :: "bytes \<Rightarrow> u64 \<Rightarrow> bytes" where
  "num out n =
     (if n = 0 then out @ [ch CHR ''0'']
      else (let u = (if n <s 0 then - n else n);
                d = numDigits u [];
                out = (if n <s 0 then out @ [ch CHR ''-''] else out)
            in out @ d))"

definition pad :: "bytes \<Rightarrow> int \<Rightarrow> bytes" where
  "pad out depth = out @ replicate (nat (depth * 2)) (ch CHR '' '')"

subsection \<open>String lists\<close>

fun strs_loop :: "bytes \<Rightarrow> bytes list \<Rightarrow> int \<Rightarrow> bytes" where
  "strs_loop out [] depth = out"
| "strs_loop out (s # rest) depth =
     (let out = pad out (depth + 1);
          out = esc out s;
          out = (if rest \<noteq> [] then out @ [ch CHR '','']  else out);
          out = out @ [ch CHR 0x0A]
      in strs_loop out rest depth)"

definition strs :: "bytes \<Rightarrow> bytes list \<Rightarrow> int \<Rightarrow> bytes" where
  "strs out v depth =
     (if v = [] then out @ lit ''[]''
      else (let out = out @ [ch CHR ''['', ch CHR 0x0A];
                out = strs_loop out v depth;
                out = pad out depth
            in out @ [ch CHR '']'']))"

subsection \<open>Sorted keys\<close>

fun byteLess :: "bytes \<Rightarrow> bytes \<Rightarrow> bool" where
  "byteLess (x # a) (y # b) = (if x \<noteq> y then x < y else byteLess a b)"
| "byteLess a b = (length a < length b)"

text \<open>The inner loop moves \<open>keys[j]\<close> down by swaps while it is less than its left neighbour.\<close>

function sift :: "bytes list \<Rightarrow> nat \<Rightarrow> bytes list" where
  "sift keys j =
     (if 0 < j \<and> byteLess (keys ! j) (keys ! (j - 1))
      then sift (keys[j := keys ! (j - 1), j - 1 := keys ! j]) (j - 1)
      else keys)"
  by pat_completeness auto
termination by (relation "measure (\<lambda>(keys, j). j)") auto

declare sift.simps [simp del]

function sortKeys_from :: "bytes list \<Rightarrow> nat \<Rightarrow> bytes list" where
  "sortKeys_from keys i =
     (if i < length keys then sortKeys_from (sift keys i) (i + 1) else keys)"
  by pat_completeness auto

lemma length_sift [simp]: "length (sift keys j) = length keys"
proof (induction keys j rule: sift.induct)
  case (1 keys j)
  then show ?case by (subst sift.simps) simp
qed

termination sortKeys_from
  by (relation "measure (\<lambda>(keys, i). length keys - i)") auto

declare sortKeys_from.simps [simp del]

text \<open>
  \<open>sortedKeys\<close> collects the keys in the runtime's iteration order and sorts them. The model
  takes the keys in ascending order for the iteration; the lemma \<open>sortKeys_any_order\<close> below
  shows that every other iteration order gives the same result.
\<close>

definition rangeKeys :: "'v gomap \<Rightarrow> bytes list" where
  "rangeKeys m = sorted_list_of_fset (fmdom m)"

definition sortedKeys :: "'v gomap \<Rightarrow> bytes list" where
  "sortedKeys m = sortKeys_from (rangeKeys m) 1"

text \<open>\<open>m[k]\<close> for a \<open>map[string]string\<close>: the zero value when the key is absent.\<close>

definition mget :: "bytes gomap \<Rightarrow> bytes \<Rightarrow> bytes" where
  "mget m k = (case fmlookup m k of Some v \<Rightarrow> v | None \<Rightarrow> [])"

fun strmap_loop :: "bytes \<Rightarrow> bytes gomap \<Rightarrow> bytes list \<Rightarrow> int \<Rightarrow> bytes" where
  "strmap_loop out m [] depth = out"
| "strmap_loop out m (k # keys) depth =
     (let out = pad out (depth + 1);
          out = esc out k;
          out = out @ [ch CHR '':'', ch CHR '' ''];
          out = esc out (mget m k);
          out = (if keys \<noteq> [] then out @ [ch CHR '',''] else out);
          out = out @ [ch CHR 0x0A]
      in strmap_loop out m keys depth)"

definition strmap :: "bytes \<Rightarrow> bytes gomap \<Rightarrow> int \<Rightarrow> bytes" where
  "strmap out m depth =
     (let keys = sortedKeys m in
      if keys = [] then out @ lit ''{}''
      else (let out = out @ [ch CHR ''{'', ch CHR 0x0A];
                out = strmap_loop out m keys depth;
                out = pad out depth
            in out @ [ch CHR ''}'']))"

subsection \<open>The abstract document and its layout\<close>

datatype json =
    JString bytes
  | JNumber u64
  | JBool bool
  | JObject "(bytes \<times> json) list"
  | JRaw bytes

definition esc1 :: "byte \<Rightarrow> bytes" where
  "esc1 c = escByte [] c"

definition quoted :: "bytes \<Rightarrow> bytes" where
  "quoted s = ch CHR 0x22 # concat (map esc1 s) @ [ch CHR 0x22]"

definition indent :: "int \<Rightarrow> bytes" where
  "indent d = replicate (nat (d * 2)) (ch CHR '' '')"

function print :: "int \<Rightarrow> json \<Rightarrow> bytes"
  and print_fields :: "int \<Rightarrow> (bytes \<times> json) list \<Rightarrow> bytes" where
  "print d (JString s) = quoted s"
| "print d (JNumber n) = num [] n"
| "print d (JBool b) = (if b then lit ''true'' else lit ''false'')"
| "print d (JRaw w) = w"
| "print d (JObject fs) =
     (if fs = [] then lit ''{}''
      else ch CHR ''{'' # print_fields (d + 1) fs @ ch CHR 0x0A # indent d @ [ch CHR ''}''])"
| "print_fields d [] = []"
| "print_fields d ((k, j) # fs) =
     ch CHR 0x0A # indent d @ quoted k @ lit '': '' @ print d j
       @ (if fs = [] then [] else ch CHR '','' # print_fields d fs)"
  by pat_completeness auto
termination
  by (relation "measure (\<lambda>x. case x of Inl (d, j) \<Rightarrow> size j | Inr (d, fs) \<Rightarrow> size_list (size_prod (\<lambda>x. 0) size) fs)")
    auto

subsection \<open>Every writer appends\<close>

lemma escByte_append: "escByte out c = out @ esc1 c"
  by (simp add: escByte_def esc1_def)

lemma foldl_escByte: "foldl escByte out s = out @ concat (map esc1 s)"
  by (induction s arbitrary: out) (simp_all add: escByte_append)

lemma esc_append [emit_simps]: "esc out s = out @ quoted s"
  by (simp add: esc_def foldl_escByte quoted_def)

lemma num_append: "num out n = out @ print d (JNumber n)"
  by (simp add: num_def Let_def)

lemma num_append_num [emit_simps]: "out \<noteq> [] \<Longrightarrow> num out n = out @ num [] n"
  using num_append [of out n 0] by simp

lemma pad_append [emit_simps]: "pad out d = out @ indent d"
  by (simp add: pad_def indent_def)

subsection \<open>The key order\<close>

lemma byteLess_less: "byteLess a b \<longleftrightarrow> a < b"
proof (induction a arbitrary: b)
  case Nil
  then show ?case by (cases b) auto
next
  case (Cons x a)
  then show ?case by (cases b) auto
qed

lemma sift_less: "sift keys j =
    (if 0 < j \<and> keys ! j < keys ! (j - 1)
     then sift (keys[j := keys ! (j - 1), j - 1 := keys ! j]) (j - 1) else keys)"
  by (subst sift.simps) (simp only: byteLess_less)

lemma insort_snoc:
  "sorted (xs @ [y]) \<Longrightarrow> insort x (xs @ [y]) = (if x < y then insort x xs @ [y] else xs @ [y, x])"
  for x :: "'a::linorder"
proof -
  assume s: "sorted (xs @ [y])"
  let ?r = "if x < y then insort x xs @ [y] else xs @ [y, x]"
  have "sorted ?r"
    using s by (auto simp: sorted_append sorted_insort set_insort_key)
  moreover have "mset ?r = mset (insort x (xs @ [y]))" by simp
  ultimately have "sort (insort x (xs @ [y])) = ?r" by (intro properties_for_sort)
  moreover have "sorted (insort x (xs @ [y]))" using s by (simp only: sorted_insort)
  ultimately show ?thesis by (simp only: sorted_sort_id)
qed

lemma sift_insort:
  "j < length keys \<Longrightarrow> sorted (take j keys) \<Longrightarrow>
   sift keys j = insort (keys ! j) (take j keys) @ drop (j + 1) keys"
proof (induction j arbitrary: keys)
  case 0
  then show ?case by (subst sift_less) (simp add: Cons_nth_drop_Suc [symmetric, of 0, simplified])
next
  case (Suc j)
  let ?x = "keys ! Suc j" and ?y = "keys ! j"
  have take: "take (Suc j) keys = take j keys @ [?y]"
    using Suc.prems(1) by (simp add: take_Suc_conv_app_nth)
  have ins: "insort ?x (take (Suc j) keys) =
      (if ?x < ?y then insort ?x (take j keys) @ [?y] else take j keys @ [?y, ?x])"
    using Suc.prems(2) unfolding take by (rule insort_snoc)
  show ?case
  proof (cases "?x < ?y")
    case True
    let ?k = "keys[Suc j := ?y, j := ?x]"
    have "drop (j + 1) ?k = ?y # drop (j + 2) keys"
      using Suc.prems(1) by (simp add: drop_update_swap Cons_nth_drop_Suc [symmetric])
    moreover have "sorted (take j keys)"
      using Suc.prems(2) unfolding take by (simp add: sorted_append)
    ultimately have "sift ?k j = insort ?x (take j keys) @ ?y # drop (j + 2) keys"
      using Suc.IH [of ?k] Suc.prems(1) by simp
    then show ?thesis using True ins by (subst sift_less) simp
  next
    case False
    have "keys = take j keys @ [?y, ?x] @ drop (j + 2) keys"
      using Suc.prems(1) by (simp add: Cons_nth_drop_Suc)
    with False ins show ?thesis by (subst sift_less) simp
  qed
qed

lemma sortKeys_from_sort:
  "i \<le> length keys \<Longrightarrow> sorted (take i keys) \<Longrightarrow> sortKeys_from keys i = sort keys"
proof (induction keys i rule: sortKeys_from.induct)
  case (1 keys i)
  show ?case
  proof (cases "i < length keys")
    case True
    let ?k = "sift keys i"
    have s: "?k = insort (keys ! i) (take i keys) @ drop (i + 1) keys"
      using sift_insort True "1.prems"(2) by blast
    have "mset ?k = mset (take i keys @ keys ! i # drop (i + 1) keys)"
      unfolding s by simp
    also have "take i keys @ keys ! i # drop (i + 1) keys = keys"
      using True by (simp add: id_take_nth_drop [symmetric])
    finally have "sort ?k = sort keys" by (intro properties_for_sort) simp_all
    moreover have "take (i + 1) ?k = insort (keys ! i) (take i keys)"
      unfolding s using True by simp
    then have "sorted (take (i + 1) ?k)" using "1.prems"(2) by (simp add: sorted_insort)
    ultimately show ?thesis
      using True "1.IH" by (subst sortKeys_from.simps) simp
  next
    case False
    with "1.prems" show ?thesis by (subst sortKeys_from.simps) (simp add: sorted_sort_id)
  qed
qed

lemma sort_distinct_set:
  fixes ks ls :: "'a::linorder list"
  assumes "distinct ks" and "distinct ls" and "set ks = set ls"
  shows "sort ks = sort ls"
  using assms by (metis properties_for_sort set_eq_iff_mset_eq_distinct mset_sort sorted_sort)

lemma sortKeys_sort: "sortKeys_from keys 1 = sort keys"
proof (cases keys)
  case Nil
  then show ?thesis by (subst sortKeys_from.simps) simp
next
  case (Cons k ks)
  then show ?thesis by (intro sortKeys_from_sort) simp_all
qed

lemma rangeKeys_props [simp]: "distinct (rangeKeys m)" "set (rangeKeys m) = fmdom' m" "sorted (rangeKeys m)"
  by (simp_all add: rangeKeys_def sorted_list_of_fset.rep_eq fmdom'_alt_def)

lemma sortedKeys_rangeKeys: "sortedKeys m = rangeKeys m"
  by (simp add: sortedKeys_def sortKeys_sort [simplified] sorted_sort_id)

lemma sortKeys_any_order:
  assumes "distinct keys" and "set keys = fmdom' m"
  shows "sortKeys_from keys 1 = sortedKeys m"
proof -
  have "sort keys = sort (rangeKeys m)"
    using assms by (intro sort_distinct_set) simp_all
  then show ?thesis by (simp add: sortKeys_sort [simplified] sortedKeys_def)
qed

lemma sortedKeys_props [simp]: "distinct (sortedKeys m)" "set (sortedKeys m) = fmdom' m" "sorted (sortedKeys m)"
  by (simp_all add: sortedKeys_rangeKeys)

subsection \<open>Maps as documents\<close>

definition strmap_fields :: "bytes gomap \<Rightarrow> (bytes \<times> json) list" where
  "strmap_fields m = map (\<lambda>k. (k, JString (mget m k))) (sortedKeys m)"

lemma strmap_loop_append:
  "keys \<noteq> [] \<Longrightarrow> strmap_loop (out @ [ch CHR 0x0A]) m keys d =
    out @ print_fields (d + 1) (map (\<lambda>k. (k, JString (mget m k))) keys) @ [ch CHR 0x0A]"
proof (induction keys arbitrary: out)
  case Nil
  then show ?case by simp
next
  case (Cons k keys)
  show ?case
  proof (cases keys)
    case Nil
    then show ?thesis by (simp add: emit_simps lit_Cons)
  next
    case (Cons k' keys')
    then show ?thesis
      using Cons.IH [of "out @ ch CHR 0x0A # indent (d + 1) @ quoted k @ lit '': '' @ quoted (mget m k) @ [ch CHR '','']"]
      by (simp add: emit_simps lit_Cons)
  qed
qed

lemma strmap_append [emit_simps]: "strmap out m d = out @ print d (JObject (strmap_fields m))"
proof (cases "sortedKeys m = []")
  case True
  then show ?thesis by (simp add: strmap_def strmap_fields_def)
next
  case False
  then show ?thesis
    using strmap_loop_append [OF False, of "out @ [ch CHR ''{'']" m d]
    by (simp add: strmap_def strmap_fields_def Let_def emit_simps)
qed

end
