(* ===== verification/Utf8.thy ===== *)
theory Utf8
  imports Prelude
begin

section \<open>UTF-8: the writer \<open>appendRune\<close> and the checker \<open>validUTF8\<close>\<close>

text \<open>
  Models \<open>appendRune\<close> and \<open>validUTF8\<close> of \<open>go/abstraction/config/rec.go\<close> with their
  \<open>int32\<close> code points and byte-wise bit operations. The abstract side is the RFC 3629
  encoding \<open>utf8\<close> of a scalar value, on \<open>nat\<close>. The lemmas show that \<open>appendRune\<close> writes
  that encoding and that \<open>validUTF8\<close> accepts exactly the concatenations of encodings.
\<close>

subsection \<open>The code\<close>

definition appendRune :: "bytes \<Rightarrow> u32 \<Rightarrow> bytes" where
  "appendRune out cp =
     (if cp <s 0x80 then out @ [ucast cp]
      else if cp <s 0x800 then
        out @ [ucast (0xC0 OR signed_drop_bit 6 cp), ucast (0x80 OR (cp AND 0x3F))]
      else if cp <s 0x10000 then
        out @ [ucast (0xE0 OR signed_drop_bit 12 cp),
               ucast (0x80 OR (signed_drop_bit 6 cp AND 0x3F)), ucast (0x80 OR (cp AND 0x3F))]
      else
        out @ [ucast (0xF0 OR signed_drop_bit 18 cp),
               ucast (0x80 OR (signed_drop_bit 12 cp AND 0x3F)),
               ucast (0x80 OR (signed_drop_bit 6 cp AND 0x3F)), ucast (0x80 OR (cp AND 0x3F))])"

text \<open>The \<open>switch\<close> on a lead byte: the sequence length and the lead byte's payload.\<close>

definition utf8_lead :: "byte \<Rightarrow> (nat \<times> u32) option" where
  "utf8_lead c =
     (if drop_bit 5 c = 0x6 then Some (2, ucast (c AND 0x1F))
      else if drop_bit 4 c = 0xE then Some (3, ucast (c AND 0x0F))
      else if drop_bit 3 c = 0x1E then Some (4, ucast (c AND 0x07))
      else None)"

text \<open>The inner loop over the continuation bytes \<open>b[i+1 .. i+n-1]\<close>.\<close>

fun utf8_cont :: "bytes \<Rightarrow> u32 \<Rightarrow> u32 option" where
  "utf8_cont [] cp = Some cp"
| "utf8_cont (x # xs) cp =
     (if drop_bit 6 x \<noteq> 0x2 then None
      else utf8_cont xs (push_bit 6 cp OR ucast (x AND 0x3F)))"

definition utf8_lowest :: "nat \<Rightarrow> u32" where
  "utf8_lowest n = [0, 0, 0x80, 0x800, 0x10000] ! n"

lemma utf8_lead_length: "utf8_lead c = Some (n, cp) \<Longrightarrow> 2 \<le> n \<and> n \<le> 4"
  by (auto simp: utf8_lead_def split: if_splits)

function validUTF8_at :: "bytes \<Rightarrow> nat \<Rightarrow> bool" where
  "validUTF8_at b i =
     (if i < length b then
        (let c = b ! i in
         if c < 0x80 then validUTF8_at b (i + 1)
         else (case utf8_lead c of
           None \<Rightarrow> False
         | Some (n, cp0) \<Rightarrow>
             if length b < i + n then False
             else (case utf8_cont (take (n - 1) (drop (i + 1) b)) cp0 of
               None \<Rightarrow> False
             | Some cp \<Rightarrow>
                 if cp <s utf8_lowest n \<or> 0x10FFFF <s cp \<or> (0xD800 <=s cp \<and> cp <=s 0xDFFF)
                 then False else validUTF8_at b (i + n))))
      else True)"
  by pat_completeness auto
termination
  by (relation "measure (\<lambda>(b, i). length b - i)") (auto dest: utf8_lead_length)

declare validUTF8_at.simps [simp del]

definition validUTF8 :: "bytes \<Rightarrow> bool" where
  "validUTF8 b = validUTF8_at b 0"

subsection \<open>The abstract encoding\<close>

definition scalar :: "nat \<Rightarrow> bool" where
  "scalar n \<longleftrightarrow> n < 0x110000 \<and> \<not> (0xD800 \<le> n \<and> n \<le> 0xDFFF)"

text \<open>\<open>nb n\<close> is the byte of value \<open>n\<close>, \<open>rune n\<close> the \<open>int32\<close> of value \<open>n\<close>.\<close>

definition nb :: "nat \<Rightarrow> byte" where
  "nb n = of_nat n"

definition rune :: "nat \<Rightarrow> u32" where
  "rune n = of_nat n"

definition utf8 :: "nat \<Rightarrow> bytes" where
  "utf8 n =
     (if n < 0x80 then [nb n]
      else if n < 0x800 then [nb (0xC0 + n div 64), nb (0x80 + n mod 64)]
      else if n < 0x10000 then
        [nb (0xE0 + n div 4096), nb (0x80 + n div 64 mod 64), nb (0x80 + n mod 64)]
      else
        [nb (0xF0 + n div 262144), nb (0x80 + n div 4096 mod 64),
         nb (0x80 + n div 64 mod 64), nb (0x80 + n mod 64)])"

definition utf8_text :: "bytes \<Rightarrow> bool" where
  "utf8_text b \<longleftrightarrow> (\<exists>cs. (\<forall>c \<in> set cs. scalar c) \<and> b = concat (map utf8 cs))"

subsection \<open>Bit operations as arithmetic\<close>

lemma sint_small: "unat (w :: u32) < 2 ^ 31 \<Longrightarrow> sint w = int (unat w)"
proof -
  assume "unat w < 2 ^ 31"
  then have "int (unat w) < 2 ^ 31" unfolding of_nat_less_iff [where ?'a = int, symmetric] by (simp only: of_nat_power of_nat_numeral)
  then have "uint w < 2 ^ 31" by (simp only: uint_nat)
  moreover have "- (2 ^ 31) \<le> uint w" by (rule order_trans [of _ 0]) simp_all
  ultimately have "signed_take_bit 31 (uint w) = uint w"
    by (simp only: signed_take_bit_int_eq_self)
  then show ?thesis by (simp add: sint_uint)
qed

lemma sless_small:
  "unat (v :: u32) < 2 ^ 31 \<Longrightarrow> unat w < 2 ^ 31 \<Longrightarrow> v <s w \<longleftrightarrow> unat v < unat w"
  by (simp only: word_sless_alt sint_small of_nat_less_iff)

lemma sle_small:
  "unat (v :: u32) < 2 ^ 31 \<Longrightarrow> unat w < 2 ^ 31 \<Longrightarrow> v <=s w \<longleftrightarrow> unat v \<le> unat w"
  by (simp only: word_sle_eq sint_small of_nat_le_iff)

lemma signed_drop_bit_small:
  assumes "unat (w :: u32) < 2 ^ 31"
  shows "signed_drop_bit n w = drop_bit n w"
proof -
  have "unat w div 2 ^ n < 2 ^ 31"
    by (rule le_less_trans [OF div_le_dividend assms])
  then have "unat (drop_bit n w) < 2 ^ 31"
    by (simp only: unat_drop_bit_eq drop_bit_eq_div [where ?'a = nat])
  then have "sint (drop_bit n w) = int (unat w div 2 ^ n)"
    by (simp only: sint_small unat_drop_bit_eq drop_bit_eq_div [where ?'a = nat])
  moreover have "sint (signed_drop_bit n w) = int (unat w div 2 ^ n)"
    by (simp only: sint_signed_drop_bit_eq sint_small [OF assms] drop_bit_eq_div zdiv_int of_nat_power
        of_nat_numeral)
  ultimately show ?thesis by (metis signed_word_eqI)
qed

lemma or_shift_nat: "b < 2 ^ k \<Longrightarrow> push_bit k a OR b = a * 2 ^ k + (b :: nat)"
proof -
  assume "b < 2 ^ k"
  then have b: "b = take_bit k b" by (simp add: take_bit_nat_eq_self)
  have "push_bit k a AND take_bit k b = 0"
    by (rule bit_eqI) (simp add: bit_simps)
  then have "push_bit k a OR take_bit k b = push_bit k a + take_bit k b"
    by (simp only: disjunctive_add_eq_or)
  then show ?thesis
    unfolding b [symmetric] by (simp add: push_bit_eq_mult)
qed

lemma or_add_nat: "b < 2 ^ k \<Longrightarrow> 2 ^ k dvd a \<Longrightarrow> a OR b = a + (b :: nat)"
  by (auto simp: or_shift_nat [of b k, unfolded push_bit_eq_mult] mult.commute elim!: dvdE)

text \<open>
  Bytes and code points through \<open>unat\<close>: masks are remainders, shifts are divisions and
  a disjoint \<open>OR\<close> is a sum.
\<close>

lemma unat_drop: "unat (drop_bit n w) = unat w div 2 ^ n"
  by (simp only: unat_drop_bit_eq drop_bit_eq_div [where ?'a = nat])

lemma unat_and_mask: "unat (w AND mask k) = unat w mod 2 ^ k" for w :: "'a::len word"
  by (simp only: take_bit_eq_mask [symmetric] unsigned_take_bit_eq take_bit_eq_mod [where ?'a = nat])

lemma unat_push: "unat w * 2 ^ k < 2 ^ LENGTH('a) \<Longrightarrow> unat (push_bit k w) = unat w * 2 ^ k"
  for w :: "'a::len word"
  by (simp only: unsigned_push_bit_eq take_bit_eq_mod [where ?'a = nat] push_bit_eq_mult [where ?'a = nat] mod_less)

lemma unat_byte_u32: "unat (ucast (x :: byte) :: u32) = unat x"
  using unsigned_less [of x, where ?'a = nat]
  by (simp add: unsigned_ucast_eq take_bit_nat_eq_self)

lemma unat_byte_mask6: "unat ((x :: byte) AND 0x3F) = unat x mod 64"
  using unat_and_mask [of x 6] by (simp add: mask_eq_exp_minus_1)

lemma unat_shift_or:
  fixes cp :: u32 and x :: byte
  assumes "unat cp < 2 ^ 20"
  shows "unat (push_bit 6 cp OR ucast (x AND 0x3F)) = unat cp * 64 + unat x mod 64"
proof -
  have "unat (push_bit 6 cp) = unat cp * 2 ^ 6"
    using assms by (intro unat_push) simp
  then have "unat (push_bit 6 cp OR ucast (x AND 0x3F)) = push_bit 6 (unat cp) OR (unat x mod 64)"
    by (simp only: unsigned_or_eq unat_byte_u32 unat_byte_mask6 push_bit_eq_mult [where ?'a = nat])
  then show ?thesis by (simp add: or_shift_nat)
qed

lemma word_eq_unat: "(v :: 'a::len word) = w \<longleftrightarrow> unat v = unat w"
  by (simp add: word_unat_eq_iff)

lemma unat_nb [simp]: "n < 256 \<Longrightarrow> unat (nb n) = n"
  by (simp add: nb_def unat_of_nat)

lemma unat_rune [simp]: "n < 2 ^ 32 \<Longrightarrow> unat (rune n) = n"
  by (simp add: rune_def unat_of_nat)

lemma nb_unat [simp]: "nb (unat c) = c"
  by (simp add: nb_def)

lemma rune_unat [simp]: "rune (unat c) = c"
  by (simp add: rune_def)

lemma utf8_lead_unat:
  "utf8_lead c =
     (if unat c div 32 = 6 then Some (2, rune (unat c mod 32))
      else if unat c div 16 = 14 then Some (3, rune (unat c mod 16))
      else if unat c div 8 = 30 then Some (4, rune (unat c mod 8))
      else None)"
proof -
  have shift: "(drop_bit k c = v) = (unat c div 2 ^ k = unat v)" for k and v :: byte
    by (simp only: word_eq_unat unat_drop)
  have payload: "ucast (c AND mask k) = rune (unat c mod 2 ^ k)" for k
    by (metis unat_and_mask unat_byte_u32 rune_unat)
  show ?thesis
    using payload [of 5] payload [of 4] payload [of 3]
    by (simp add: utf8_lead_def shift mask_eq_exp_minus_1)
qed

lemma utf8_cont_rune:
  assumes "n < 2 ^ 20"
  shows "utf8_cont (x # xs) (rune n) =
     (if unat x div 64 = 2 then utf8_cont xs (rune (n * 64 + unat x mod 64)) else None)"
proof -
  have n: "unat (rune n) < 2 ^ 20" "unat (rune n) = n" using assms by simp_all
  have "(drop_bit 6 x = 2) = (unat x div 64 = 2)"
    by (simp only: word_eq_unat unat_drop) simp
  moreover have "push_bit 6 (rune n) OR ucast (x AND 0x3F) = rune (n * 64 + unat x mod 64)"
    by (metis unat_shift_or [OF n(1)] n(2) rune_unat)
  ultimately show ?thesis by simp
qed

declare utf8_cont.simps(2) [simp del]

text \<open>Lead and continuation bytes by their payload.\<close>

lemma digit_split: "d < b \<Longrightarrow> (q * b + d) div b = q" "d < b \<Longrightarrow> (q * b + d) mod b = d" for b :: nat
  by simp_all

lemma utf8_lead_payload:
  "p < 32 \<Longrightarrow> utf8_lead (nb (0xC0 + p)) = Some (2, rune p)"
  "p < 16 \<Longrightarrow> utf8_lead (nb (0xE0 + p)) = Some (3, rune p)"
  "p < 8 \<Longrightarrow> utf8_lead (nb (0xF0 + p)) = Some (4, rune p)"
proof -
  show "utf8_lead (nb (0xC0 + p)) = Some (2, rune p)" if "p < 32"
  proof -
    from that have "(192 + p) div 32 = 6" "(192 + p) mod 32 = p"
      using digit_split [of p 32 6] by simp_all
    with that show ?thesis by (simp add: utf8_lead_unat)
  qed
  show "utf8_lead (nb (0xE0 + p)) = Some (3, rune p)" if "p < 16"
  proof -
    from that have "(224 + p) div 32 = 7" "(224 + p) div 16 = 14" "(224 + p) mod 16 = p"
      using digit_split [of p 32 7] digit_split [of p 16 14] by simp_all
    with that show ?thesis by (simp add: utf8_lead_unat)
  qed
  show "utf8_lead (nb (0xF0 + p)) = Some (4, rune p)" if "p < 8"
  proof -
    from that have "(240 + p) div 32 = 7" "(240 + p) div 16 = 15" "(240 + p) div 8 = 30"
      "(240 + p) mod 8 = p"
      using digit_split [of "16 + p" 32 7] digit_split [of p 16 15] digit_split [of p 8 30] by simp_all
    with that show ?thesis by (simp add: utf8_lead_unat)
  qed
qed

lemma utf8_cont_payload:
  assumes "n < 2 ^ 20" "d < 64"
  shows "utf8_cont (nb (0x80 + d) # xs) (rune n) = utf8_cont xs (rune (n * 64 + d))"
proof -
  from assms(2) have "(128 + d) div 64 = 2" "(128 + d) mod 64 = d"
    using digit_split [of d 64 2] by simp_all
  with assms show ?thesis by (simp add: utf8_cont_rune)
qed

lemma utf8_lead_SomeE:
  assumes "utf8_lead c = Some (n, cp)"
  obtains p where "n = 2" "p < 32" "c = nb (0xC0 + p)" "cp = rune p"
  | p where "n = 3" "p < 16" "c = nb (0xE0 + p)" "cp = rune p"
  | p where "n = 4" "p < 8" "c = nb (0xF0 + p)" "cp = rune p"
proof -
  consider "unat c div 32 = 6" "n = 2" "cp = rune (unat c mod 32)"
    | "unat c div 16 = 14" "n = 3" "cp = rune (unat c mod 16)"
    | "unat c div 8 = 30" "n = 4" "cp = rune (unat c mod 8)"
    using assms by (auto simp: utf8_lead_unat split: if_splits)
  then show thesis
  proof cases
    case 1
    then have "192 + unat c mod 32 = unat c" using div_mult_mod_eq [of "unat c" 32] by simp
    then show thesis using 1 by (intro that(1) [of "unat c mod 32"]) simp_all
  next
    case 2
    then have "224 + unat c mod 16 = unat c" using div_mult_mod_eq [of "unat c" 16] by simp
    then show thesis using 2 by (intro that(2) [of "unat c mod 16"]) simp_all
  next
    case 3
    then have "240 + unat c mod 8 = unat c" using div_mult_mod_eq [of "unat c" 8] by simp
    then show thesis using 3 by (intro that(3) [of "unat c mod 8"]) simp_all
  qed
qed

lemma utf8_cont_SomeE:
  assumes "utf8_cont (x # xs) (rune n) = Some cp" "n < 2 ^ 20"
  obtains d where "d < 64" "x = nb (0x80 + d)" "utf8_cont xs (rune (n * 64 + d)) = Some cp"
proof -
  have x: "unat x div 64 = 2" "utf8_cont xs (rune (n * 64 + unat x mod 64)) = Some cp"
    using assms by (simp_all add: utf8_cont_rune split: if_splits)
  then have "128 + unat x mod 64 = unat x" using div_mult_mod_eq [of "unat x" 64] by simp
  then show thesis using x by (intro that [of "unat x mod 64"]) simp_all
qed

subsection \<open>The checker against the encoding\<close>

lemma byte_less_80: "(c :: byte) < 0x80 \<longleftrightarrow> unat c < 0x80"
  by (simp add: word_less_nat_alt)

definition utf8_shortest :: "nat \<Rightarrow> nat \<Rightarrow> bool" where
  "utf8_shortest n k \<longleftrightarrow> [0, 0, 0x80, 0x800, 0x10000] ! n \<le> k"

text \<open>What the checker rejects after decoding a sequence of length \<open>n\<close>.\<close>

lemma utf8_range_check:
  assumes "n = 2 \<or> n = 3 \<or> n = 4" and "k < 2 ^ 31"
  shows "(rune k <s utf8_lowest n \<or> 0x10FFFF <s rune k \<or> (0xD800 <=s rune k \<and> rune k <=s 0xDFFF))
    \<longleftrightarrow> \<not> (utf8_shortest n k \<and> scalar k)"
  using assms by (auto simp: utf8_lowest_def utf8_shortest_def scalar_def sless_small sle_small)

lemma div_64_64: "k div 4096 = k div 64 div 64" "k div 262144 = k div 64 div 64 div 64" for k :: nat
  by (simp_all add: div_mult2_eq [symmetric])

lemma utf8_complete:
  assumes "scalar k" and "0x80 \<le> k"
  obtains c xs cp where "utf8 k = c # xs" "\<not> c < 0x80"
    "utf8_lead c = Some (Suc (length xs), cp)" "utf8_cont xs cp = Some (rune k)"
    "utf8_shortest (Suc (length xs)) k" "length xs = 1 \<or> length xs = 2 \<or> length xs = 3"
proof -
  have k: "k < 0x110000" using assms(1) by (simp add: scalar_def)
  have d: "k mod 64 < 64" "k div 64 mod 64 < 64" "k div 64 div 64 mod 64 < 64" by simp_all
  consider "k < 0x800" | "0x800 \<le> k" "k < 0x10000" | "0x10000 \<le> k" by linarith
  then show thesis
  proof cases
    case 1
    with assms(2) d show thesis
      by (intro that [of "nb (0xC0 + k div 64)" "[nb (0x80 + k mod 64)]" "rune (k div 64)"])
        (simp_all add: utf8_def byte_less_80 utf8_lead_payload utf8_cont_payload utf8_shortest_def)
  next
    case 2
    then have "k div 64 div 64 < 16" by simp
    with 2 d show thesis
      by (intro that [of "nb (0xE0 + k div 4096)" "[nb (0x80 + k div 64 mod 64), nb (0x80 + k mod 64)]"
            "rune (k div 4096)"])
        (simp_all add: utf8_def byte_less_80 utf8_lead_payload utf8_cont_payload utf8_shortest_def div_64_64)
  next
    case 3
    from k have "k div 64 div 64 div 64 < 8" "k div 64 div 64 < 0x110" "k div 64 < 0x4400" by simp_all
    with 3 k d show thesis
      by (intro that [of "nb (0xF0 + k div 262144)" "[nb (0x80 + k div 4096 mod 64),
            nb (0x80 + k div 64 mod 64), nb (0x80 + k mod 64)]" "rune (k div 262144)"])
        (simp_all add: utf8_def byte_less_80 utf8_lead_payload utf8_cont_payload utf8_shortest_def div_64_64)
  qed
qed

lemma utf8_sound:
  assumes "utf8_lead c = Some (Suc (length xs), cp0)" "utf8_cont xs cp0 = Some cp"
  obtains k where "cp = rune k" "k < 2 ^ 31"
    "utf8_shortest (Suc (length xs)) k \<and> scalar k \<Longrightarrow> c # xs = utf8 k"
  using assms(1)
proof (cases rule: utf8_lead_SomeE)
  case (1 p)
  then obtain x where xs: "xs = [x]" by (cases xs) auto
  from assms(2) 1 obtain d where d: "d < 64" "x = nb (0x80 + d)" "cp = rune (p * 64 + d)"
    unfolding xs by (auto elim: utf8_cont_SomeE)
  have "(p * 64 + d) div 64 = p" "(p * 64 + d) mod 64 = d" using d(1) by simp_all
  with 1 d xs show thesis
    by (intro that [of "p * 64 + d"]) (simp_all add: utf8_def utf8_shortest_def)
next
  case (2 p)
  then obtain x y where xs: "xs = [x, y]" by (cases xs; cases "tl xs") auto
  from assms(2) 2 obtain d where d: "d < 64" "x = nb (0x80 + d)" "utf8_cont [y] (rune (p * 64 + d)) = Some cp"
    unfolding xs by (auto elim: utf8_cont_SomeE)
  from d(1) 2 have "p * 64 + d < 2 ^ 20" by simp
  with d(3) obtain e where e: "e < 64" "y = nb (0x80 + e)" "cp = rune ((p * 64 + d) * 64 + e)"
    by (auto elim: utf8_cont_SomeE)
  let ?k = "(p * 64 + d) * 64 + e"
  have "?k div 64 = p * 64 + d" "?k mod 64 = e" "(p * 64 + d) div 64 = p" "(p * 64 + d) mod 64 = d"
    by (simp_all only: digit_split [OF d(1)] digit_split [OF e(1)])
  with 2 d e xs show thesis
    by (intro that [of ?k]) (simp_all add: utf8_def utf8_shortest_def div_64_64)
next
  case (3 p)
  then obtain x y z where xs: "xs = [x, y, z]" by (cases xs; cases "tl xs"; cases "tl (tl xs)") auto
  from assms(2) 3 obtain d where d: "d < 64" "x = nb (0x80 + d)" "utf8_cont [y, z] (rune (p * 64 + d)) = Some cp"
    unfolding xs by (auto elim: utf8_cont_SomeE)
  from d(1) 3 have "p * 64 + d < 2 ^ 20" by simp
  with d(3) obtain e where e: "e < 64" "y = nb (0x80 + e)"
      "utf8_cont [z] (rune ((p * 64 + d) * 64 + e)) = Some cp"
    by (auto elim: utf8_cont_SomeE)
  from d(1) e(1) 3 have "(p * 64 + d) * 64 + e < 2 ^ 20" by simp
  with e(3) obtain f where f: "f < 64" "z = nb (0x80 + f)" "cp = rune (((p * 64 + d) * 64 + e) * 64 + f)"
    by (auto elim: utf8_cont_SomeE)
  let ?k = "((p * 64 + d) * 64 + e) * 64 + f"
  have "?k div 64 = (p * 64 + d) * 64 + e" "?k mod 64 = f"
    "((p * 64 + d) * 64 + e) div 64 = p * 64 + d" "((p * 64 + d) * 64 + e) mod 64 = e"
    "(p * 64 + d) div 64 = p" "(p * 64 + d) mod 64 = d"
    by (simp_all only: digit_split [OF d(1)] digit_split [OF e(1)] digit_split [OF f(1)])
  with 3 d e f xs show thesis
    by (intro that [of ?k]) (simp_all add: utf8_def utf8_shortest_def div_64_64)
qed

lemma utf8_text_Nil [simp]: "utf8_text []"
  unfolding utf8_text_def by (intro exI [of _ "[]"]) simp

lemma utf8_text_Cons: "scalar k \<Longrightarrow> utf8_text b \<Longrightarrow> utf8_text (utf8 k @ b)"
proof -
  assume "scalar k" "utf8_text b"
  then obtain cs where "\<forall>c \<in> set cs. scalar c" "b = concat (map utf8 cs)"
    by (auto simp: utf8_text_def)
  with \<open>scalar k\<close> show ?thesis
    unfolding utf8_text_def by (intro exI [of _ "k # cs"]) simp
qed

lemma utf8_nonempty [simp]: "utf8 k \<noteq> []"
  by (simp add: utf8_def)

lemma utf8_text_cases:
  assumes "utf8_text b"
  obtains "b = []" | k t where "scalar k" "b = utf8 k @ t" "utf8_text t"
proof -
  from assms obtain cs where cs: "\<forall>c \<in> set cs. scalar c" "b = concat (map utf8 cs)"
    by (auto simp: utf8_text_def)
  show thesis
  proof (cases cs)
    case Nil
    with cs that(1) show thesis by simp
  next
    case (Cons k ks)
    with cs show thesis by (intro that(2) [of k "concat (map utf8 ks)"]) (auto simp: utf8_text_def)
  qed
qed

lemma drop_split:
  assumes "i < length b" and "0 < n"
  shows "drop i b = (b ! i # take (n - 1) (drop (i + 1) b)) @ drop (i + n) b"
proof -
  have "drop (n - 1) (drop (i + 1) b) = drop (i + n) b" using assms(2) by (simp add: add.commute)
  then show ?thesis
    using assms(1) by (metis Cons_nth_drop_Suc Suc_eq_plus1 append_Cons append_take_drop_id)
qed

lemma validUTF8_at_sound: "validUTF8_at b i \<Longrightarrow> utf8_text (drop i b)"
proof (induction b i rule: validUTF8_at.induct)
  case (1 b i)
  show ?case
  proof (cases "i < length b")
    case True
    let ?c = "b ! i"
    have b: "drop i b = ?c # drop (i + 1) b"
      using True by (simp add: Cons_nth_drop_Suc)
    show ?thesis
    proof (cases "?c < 0x80")
      case c: True
      have "validUTF8_at b (i + 1)"
        using "1.prems" True c by (subst (asm) validUTF8_at.simps) simp
      then have t: "utf8_text (drop (i + 1) b)" using "1.IH"(1) True c by simp
      have "scalar (unat ?c)" "utf8 (unat ?c) = [?c]"
        using c by (simp_all add: byte_less_80 scalar_def utf8_def)
      then show ?thesis using utf8_text_Cons [OF _ t, of "unat ?c"] b by simp
    next
      case c: False
      have E: "case utf8_lead ?c of None \<Rightarrow> False
        | Some (n, cp0) \<Rightarrow> if length b < i + n then False
            else (case utf8_cont (take (n - 1) (drop (i + 1) b)) cp0 of None \<Rightarrow> False
              | Some cp \<Rightarrow>
                 if cp <s utf8_lowest n \<or> 0x10FFFF <s cp \<or> (0xD800 <=s cp \<and> cp <=s 0xDFFF)
                 then False else validUTF8_at b (i + n))"
        using "1.prems" True c by (simp add: validUTF8_at.simps [of b i] Let_def)
      then obtain n cp0 where lead: "utf8_lead ?c = Some (n, cp0)"
        by (cases "utf8_lead ?c") auto
      with E have len: "i + n \<le> length b" by (cases "length b < i + n") simp_all
      let ?xs = "take (n - 1) (drop (i + 1) b)"
      obtain cp where cont: "utf8_cont ?xs cp0 = Some cp"
        using E lead len by (cases "utf8_cont ?xs cp0") simp_all
      then have rng: "\<not> (cp <s utf8_lowest n \<or> 0x10FFFF <s cp \<or> (0xD800 <=s cp \<and> cp <=s 0xDFFF))"
        and rec: "validUTF8_at b (i + n)"
        using E lead len by (simp_all split: if_splits)
      have n: "2 \<le> n" "n \<le> 4" using utf8_lead_length [OF lead] by simp_all
      then have lxs: "Suc (length ?xs) = n" using len by simp
      obtain k where k: "cp = rune k" "k < 2 ^ 31"
        "utf8_shortest n k \<and> scalar k \<Longrightarrow> ?c # ?xs = utf8 k"
        using utf8_sound [of ?c ?xs cp0 cp] lead cont unfolding lxs by blast
      have "n = 2 \<or> n = 3 \<or> n = 4" using n by linarith
      then have good: "utf8_shortest n k \<and> scalar k"
        using rng utf8_range_check [of n k] k(1,2) by blast
      have "utf8_text (drop (i + n) b)"
        using "1.IH"(2) True c lead len cont rng rec by (auto simp: not_less)
      moreover have "drop i b = utf8 k @ drop (i + n) b"
        using k(3) [OF good] drop_split [OF True, of n] n by simp
      ultimately show ?thesis using utf8_text_Cons good by simp
    qed
  next
    case False
    then show ?thesis by simp
  qed
qed

lemma validUTF8_at_Cons:
  assumes "drop i b = utf8 k @ t" and "scalar k" and "validUTF8_at b (i + length (utf8 k))"
  shows "validUTF8_at b i"
proof (cases "k < 0x80")
  case True
  then have u: "utf8 k = [nb k]" by (simp add: utf8_def)
  then have i: "i < length b" using assms(1) by (metis drop_all append_is_Nil_conv not_le utf8_nonempty)
  have "b ! i = nb k" using assms(1) i u by (metis append_Cons list.inject Cons_nth_drop_Suc)
  then show ?thesis
    using True i assms(3) u by (subst validUTF8_at.simps) (simp add: byte_less_80)
next
  case False
  then obtain c xs cp where u: "utf8 k = c # xs" and c: "\<not> c < 0x80"
    and lead: "utf8_lead c = Some (Suc (length xs), cp)" and cont: "utf8_cont xs cp = Some (rune k)"
    and short: "utf8_shortest (Suc (length xs)) k" and len: "length xs = 1 \<or> length xs = 2 \<or> length xs = 3"
    using utf8_complete [OF assms(2)] by (metis not_le)
  have i: "i < length b" using assms(1) by (metis drop_all append_is_Nil_conv not_le utf8_nonempty)
  have b: "b ! i = c" "drop (i + 1) b = xs @ t"
    using assms(1) i u by (metis append_Cons list.inject Cons_nth_drop_Suc)
      (metis Suc_eq_plus1 append_Cons assms(1) drop_Suc i list.sel(3) tl_drop u)
  have "i + Suc (length xs) \<le> length b"
    using arg_cong [OF assms(1), of length] u i by simp
  moreover have "Suc (length xs) = 2 \<or> Suc (length xs) = 3 \<or> Suc (length xs) = 4"
    using len by auto
  moreover have "k < 2 ^ 31" using assms(2) by (simp add: scalar_def)
  ultimately show ?thesis
    using i b c lead cont short assms(2,3) u utf8_range_check [of "Suc (length xs)" k]
    by (subst validUTF8_at.simps) simp
qed

lemma validUTF8_at_complete: "utf8_text (drop i b) \<Longrightarrow> validUTF8_at b i"
proof (induction "length b - i" arbitrary: i rule: less_induct)
  case less
  from less.prems show ?case
  proof (cases rule: utf8_text_cases)
    case 1
    then show ?thesis by (subst validUTF8_at.simps) simp
  next
    case (2 k t)
    have i: "i < length b" using 2(2) by (metis drop_all append_is_Nil_conv not_le utf8_nonempty)
    have t: "t = drop (i + length (utf8 k)) b"
      using 2(2) by (metis add.commute append_eq_conv_conj drop_drop)
    have "validUTF8_at b (i + length (utf8 k))"
      by (rule less.hyps) (use i 2(3) t in \<open>simp_all add: diff_less_mono2\<close>)
    then show ?thesis using validUTF8_at_Cons 2 by blast
  qed
qed

lemma validUTF8_iff: "validUTF8 b \<longleftrightarrow> utf8_text b"
  using validUTF8_at_sound [of b 0] validUTF8_at_complete [of 0 b] by (auto simp: validUTF8_def)

lemma utf8_text_append: "utf8_text a \<Longrightarrow> utf8_text b \<Longrightarrow> utf8_text (a @ b)"
  unfolding utf8_text_def
proof (elim exE conjE)
  fix cs ds
  assume "\<forall>c \<in> set cs. scalar c" "a = concat (map utf8 cs)" "\<forall>c \<in> set ds. scalar c" "b = concat (map utf8 ds)"
  then show "\<exists>es. (\<forall>c \<in> set es. scalar c) \<and> a @ b = concat (map utf8 es)"
    by (intro exI [of _ "cs @ ds"]) auto
qed

lemma validUTF8_Nil [simp]: "validUTF8 []"
  by (simp add: validUTF8_iff)

lemma validUTF8_append: "validUTF8 a \<Longrightarrow> validUTF8 b \<Longrightarrow> validUTF8 (a @ b)"
  by (simp add: validUTF8_iff utf8_text_append)

subsection \<open>The writer against the encoding\<close>

lemma ucast_or_payload:
  fixes w :: u32
  assumes "unat w < 2 ^ k" "2 ^ k dvd a" "a + 2 ^ k \<le> 256"
  shows "(ucast (rune a OR w) :: byte) = nb (a + unat w)"
proof -
  have "unat (rune a OR w) = a OR unat w"
    using assms(3) by (simp add: unsigned_or_eq)
  also have "\<dots> = a + unat w" using assms by (intro or_add_nat)
  finally have "unat (rune a OR w) = a + unat w" .
  then have "unat (ucast (rune a OR w) :: byte) = a + unat w"
    using assms by (simp add: unsigned_ucast_eq take_bit_nat_eq_self)
  then show ?thesis by (metis nb_unat)
qed

lemma rune_drop:
  assumes n: "n < 2 ^ 31"
  shows "signed_drop_bit k (rune n) = rune (n div 2 ^ k)"
proof -
  have d: "n div 2 ^ k < 2 ^ 31" by (rule le_less_trans [OF div_le_dividend n])
  have "unat (rune n) = n" using n by simp
  then have "unat (drop_bit k (rune n)) = n div 2 ^ k" by (simp only: unat_drop)
  also have "\<dots> = unat (rune (n div 2 ^ k))" using d by simp
  finally have "drop_bit k (rune n) = rune (n div 2 ^ k)" by (simp only: word_eq_unat)
  then show ?thesis using n by (simp add: signed_drop_bit_small)
qed

lemma rune_mask6: "n < 2 ^ 31 \<Longrightarrow> rune n AND 0x3F = rune (n mod 64)"
proof -
  assume n: "n < 2 ^ 31"
  have "unat (rune n AND 0x3F) = n mod 64"
    using unat_and_mask [of "rune n" 6] n by (simp add: mask_eq_exp_minus_1)
  then show ?thesis by (metis rune_unat)
qed

lemma byte_of_rune:
  "n < 256 \<Longrightarrow> ucast (rune n) = nb n"
  "n < 32 \<Longrightarrow> ucast (0xC0 OR rune n) = nb (0xC0 + n)"
  "n < 16 \<Longrightarrow> ucast (0xE0 OR rune n) = nb (0xE0 + n)"
  "n < 8 \<Longrightarrow> ucast (0xF0 OR rune n) = nb (0xF0 + n)"
  "n < 64 \<Longrightarrow> ucast (0x80 OR rune n) = nb (0x80 + n)"
proof -
  have lits: "rune 0xC0 = 0xC0" "rune 0xE0 = 0xE0" "rune 0xF0 = 0xF0" "rune 0x80 = 0x80" "rune 0 = 0"
    by (simp_all add: rune_def)
  show "n < 256 \<Longrightarrow> ucast (rune n) = nb n"
    using ucast_or_payload [of "rune n" 8 0] lits by simp
  show "n < 32 \<Longrightarrow> ucast (0xC0 OR rune n) = nb (0xC0 + n)"
    using ucast_or_payload [of "rune n" 5 "0xC0"] lits by simp
  show "n < 16 \<Longrightarrow> ucast (0xE0 OR rune n) = nb (0xE0 + n)"
    using ucast_or_payload [of "rune n" 4 "0xE0"] lits by simp
  show "n < 8 \<Longrightarrow> ucast (0xF0 OR rune n) = nb (0xF0 + n)"
    using ucast_or_payload [of "rune n" 3 "0xF0"] lits by simp
  show "n < 64 \<Longrightarrow> ucast (0x80 OR rune n) = nb (0x80 + n)"
    using ucast_or_payload [of "rune n" 6 "0x80"] lits by simp
qed

lemma appendRune_utf8:
  assumes "unat cp < 0x110000"
  shows "appendRune out cp = out @ utf8 (unat cp)"
proof -
  define n where "n = unat cp"
  have cp: "cp = rune n" and n: "n < 0x110000" using assms by (simp_all add: n_def)
  have less: "rune n <s 0x80 \<longleftrightarrow> n < 0x80" "rune n <s 0x800 \<longleftrightarrow> n < 0x800"
    "rune n <s 0x10000 \<longleftrightarrow> n < 0x10000"
    using n by (simp_all add: sless_small)
  have parts: "signed_drop_bit 6 (rune n) = rune (n div 64)"
    "signed_drop_bit 12 (rune n) = rune (n div 4096)" "signed_drop_bit 18 (rune n) = rune (n div 262144)"
    using rune_drop [of n 6] rune_drop [of n 12] rune_drop [of n 18] n by simp_all
  have masks: "rune n AND 0x3F = rune (n mod 64)" "rune (n div 64) AND 0x3F = rune (n div 64 mod 64)"
    "rune (n div 4096) AND 0x3F = rune (n div 4096 mod 64)"
    using rune_mask6 [of n] rune_mask6 [of "n div 64"] rune_mask6 [of "n div 4096"] n by simp_all
  consider "n < 0x80" | "0x80 \<le> n" "n < 0x800" | "0x800 \<le> n" "n < 0x10000" | "0x10000 \<le> n"
    by linarith
  then have "appendRune out (rune n) = out @ utf8 n"
    using n by cases (simp_all add: appendRune_def utf8_def less parts masks byte_of_rune)
  then show ?thesis by (simp only: cp [symmetric] n_def [symmetric])
qed

end
