(* ===== verification/Reader.thy ===== *)
theory Reader
  imports Utf8
begin

section \<open>The reader primitives of the codec\<close>

text \<open>
  Models the \<open>reader\<close> of \<open>go/abstraction/config/rec.go\<close>: its three fields and the scanning
  methods shared by every record decoder. A method that can refuse returns \<open>Inl\<close> of the
  \<open>Refusal\<close> (word and byte offset) or \<open>Inr\<close> of its result and the reader it leaves behind. On a
  refusal the Go callers drop the reader, so its state is not part of \<open>Inl\<close>.
  The lemmas describe every method by what it does to \<open>unread r\<close>, the bytes still to come.
\<close>

subsection \<open>State and refusals\<close>

datatype Refusal = Refusal (Word: bytes) (Offset: nat)

record reader =
  rbuf :: bytes
  rpos :: nat
  rdepth :: int

type_synonym 'a parsed = "Refusal + 'a \<times> reader"

definition depthLimit :: int where
  "depthLimit = 64"

definition refuse :: "reader \<Rightarrow> String.string \<Rightarrow> Refusal" where
  "refuse r word = Refusal (lit word) (rpos r)"

definition adv :: "nat \<Rightarrow> reader \<Rightarrow> reader" where
  "adv n r = r\<lparr>rpos := rpos r + n\<rparr>"

lemma adv_simps [simp]:
  "rbuf (adv n r) = rbuf r" "rpos (adv n r) = rpos r + n" "rdepth (adv n r) = rdepth r"
  "adv m (adv n r) = adv (n + m) r" "adv 0 r = r"
  by (simp_all add: adv_def)

definition at :: "reader \<Rightarrow> byte" where
  "at r = (if rpos r < length (rbuf r) then rbuf r ! rpos r else 0)"

definition space :: "byte \<Rightarrow> bool" where
  "space c \<longleftrightarrow> c = ch CHR '' '' \<or> c = ch CHR 0x09 \<or> c = ch CHR 0x0A \<or> c = ch CHR 0x0D"

function ws :: "reader \<Rightarrow> reader" where
  "ws r = (if rpos r < length (rbuf r) \<and> space (rbuf r ! rpos r) then ws (adv 1 r) else r)"
  by pat_completeness auto
termination
  by (relation "measure (\<lambda>r. length (rbuf r) - rpos r)") (auto simp: adv_def)

declare ws.simps [simp del]

definition enter :: "reader \<Rightarrow> unit parsed" where
  "enter r =
     (let r = r\<lparr>rdepth := rdepth r + 1\<rparr> in
      if depthLimit < rdepth r then Inl (refuse r ''depth_exceeded'') else Inr ((), r))"

definition leave :: "reader \<Rightarrow> reader" where
  "leave r = r\<lparr>rdepth := rdepth r - 1\<rparr>"

subsection \<open>Strings\<close>

definition hexval :: "byte \<Rightarrow> u32 option" where
  "hexval c =
     (if ch CHR ''0'' \<le> c \<and> c \<le> ch CHR ''9'' then Some (ucast (c - ch CHR ''0''))
      else if ch CHR ''a'' \<le> c \<and> c \<le> ch CHR ''f'' then Some (ucast (c - ch CHR ''a'' + 10))
      else if ch CHR ''A'' \<le> c \<and> c \<le> ch CHR ''F'' then Some (ucast (c - ch CHR ''A'' + 10))
      else None)"

fun hex_loop :: "bytes \<Rightarrow> u32 \<Rightarrow> u32 option" where
  "hex_loop [] u = Some u"
| "hex_loop (c # cs) u =
     (case hexval c of None \<Rightarrow> None | Some v \<Rightarrow> hex_loop cs (push_bit 4 u OR v))"

definition hex4 :: "reader \<Rightarrow> u32 parsed" where
  "hex4 r =
     (if length (rbuf r) < rpos r + 4 then Inl (refuse r ''bad_string'')
      else (case hex_loop (take 4 (drop (rpos r) (rbuf r))) 0 of
          None \<Rightarrow> Inl (refuse r ''bad_string'')
        | Some u \<Rightarrow> Inr (u, adv 4 r)))"

text \<open>The \<open>case 'u'\<close> of \<open>escape\<close>, entered after the \<open>u\<close>.\<close>

definition escape_u :: "reader \<Rightarrow> bytes \<Rightarrow> bytes parsed" where
  "escape_u r out =
     (case hex4 r of Inl e \<Rightarrow> Inl e | Inr (u, r) \<Rightarrow>
      if 0xDC00 <=s u \<and> u <=s 0xDFFF then Inl (refuse r ''bad_string'')
      else if 0xD800 <=s u \<and> u <=s 0xDBFF then
        (if length (rbuf r) \<le> rpos r + 1 \<or> rbuf r ! rpos r \<noteq> ch CHR 0x5C
            \<or> rbuf r ! (rpos r + 1) \<noteq> ch CHR ''u''
         then Inl (refuse r ''bad_string'')
         else (case hex4 (adv 2 r) of Inl e \<Rightarrow> Inl e | Inr (lo, r) \<Rightarrow>
           if lo <s 0xDC00 \<or> 0xDFFF <s lo then Inl (refuse r ''bad_string'')
           else Inr (appendRune out (0x10000 + push_bit 10 (u - 0xD800) + (lo - 0xDC00)), r)))
      else Inr (appendRune out u, r))"

text \<open>The cases of \<open>escape\<close> that stand for one byte.\<close>

definition escape_byte :: "byte \<Rightarrow> byte option" where
  "escape_byte c =
     (if c = ch CHR 0x22 \<or> c = ch CHR 0x5C \<or> c = ch CHR ''/'' then Some c
      else if c = ch CHR ''b'' then Some 0x08
      else if c = ch CHR ''f'' then Some 0x0C
      else if c = ch CHR ''n'' then Some (ch CHR 0x0A)
      else if c = ch CHR ''r'' then Some (ch CHR 0x0D)
      else if c = ch CHR ''t'' then Some (ch CHR 0x09)
      else None)"

definition escape :: "reader \<Rightarrow> bytes \<Rightarrow> bytes parsed" where
  "escape r out =
     (let r = adv 1 r in
      if length (rbuf r) \<le> rpos r then Inl (refuse r ''malformed'')
      else (let c = rbuf r ! rpos r; r = adv 1 r in
        case escape_byte c of
          Some b \<Rightarrow> Inr (out @ [b], r)
        | None \<Rightarrow> if c = ch CHR ''u'' then escape_u r out else Inl (refuse r ''bad_string'')))"

text \<open>
  What a step of the reader may do to the reader itself: it moves forward in the same buffer,
  never past its end, and leaves the depth as it found it.
\<close>

definition moves :: "nat \<Rightarrow> reader \<Rightarrow> reader \<Rightarrow> bool" where
  "moves n r r' \<longleftrightarrow> rbuf r' = rbuf r \<and> rdepth r' = rdepth r \<and> rpos r + n \<le> rpos r'
     \<and> (rpos r \<le> length (rbuf r) \<longrightarrow> rpos r' \<le> length (rbuf r))"

lemma movesD: "moves n r r' \<Longrightarrow> rbuf r' = rbuf r" "moves n r r' \<Longrightarrow> rpos r + n \<le> rpos r'"
  "moves n r r' \<Longrightarrow> rdepth r' = rdepth r"
  "moves n r r' \<Longrightarrow> rpos r \<le> length (rbuf r) \<Longrightarrow> rpos r' \<le> length (rbuf r)"
  by (simp_all add: moves_def)

lemma moves_refl [simp, intro]: "moves 0 r r"
  by (simp add: moves_def)

lemma moves_trans: "moves m r s \<Longrightarrow> moves n s t \<Longrightarrow> moves (m + n) r t"
  by (auto simp: moves_def)

lemma moves_weaken: "moves m r s \<Longrightarrow> n \<le> m \<Longrightarrow> moves n r s"
  by (auto simp: moves_def)

lemma moves_adv: "rpos r + n \<le> length (rbuf r) \<Longrightarrow> moves n r (adv n r)"
  by (simp add: moves_def adv_def)

lemma hex4_moves: "hex4 r = Inr (u, r') \<Longrightarrow> r' = adv 4 r \<and> moves 4 r r'"
  by (auto simp: hex4_def intro!: moves_adv split: if_splits option.splits)

lemma escape_u_moves: "escape_u r out = Inr (out', r') \<Longrightarrow> moves 4 r r'"
proof -
  assume e: "escape_u r out = Inr (out', r')"
  then obtain u r1 where h: "hex4 r = Inr (u, r1)"
    by (auto simp: escape_u_def split: sum.splits)
  then have m1: "moves 4 r r1" by (simp add: hex4_moves)
  show ?thesis
  proof (cases "r' = r1")
    case True
    with m1 show ?thesis by simp
  next
    case False
    then obtain lo where h2: "hex4 (adv 2 r1) = Inr (lo, r')" and l: "rpos r1 + 2 \<le> length (rbuf r1)"
      using e h by (auto simp: escape_u_def split: if_splits sum.splits)
    from l have "moves 2 r1 (adv 2 r1)" by (rule moves_adv)
    with m1 hex4_moves [OF h2] have "moves (4 + (2 + 4)) r r'"
      by (blast intro: moves_trans)
    then show ?thesis by (rule moves_weaken) simp
  qed
qed

lemma escape_cases:
  "rpos r + 2 \<le> length (rbuf r) \<Longrightarrow> escape r out =
    (case escape_byte (rbuf r ! (rpos r + 1)) of
       Some b \<Rightarrow> Inr (out @ [b], adv 2 r)
     | None \<Rightarrow> if rbuf r ! (rpos r + 1) = ch CHR ''u'' then escape_u (adv 2 r) out
         else Inl (refuse (adv 2 r) ''bad_string''))"
  "\<not> rpos r + 2 \<le> length (rbuf r) \<Longrightarrow> escape r out = Inl (refuse (adv 1 r) ''malformed'')"
  by (simp_all add: escape_def Let_def numeral_2_eq_2 cong: option.case_cong)

lemma escape_moves: "escape r out = Inr (out', r') \<Longrightarrow> moves 2 r r'"
proof -
  assume e: "escape r out = Inr (out', r')"
  then have l: "rpos r + 2 \<le> length (rbuf r)"
    using escape_cases(2) [of r out] by (cases "rpos r + 2 \<le> length (rbuf r)") simp_all
  then have m: "moves 2 r (adv 2 r)" by (rule moves_adv)
  consider "r' = adv 2 r" | "escape_u (adv 2 r) out = Inr (out', r')"
    using e unfolding escape_cases(1) [OF l] by (auto split: option.splits if_splits)
  then show ?thesis
  proof cases
    case 2
    with m escape_u_moves have "moves (2 + 4) r r'" by (blast intro: moves_trans)
    then show ?thesis by (rule moves_weaken) simp
  qed (use m in simp)
qed

function str_loop :: "reader \<Rightarrow> bytes \<Rightarrow> bytes parsed" where
  "str_loop r out =
     (if length (rbuf r) \<le> rpos r then Inl (refuse r ''malformed'')
      else (let c = rbuf r ! rpos r in
        if c = ch CHR 0x22 then
          (let r = adv 1 r in
           if \<not> validUTF8 out then Inl (refuse r ''bad_string'') else Inr (out, r))
        else if c < 0x20 then Inl (refuse r ''bad_string'')
        else if c = ch CHR 0x5C then
          (case escape r out of Inl e \<Rightarrow> Inl e | Inr (out, r) \<Rightarrow> str_loop r out)
        else str_loop (adv 1 r) (out @ [c])))"
  by pat_completeness auto
termination
  by (relation "measure (\<lambda>(r, out). length (rbuf r) - rpos r)")
    (auto dest!: escape_moves simp: moves_def adv_def)

declare str_loop.simps [simp del]

definition str :: "reader \<Rightarrow> bytes parsed" where
  "str r = (if at r \<noteq> ch CHR 0x22 then Inl (refuse r ''wrong_type'') else str_loop (adv 1 r) [])"

subsection \<open>Numbers and literals\<close>

definition digit :: "byte \<Rightarrow> bool" where
  "digit c \<longleftrightarrow> ch CHR ''0'' \<le> c \<and> c \<le> ch CHR ''9''"

text \<open>The accumulation loop of \<open>integer\<close>: \<open>u\<close> is a \<open>uint64\<close>, kept from wrapping by the guard.\<close>

function int_loop :: "reader \<Rightarrow> u64 \<Rightarrow> u64 parsed" where
  "int_loop r u =
     (if digit (at r) then
        (if 922337203685477580 < u then Inl (refuse r ''number_spelling'')
         else int_loop (adv 1 r) (u * 10 + ucast (at r - ch CHR ''0'')))
      else Inr (u, r))"
  by pat_completeness auto

lemma digit_at: "digit (at r) \<Longrightarrow> rpos r < length (rbuf r)"
  by (auto simp: digit_def at_def split: if_splits)

termination int_loop
  by (relation "measure (\<lambda>(r, u). length (rbuf r) - rpos r)") (auto dest!: digit_at simp: adv_def)

declare int_loop.simps [simp del]

text \<open>\<open>if r.at() == '-' { r.pos++ }\<close>, shared by \<open>integer\<close> and \<open>skipNumber\<close>.\<close>

definition sign :: "reader \<Rightarrow> reader" where
  "sign r = (if at r = ch CHR ''-'' then adv 1 r else r)"

text \<open>The last checks of \<open>integer\<close>, once the digits are read.\<close>

definition int_finish :: "bool \<Rightarrow> u64 \<Rightarrow> u64 \<Rightarrow> u64 \<Rightarrow> reader \<Rightarrow> u64 parsed" where
  "int_finish neg lo hi u r =
     (let c = at r in
      if c = ch CHR ''.'' \<or> c = ch CHR ''e'' \<or> c = ch CHR ''E''
         \<or> (ch CHR ''0'' \<le> c \<and> c \<le> ch CHR ''9'')
      then Inl (refuse r ''number_spelling'')
      else if neg \<and> u = 0 then Inl (refuse r ''number_spelling'')
      else if \<not> (neg \<and> u = push_bit 63 1) \<and> push_bit 63 1 - 1 < u
      then Inl (refuse r ''number_spelling'')
      else (let n = (if neg \<and> u = push_bit 63 1 then - push_bit 63 1
                     else if neg then - u else u) in
        if n <s lo \<or> hi <s n then Inl (refuse r ''number_spelling'')
        else Inr (n, r)))"

definition integer :: "reader \<Rightarrow> u64 \<Rightarrow> u64 \<Rightarrow> u64 parsed" where
  "integer r lo hi =
     (let c = at r in
      if c \<noteq> ch CHR ''-'' \<and> (c < ch CHR ''0'' \<or> ch CHR ''9'' < c) then Inl (refuse r ''wrong_type'')
      else (let neg = (c = ch CHR ''-''); r = sign r; d = at r in
        if d < ch CHR ''0'' \<or> ch CHR ''9'' < d then Inl (refuse r ''malformed'')
        else (case (if d = ch CHR ''0'' then Inr (0, adv 1 r) else int_loop r 0) of
            Inl e \<Rightarrow> Inl e
          | Inr (u, r) \<Rightarrow> int_finish neg lo hi u r)))"

definition literal :: "reader \<Rightarrow> String.string \<Rightarrow> unit parsed" where
  "literal r word =
     (if length (rbuf r) < rpos r + length word
         \<or> take (length word) (drop (rpos r) (rbuf r)) \<noteq> lit word
      then Inl (refuse r ''malformed'') else Inr ((), adv (length word) r))"

definition boolean :: "reader \<Rightarrow> bool parsed" where
  "boolean r =
     (if at r = ch CHR ''t'' then
        (case literal r ''true'' of Inl e \<Rightarrow> Inl e | Inr (_, r) \<Rightarrow> Inr (True, r))
      else if at r = ch CHR ''f'' then
        (case literal r ''false'' of Inl e \<Rightarrow> Inl e | Inr (_, r) \<Rightarrow> Inr (False, r))
      else Inl (refuse r ''wrong_type''))"

text \<open>\<open>digits r\<close> is the run of \<open>pos++\<close> over the digits ahead.\<close>

function digits :: "reader \<Rightarrow> reader" where
  "digits r = (if digit (at r) then digits (adv 1 r) else r)"
  by pat_completeness auto
termination
  by (relation "measure (\<lambda>r. length (rbuf r) - rpos r)") (auto dest!: digit_at simp: adv_def)

declare digits.simps [simp del]

definition someDigits :: "reader \<Rightarrow> unit parsed" where
  "someDigits r =
     (let r' = digits r in
      if rpos r' = rpos r then Inl (refuse r' ''number_spelling'') else Inr ((), r'))"

definition skipFraction :: "reader \<Rightarrow> unit parsed" where
  "skipFraction r = (if at r = ch CHR ''.'' then someDigits (adv 1 r) else Inr ((), r))"

definition skipExponent :: "reader \<Rightarrow> unit parsed" where
  "skipExponent r =
     (if at r = ch CHR ''e'' \<or> at r = ch CHR ''E'' then
        (let r = adv 1 r;
             r = (if at r = ch CHR ''+'' \<or> at r = ch CHR ''-'' then adv 1 r else r)
         in someDigits r)
      else Inr ((), r))"

definition skipInteger :: "reader \<Rightarrow> unit parsed" where
  "skipInteger r =
     (let c = at r in
      if c = ch CHR ''0'' then Inr ((), adv 1 r)
      else if ch CHR ''1'' \<le> c \<and> c \<le> ch CHR ''9'' then Inr ((), digits r)
      else Inl (refuse r ''number_spelling''))"

definition skipNumber :: "reader \<Rightarrow> unit parsed" where
  "skipNumber r =
     (case skipInteger (sign r) of Inl e \<Rightarrow> Inl e | Inr (_, r) \<Rightarrow>
      case skipFraction r of Inl e \<Rightarrow> Inl e | Inr (_, r) \<Rightarrow> skipExponent r)"

subsection \<open>How far each step moves\<close>

lemma moves_ws [simp]: "moves 0 r (ws r)"
proof (induction r rule: ws.induct)
  case (1 r)
  show ?case
  proof (cases "rpos r < length (rbuf r) \<and> space (rbuf r ! rpos r)")
    case True
    then have "moves 1 r (adv 1 r)" by (intro moves_adv) simp
    with "1.IH" [OF True] have "moves (1 + 0) r (ws (adv 1 r))" by (rule moves_trans [rotated])
    then show ?thesis using True by (subst ws.simps) (auto intro: moves_weaken)
  next
    case False
    then show ?thesis by (subst ws.simps) auto
  qed
qed

lemma at_nonzero: "at r = c \<Longrightarrow> c \<noteq> 0 \<Longrightarrow> rpos r < length (rbuf r)"
  by (auto simp: at_def split: if_splits)

lemma moves_adv1: "at r \<noteq> 0 \<Longrightarrow> moves 1 r (adv 1 r)"
  using at_nonzero [of r "at r"] by (intro moves_adv) simp

lemma str_loop_moves: "str_loop r out = Inr (s, r') \<Longrightarrow> moves 1 r r'"
proof (induction r out rule: str_loop.induct)
  case (1 r out)
  have l: "rpos r < length (rbuf r)"
    using "1.prems" by (subst (asm) str_loop.simps) (auto split: if_splits)
  then have adv: "moves 1 r (adv 1 r)" by (intro moves_adv) simp
  let ?c = "rbuf r ! rpos r"
  consider (close) "?c = ch CHR 0x22" | (esc) "?c = ch CHR 0x5C"
    | (plain) "?c \<noteq> ch CHR 0x22" "?c \<noteq> ch CHR 0x5C" by blast
  then show ?case
  proof cases
    case close
    then have "r' = adv 1 r"
      using "1.prems" l by (simp add: str_loop.simps [of r out] Let_def split: if_splits)
    with adv show ?thesis by simp
  next
    case esc
    then obtain out1 r1 where e: "escape r out = Inr (out1, r1)" and rest: "str_loop r1 out1 = Inr (s, r')"
      using "1.prems" l by (simp add: str_loop.simps [of r out] Let_def split: if_splits sum.splits prod.splits)
    have "moves 1 r1 r'" using "1.IH"(1) [OF _ refl _ _ _ e refl rest] l esc by simp
    with escape_moves [OF e] have "moves (2 + 1) r r'" by (rule moves_trans)
    then show ?thesis by (rule moves_weaken) simp
  next
    case plain
    then have "str_loop (adv 1 r) (out @ [?c]) = Inr (s, r')" "\<not> ?c < 0x20"
      using "1.prems" l by (simp_all add: str_loop.simps [of r out] Let_def split: if_splits)
    then have "moves 1 (adv 1 r) r'" using "1.IH"(2) plain l by simp
    with adv have "moves (1 + 1) r r'" by (rule moves_trans)
    then show ?thesis by (rule moves_weaken) simp
  qed
qed

lemma str_moves: "str r = Inr (s, r') \<Longrightarrow> moves 2 r r'"
proof -
  assume s: "str r = Inr (s, r')"
  then have "at r = ch CHR 0x22" "str_loop (adv 1 r) [] = Inr (s, r')"
    by (simp_all add: str_def split: if_splits)
  then have "moves (1 + 1) r r'"
    by (intro moves_trans [OF moves_adv1 str_loop_moves]) simp_all
  then show ?thesis by (rule moves_weaken) simp
qed

lemma str_valid: "str r = Inr (s, r') \<Longrightarrow> validUTF8 s"
proof -
  have "str_loop r out = Inr (s, r') \<Longrightarrow> validUTF8 s" for r out
  proof (induction r out rule: str_loop.induct)
    case (1 r out)
    then show ?case
      by (subst (asm) (3) str_loop.simps) (auto simp: Let_def split: if_splits sum.splits prod.splits)
  qed
  then show "str r = Inr (s, r') \<Longrightarrow> validUTF8 s"
    by (auto simp: str_def split: if_splits)
qed

lemma literal_moves: "literal r w = Inr (x, r') \<Longrightarrow> moves (length w) r r'"
  by (auto simp: literal_def intro!: moves_adv split: if_splits)

lemma boolean_moves: "boolean r = Inr (b, r') \<Longrightarrow> moves 1 r r'"
  by (auto simp: boolean_def dest!: literal_moves elim!: moves_weaken split: if_splits sum.splits)

lemma int_loop_moves: "int_loop r u = Inr (v, r') \<Longrightarrow> moves 0 r r'"
proof (induction r u rule: int_loop.induct)
  case (1 r u)
  show ?case
  proof (cases "digit (at r)")
    case True
    with "1.prems" have g: "\<not> 922337203685477580 < u"
      and rest: "int_loop (adv 1 r) (u * 10 + ucast (at r - ch CHR ''0'')) = Inr (v, r')"
      by (simp_all add: int_loop.simps [of r u] split: if_splits)
    have "moves (1 + 0) r r'"
      by (rule moves_trans [OF moves_adv "1.IH" [OF True g rest]]) (use digit_at [OF True] in simp)
    then show ?thesis by (rule moves_weaken) simp
  next
    case False
    with "1.prems" show ?thesis by (simp add: int_loop.simps [of r u])
  qed
qed

lemma moves_sign [simp]: "moves 0 r (sign r)"
  using moves_adv1 [of r] by (auto simp: sign_def elim: moves_weaken)

lemma moves_digit: "digit (at r) \<Longrightarrow> moves 1 r (adv 1 r)"
  using digit_at [of r] by (intro moves_adv) simp

lemma int_loop_step: "digit (at r) \<Longrightarrow> int_loop r 0 = int_loop (adv 1 r) (ucast (at r - ch CHR ''0''))"
  by (subst int_loop.simps) (simp add: word_less_nat_alt)

lemma int_finish_cases:
  obtains "int_finish neg lo hi u r = Inl (refuse r ''number_spelling'')"
  | n where "int_finish neg lo hi u r = Inr (n, r)"
  by (fastforce simp: int_finish_def Let_def split: if_splits)

lemma integer_eq:
  "integer r lo hi =
     (if at r \<noteq> ch CHR ''-'' \<and> \<not> digit (at r) then Inl (refuse r ''wrong_type'')
      else if \<not> digit (at (sign r)) then Inl (refuse (sign r) ''malformed'')
      else (case (if at (sign r) = ch CHR ''0'' then Inr (0, adv 1 (sign r)) else int_loop (sign r) 0) of
            Inl e \<Rightarrow> Inl e
          | Inr (u, r') \<Rightarrow> int_finish (at r = ch CHR ''-'') lo hi u r'))"
  by (simp only: integer_def Let_def digit_def not_le de_Morgan_conj)

lemma int_digits_moves:
  assumes "digit (at r)" and "(if at r = ch CHR ''0'' then Inr (0, adv 1 r) else int_loop r 0) = Inr (u, r')"
  shows "moves 1 r r'"
proof (cases "at r = ch CHR ''0''")
  case True
  then show ?thesis using assms moves_digit by auto
next
  case False
  with assms have "int_loop (adv 1 r) (ucast (at r - ch CHR ''0'')) = Inr (u, r')"
    by (simp only: int_loop_step if_False)
  from moves_trans [OF moves_digit [OF assms(1)] int_loop_moves [OF this]] show ?thesis by simp
qed

lemma integer_moves:
  assumes "integer r lo hi = Inr (n, r')"
  shows "moves 1 r r'"
proof -
  have d: "digit (at (sign r))"
    using assms by (auto simp: integer_eq split: if_splits)
  let ?m = "if at (sign r) = ch CHR ''0'' then Inr (0, adv 1 (sign r)) else int_loop (sign r) 0"
  obtain u r1 where m: "?m = Inr (u, r1)" and f: "int_finish (at r = ch CHR ''-'') lo hi u r1 = Inr (n, r')"
    using assms unfolding integer_eq by (cases ?m) (auto split: if_splits)
  from f have "r' = r1" by (rule_tac int_finish_cases [of "at r = ch CHR ''-''" lo hi u r1]) simp_all
  with moves_trans [OF moves_sign int_digits_moves [OF d m]] show ?thesis by simp
qed

lemma moves_digits [simp]: "moves 0 r (digits r)"
proof (induction r rule: digits.induct)
  case (1 r)
  show ?case
  proof (cases "digit (at r)")
    case True
    then have "moves (1 + 0) r (digits (adv 1 r))"
      using "1.IH" by (intro moves_trans [OF moves_digit])
    then show ?thesis using True by (subst digits.simps) (auto elim: moves_weaken)
  next
    case False
    then show ?thesis by (subst digits.simps) simp
  qed
qed

lemma someDigits_moves: "someDigits r = Inr (x, r') \<Longrightarrow> moves 1 r r'"
  using moves_digits [of r] by (auto simp: someDigits_def Let_def moves_def split: if_splits)

lemma skipFraction_moves: "skipFraction r = Inr (x, r') \<Longrightarrow> moves 0 r r'"
  by (auto simp: skipFraction_def split: if_splits dest!: someDigits_moves
      intro: moves_weaken [OF moves_trans [OF moves_adv1]])

lemma skipExponent_moves: "skipExponent r = Inr (x, r') \<Longrightarrow> moves 0 r r'"
  by (auto simp: skipExponent_def Let_def split: if_splits dest!: someDigits_moves
      intro: moves_weaken [OF moves_trans [OF moves_adv1]]
        moves_weaken [OF moves_trans [OF moves_adv1 moves_trans [OF moves_adv1]]])

lemma skipInteger_moves: "skipInteger r = Inr (x, r') \<Longrightarrow> moves 1 r r'"
proof -
  assume s: "skipInteger r = Inr (x, r')"
  show ?thesis
  proof (cases "at r = ch CHR ''0''")
    case True
    then show ?thesis using s moves_adv1 [of r] by (simp add: skipInteger_def)
  next
    case False
    with s have d: "ch CHR ''1'' \<le> at r" "at r \<le> ch CHR ''9''" and r': "r' = digits r"
      by (auto simp: skipInteger_def Let_def split: if_splits)
    then have "digit (at r)" by (simp add: digit_def word_le_nat_alt)
    moreover have "digits r = digits (adv 1 r)"
      using \<open>digit (at r)\<close> by (subst digits.simps) (simp only: if_True)
    ultimately show ?thesis
      using moves_trans [OF moves_digit moves_digits, of r] by (simp add: r')
  qed
qed

lemma skipNumber_moves:
  assumes "skipNumber r = Inr (x, r')"
  shows "moves 1 r r'"
proof -
  obtain r2 r3 where i: "skipInteger (sign r) = Inr ((), r2)"
    and f: "skipFraction r2 = Inr ((), r3)" and e: "skipExponent r3 = Inr ((), r')"
    using assms by (auto simp: skipNumber_def split: sum.splits prod.splits)
  from moves_trans [OF moves_trans [OF moves_trans [OF moves_sign skipInteger_moves [OF i]]
        skipFraction_moves [OF f]] skipExponent_moves [OF e]]
  show ?thesis by simp
qed

subsection \<open>The refusal vocabulary\<close>

text \<open>The declared vocabulary, in the order two of its words are chosen between, and its rank.\<close>

definition refusals :: "bytes list" where
  "refusals = [lit ''malformed'', lit ''bad_string'', lit ''number_spelling'', lit ''wrong_type'',
     lit ''depth_exceeded'', lit ''duplicate_field'', lit ''unknown_field'', lit ''missing_field'',
     lit ''bad_enum'', lit ''trailing_bytes'']"

fun rank_loop :: "bytes list \<Rightarrow> int \<Rightarrow> bytes \<Rightarrow> int" where
  "rank_loop [] i word = -1"
| "rank_loop (w # words) i word = (if w = word then i else rank_loop words (i + 1) word)"

definition refusalRank :: "bytes \<Rightarrow> int" where
  "refusalRank word = rank_loop refusals 0 word"

definition word_ok :: "String.string \<Rightarrow> bool" where
  "word_ok w \<longleftrightarrow> lit w \<in> set refusals"

lemma word_ok_simps [simp]:
  "word_ok ''malformed''" "word_ok ''bad_string''" "word_ok ''number_spelling''" "word_ok ''wrong_type''"
  "word_ok ''depth_exceeded''" "word_ok ''duplicate_field''" "word_ok ''unknown_field''"
  "word_ok ''missing_field''" "word_ok ''bad_enum''" "word_ok ''trailing_bytes''"
  by (simp_all add: word_ok_def refusals_def)

text \<open>A refusal is in order when its word is declared and its offset is between the place the scan
  started at and the end of the buffer.\<close>

definition refused :: "reader \<Rightarrow> Refusal \<Rightarrow> bool" where
  "refused r e \<longleftrightarrow> Word e \<in> set refusals \<and>
     (rpos r \<le> length (rbuf r) \<longrightarrow> rpos r \<le> Offset e \<and> Offset e \<le> length (rbuf r))"

lemma refused_refuse: "moves n r r' \<Longrightarrow> word_ok w \<Longrightarrow> refused r (refuse r' w)"
  by (auto simp: refused_def refuse_def word_ok_def moves_def)

lemma refused_refuse_self [simp]: "word_ok w \<Longrightarrow> refused r (refuse r w)"
  by (rule refused_refuse [OF moves_refl])

lemma refused_moves: "moves n r r' \<Longrightarrow> refused r' e \<Longrightarrow> refused r e"
  by (auto simp: refused_def moves_def)

lemma hex4_refused: "hex4 r = Inl e \<Longrightarrow> refused r e"
  by (auto simp: hex4_def split: if_splits option.splits)

lemma escape_u_refused: "escape_u r out = Inl e \<Longrightarrow> refused r e"
proof -
  assume e: "escape_u r out = Inl e"
  show ?thesis
  proof (cases "hex4 r")
    case (Inl e')
    with e show ?thesis by (simp add: escape_u_def hex4_refused)
  next
    case (Inr ur)
    obtain u r1 where h: "hex4 r = Inr (u, r1)" using Inr by (cases ur) simp
    then have m1: "moves 4 r r1" by (simp add: hex4_moves)
    consider "e = refuse r1 ''bad_string''"
      | "hex4 (adv 2 r1) = Inl e" "rpos r1 + 2 \<le> length (rbuf r1)"
      | lo r2 where "hex4 (adv 2 r1) = Inr (lo, r2)" "e = refuse r2 ''bad_string''" "rpos r1 + 2 \<le> length (rbuf r1)"
      using e h by (auto simp: escape_u_def split: if_splits sum.splits prod.splits)
    then show ?thesis
    proof cases
      case 1
      with m1 show ?thesis by (simp add: refused_refuse)
    next
      case 2
      then have "moves (4 + 2) r (adv 2 r1)" by (intro moves_trans [OF m1] moves_adv)
      with 2(1) show ?thesis by (blast intro: refused_moves hex4_refused)
    next
      case 3
      then have "moves (4 + 2 + 4) r r2"
        using hex4_moves by (intro moves_trans [OF moves_trans [OF m1 moves_adv]]) auto
      with 3 show ?thesis by (simp add: refused_refuse)
    qed
  qed
qed

lemma escape_refused:
  assumes "escape r out = Inl e" and "rpos r < length (rbuf r)"
  shows "refused r e"
proof (cases "rpos r + 2 \<le> length (rbuf r)")
  case True
  then have m: "moves 2 r (adv 2 r)" by (rule moves_adv)
  have "escape_byte (rbuf r ! (rpos r + 1)) = None"
    using assms(1) escape_cases(1) [OF True, of out] by (cases "escape_byte (rbuf r ! (rpos r + 1))") simp_all
  then have e: "(if rbuf r ! (rpos r + 1) = ch CHR ''u'' then escape_u (adv 2 r) out
      else Inl (refuse (adv 2 r) ''bad_string'')) = Inl e"
    using assms(1) escape_cases(1) [OF True, of out] by simp
  show ?thesis
  proof (cases "rbuf r ! (rpos r + 1) = ch CHR ''u''")
    case True
    with e have "refused (adv 2 r) e" by (intro escape_u_refused) simp
    with m show ?thesis by (rule refused_moves)
  next
    case False
    with e have "e = refuse (adv 2 r) ''bad_string''" by simp
    with m show ?thesis by (simp add: refused_refuse)
  qed
next
  case False
  then have "e = refuse (adv 1 r) ''malformed''"
    using assms(1) by (simp add: escape_cases(2))
  then show ?thesis
    using assms(2) by (auto intro!: refused_refuse [OF moves_adv])
qed

lemma str_loop_refused: "str_loop r out = Inl e \<Longrightarrow> refused r e"
proof (induction r out rule: str_loop.induct)
  case (1 r out)
  show ?case
  proof (cases "rpos r < length (rbuf r)")
    case False
    then have "e = refuse r ''malformed''"
      using "1.prems" by (simp add: str_loop.simps [of r out])
    then show ?thesis by simp
  next
    case l: True
    then have adv: "moves 1 r (adv 1 r)" by (intro moves_adv) simp
    let ?c = "rbuf r ! rpos r"
    consider (closing) "e = refuse (adv 1 r) ''bad_string''" | (control) "e = refuse r ''bad_string''"
      | (esc) "?c = ch CHR 0x5C" "escape r out = Inl e"
      | (esc2) out1 r1 where "?c = ch CHR 0x5C" "escape r out = Inr (out1, r1)" "str_loop r1 out1 = Inl e"
      | (plain) "?c \<noteq> ch CHR 0x22" "?c \<noteq> ch CHR 0x5C" "\<not> ?c < 0x20" "str_loop (adv 1 r) (out @ [?c]) = Inl e"
      using "1.prems" l by (auto simp: str_loop.simps [of r out] Let_def split: if_splits sum.splits prod.splits)
    then show ?thesis
    proof cases
      case closing
      with adv show ?thesis by (simp add: refused_refuse)
    next
      case control
      then show ?thesis by simp
    next
      case esc
      with l show ?thesis by (blast intro: escape_refused)
    next
      case esc2
      then have "refused r1 e" using "1.IH"(1) [OF _ refl _ _ _ esc2(2) refl esc2(3)] l by simp
      with escape_moves [OF esc2(2)] show ?thesis by (rule refused_moves)
    next
      case plain
      then have "refused (adv 1 r) e" using "1.IH"(2) l by simp
      with adv show ?thesis by (rule refused_moves)
    qed
  qed
qed

lemma str_refused: "str r = Inl e \<Longrightarrow> refused r e"
proof -
  assume s: "str r = Inl e"
  show ?thesis
  proof (cases "at r = ch CHR 0x22")
    case True
    then have "moves 1 r (adv 1 r)" by (intro moves_adv1) simp
    moreover have "str_loop (adv 1 r) [] = Inl e" using s True by (simp add: str_def)
    ultimately show ?thesis by (blast intro: refused_moves str_loop_refused)
  next
    case False
    with s have "e = refuse r ''wrong_type''" by (simp add: str_def)
    then show ?thesis by simp
  qed
qed

lemma literal_refused: "literal r w = Inl e \<Longrightarrow> refused r e"
  by (auto simp: literal_def split: if_splits)

lemma boolean_refused: "boolean r = Inl e \<Longrightarrow> refused r e"
  by (auto simp: boolean_def dest: literal_refused split: if_splits sum.splits)

lemma int_loop_refused: "int_loop r u = Inl e \<Longrightarrow> refused r e"
proof (induction r u rule: int_loop.induct)
  case (1 r u)
  show ?case
  proof (cases "digit (at r) \<and> \<not> 922337203685477580 < u")
    case True
    then have "refused (adv 1 r) e" using 1 by (simp add: int_loop.simps [of r u])
    with moves_digit True show ?thesis by (blast intro: refused_moves)
  next
    case False
    with "1.prems" have "e = refuse r ''number_spelling''"
      by (simp add: int_loop.simps [of r u] split: if_splits)
    then show ?thesis by simp
  qed
qed

lemma integer_refused:
  assumes "integer r lo hi = Inl e"
  shows "refused r e"
proof -
  let ?m = "if at (sign r) = ch CHR ''0'' then Inr (0, adv 1 (sign r)) else int_loop (sign r) 0"
  consider (type) "e = refuse r ''wrong_type''" | (sign) "e = refuse (sign r) ''malformed''"
    | (digits) "?m = Inl e"
    | (finish) u r1 where "digit (at (sign r))" "?m = Inr (u, r1)" "int_finish (at r = ch CHR ''-'') lo hi u r1 = Inl e"
    using assms unfolding integer_eq by (cases ?m) (auto split: if_splits)
  then show ?thesis
  proof cases
    case type
    then show ?thesis by simp
  next
    case sign
    then show ?thesis by (simp add: refused_refuse [OF moves_sign])
  next
    case digits
    then have "int_loop (sign r) 0 = Inl e" by (simp split: if_splits)
    with moves_sign show ?thesis by (blast intro: refused_moves int_loop_refused)
  next
    case finish
    then have "e = refuse r1 ''number_spelling''"
      by (rule_tac int_finish_cases [of "at r = ch CHR ''-''" lo hi u r1]) simp_all
    then show ?thesis
      by (simp add: refused_refuse [OF moves_trans [OF moves_sign int_digits_moves [OF finish(1,2)]]])
  qed
qed

lemma someDigits_refused: "someDigits r = Inl e \<Longrightarrow> refused r e"
  by (auto simp: someDigits_def Let_def refused_refuse [OF moves_digits] split: if_splits)

lemma skipFraction_refused: "skipFraction r = Inl e \<Longrightarrow> refused r e"
  using refused_moves [OF moves_adv1 [of r] someDigits_refused]
  by (auto simp: skipFraction_def split: if_splits)

lemma skipExponent_refused:
  assumes "skipExponent r = Inl e"
  shows "refused r e"
proof -
  let ?r1 = "adv 1 r"
  let ?r2 = "if at ?r1 = ch CHR ''+'' \<or> at ?r1 = ch CHR ''-'' then adv 1 ?r1 else ?r1"
  have s: "at r = ch CHR ''e'' \<or> at r = ch CHR ''E''" "someDigits ?r2 = Inl e"
    using assms by (auto simp: skipExponent_def Let_def split: if_splits)
  then have "moves 1 r ?r1" by (intro moves_adv1) auto
  moreover have "moves 0 ?r1 ?r2"
    using moves_adv1 [of ?r1] by (auto elim: moves_weaken)
  ultimately show ?thesis
    using someDigits_refused [OF s(2)] by (blast intro: refused_moves)
qed

lemma skipInteger_refused: "skipInteger r = Inl e \<Longrightarrow> refused r e"
  by (auto simp: skipInteger_def Let_def split: if_splits)

lemma skipNumber_refused:
  assumes "skipNumber r = Inl e"
  shows "refused r e"
proof -
  consider "skipInteger (sign r) = Inl e"
    | r1 where "skipInteger (sign r) = Inr ((), r1)" "skipFraction r1 = Inl e"
    | r1 r2 where "skipInteger (sign r) = Inr ((), r1)" "skipFraction r1 = Inr ((), r2)" "skipExponent r2 = Inl e"
    using assms by (auto simp: skipNumber_def split: sum.splits prod.splits)
  then show ?thesis
  proof cases
    case 1
    then show ?thesis by (rule refused_moves [OF moves_sign skipInteger_refused])
  next
    case (2 r1)
    show ?thesis
      by (rule refused_moves [OF moves_trans [OF moves_sign skipInteger_moves [OF 2(1)]]
            skipFraction_refused [OF 2(2)]])
  next
    case (3 r1 r2)
    show ?thesis
      by (rule refused_moves [OF moves_trans [OF moves_trans [OF moves_sign skipInteger_moves [OF 3(1)]]
              skipFraction_moves [OF 3(2)]] skipExponent_refused [OF 3(3)]])
  qed
qed

end
