(* ===== verification/Objects.thy ===== *)
theory Objects
  imports Reader
begin

section \<open>Objects, maps and opaque values\<close>

text \<open>
  Models the loops of \<open>go/abstraction/config/rec.go\<close> over the members of an object: the skeleton
  every generated \<open>decode\<close> method repeats (\<open>decodeObject\<close>, \<open>decodeRecord\<close>, \<open>fieldOnce\<close>), \<open>strMap\<close>,
  \<open>rawMap\<close>, \<open>strList\<close>, and the validating skip over an opaque value (\<open>skipValue\<close>,
  \<open>skipContainer\<close>, \<open>rawValue\<close>).

  A loop of the code that scans members goes round only after it consumed input. The model's
  loops carry that as a variant check, whose failing branch is the refusal \<open>stuck\<close>, a word outside
  the declared vocabulary; the interface \<open>scanner\<close> (a step moves forward, and refuses only with
  declared words at an offset in the buffer) is what shows that the branch is never taken.
\<close>

definition unread :: "reader \<Rightarrow> nat" where
  "unread r = length (rbuf r) - rpos r"

definition stuck :: "reader \<Rightarrow> Refusal" where
  "stuck r = Refusal (lit ''stuck'') (rpos r)"

lemma stuck_undeclared: "Word (stuck r) \<notin> set refusals"
  by (simp add: stuck_def refusals_def)

subsection \<open>The member loop of an object\<close>

function objectLoop :: "(bytes \<Rightarrow> 's \<Rightarrow> reader \<Rightarrow> 's parsed) \<Rightarrow> 's \<Rightarrow> reader \<Rightarrow> 's parsed" where
  "objectLoop body s r =
     (let r1 = ws r in
      if at r1 \<noteq> ch CHR 0x22 then Inl (refuse r1 ''malformed'')
      else (case str r1 of Inl e \<Rightarrow> Inl e | Inr (key, r2) \<Rightarrow>
        (let r3 = ws r2 in
         if at r3 \<noteq> ch CHR '':'' then Inl (refuse r3 ''malformed'')
         else (case body key s (ws (adv 1 r3)) of Inl e \<Rightarrow> Inl e | Inr (s', r4) \<Rightarrow>
           (let r5 = ws r4 in
            if at r5 \<noteq> ch CHR '','' then Inr (s', r5)
            else if unread (adv 1 r5) < unread r then objectLoop body s' (adv 1 r5)
            else Inl (stuck r))))))"
  by pat_completeness auto
termination
  by (relation "measure (\<lambda>(body, s, r). unread r)") auto

declare objectLoop.simps [simp del]

definition decodeObject :: "(bytes \<Rightarrow> 's \<Rightarrow> reader \<Rightarrow> 's parsed) \<Rightarrow> 's \<Rightarrow> reader \<Rightarrow> 's parsed" where
  "decodeObject body s r =
     (if at r \<noteq> ch CHR ''{'' then Inl (refuse r ''wrong_type'')
      else (case enter r of Inl e \<Rightarrow> Inl e | Inr (_, r) \<Rightarrow>
        (let r = ws (adv 1 r) in
         case (if at r \<noteq> ch CHR ''}'' then objectLoop body s r else Inr (s, r)) of
           Inl e \<Rightarrow> Inl e
         | Inr (s, r) \<Rightarrow>
             if at r \<noteq> ch CHR ''}'' then Inl (refuse r ''malformed'')
             else Inr (s, leave (adv 1 r)))))"

text \<open>A record is an object whose state is the record so far and the bit set of fields seen.\<close>

definition decodeRecord ::
    "(bytes \<Rightarrow> 'v \<times> u32 \<Rightarrow> reader \<Rightarrow> ('v \<times> u32) parsed) \<Rightarrow> 'v \<Rightarrow> u32 \<Rightarrow> reader \<Rightarrow> 'v parsed" where
  "decodeRecord body v need r =
     (case decodeObject body (v, 0) r of Inl e \<Rightarrow> Inl e | Inr ((v, seen), r) \<Rightarrow>
      if seen AND need \<noteq> need then Inl (refuse r ''missing_field'') else Inr (v, r))"

text \<open>One \<open>case\<close> of a decoder's \<open>switch key\<close>: refuse a second occurrence, mark the field, scan its
  value and store it.\<close>

definition fieldOnce ::
    "u32 \<Rightarrow> (reader \<Rightarrow> 'a parsed) \<Rightarrow> ('a \<Rightarrow> 'v \<Rightarrow> 'v) \<Rightarrow> 'v \<times> u32 \<Rightarrow> reader \<Rightarrow> ('v \<times> u32) parsed" where
  "fieldOnce flag scan store s r =
     (case s of (v, seen) \<Rightarrow>
      if seen AND flag \<noteq> 0 then Inl (refuse r ''duplicate_field'')
      else (case scan r of Inl e \<Rightarrow> Inl e | Inr (x, r) \<Rightarrow> Inr ((store x v, seen OR flag), r)))"

subsection \<open>Maps and lists\<close>

definition strMap_member :: "bytes \<Rightarrow> bytes gomap \<Rightarrow> reader \<Rightarrow> bytes gomap parsed" where
  "strMap_member k m r = (case str r of Inl e \<Rightarrow> Inl e | Inr (v, r) \<Rightarrow> Inr (fmupd k v m, r))"

definition strMap :: "reader \<Rightarrow> bytes gomap parsed" where
  "strMap r = decodeObject strMap_member fmempty r"

function strList_loop :: "bytes list \<Rightarrow> reader \<Rightarrow> bytes list parsed" where
  "strList_loop out r =
     (case str (ws r) of Inl e \<Rightarrow> Inl e | Inr (s, r1) \<Rightarrow>
      (let r2 = ws r1 in
       if at r2 \<noteq> ch CHR '','' then Inr (out @ [s], r2)
       else if unread (adv 1 r2) < unread r then strList_loop (out @ [s]) (adv 1 r2)
       else Inl (stuck r)))"
  by pat_completeness auto
termination
  by (relation "measure (\<lambda>(out, r). unread r)") auto

declare strList_loop.simps [simp del]

definition strList :: "reader \<Rightarrow> bytes list parsed" where
  "strList r =
     (if at r \<noteq> ch CHR ''['' then Inl (refuse r ''wrong_type'')
      else (case enter r of Inl e \<Rightarrow> Inl e | Inr (_, r) \<Rightarrow>
        (let r = ws (adv 1 r) in
         case (if at r \<noteq> ch CHR '']'' then strList_loop [] r else Inr ([], r)) of
           Inl e \<Rightarrow> Inl e
         | Inr (out, r) \<Rightarrow>
             if at r \<noteq> ch CHR '']'' then Inl (refuse r ''malformed'')
             else Inr (out, leave (adv 1 r)))))"

subsection \<open>Opaque values\<close>

definition skipString :: "reader \<Rightarrow> unit parsed" where
  "skipString r = (case str r of Inl e \<Rightarrow> Inl e | Inr (_, r) \<Rightarrow> Inr ((), r))"

text \<open>The name and colon of a member, as \<open>skipContainer\<close> reads them inside an object.\<close>

definition skipKey :: "reader \<Rightarrow> unit parsed" where
  "skipKey r =
     (if at r \<noteq> ch CHR 0x22 then Inl (refuse r ''malformed'')
      else (case str r of Inl e \<Rightarrow> Inl e | Inr (_, r) \<Rightarrow>
        (let r = ws r in
         if at r \<noteq> ch CHR '':'' then Inl (refuse r ''malformed'') else Inr ((), ws (adv 1 r)))))"

lemma skipKey_moves: "skipKey r = Inr (x, r') \<Longrightarrow> moves 1 r r'"
proof -
  assume s: "skipKey r = Inr (x, r')"
  then obtain k r1 where k: "str r = Inr (k, r1)" and c: "at (ws r1) = ch CHR '':''"
    and r': "r' = ws (adv 1 (ws r1))"
    by (auto simp: skipKey_def Let_def split: if_splits sum.splits prod.splits)
  have a: "moves 1 (ws r1) (adv 1 (ws r1))" using c by (intro moves_adv1) simp
  note moves_trans [OF moves_trans [OF moves_trans [OF str_moves [OF k] moves_ws] a] moves_ws]
  then show ?thesis unfolding r' by (rule moves_weaken) simp
qed

lemma moves_unread: "moves n r r' \<Longrightarrow> unread r' \<le> unread r"
  by (auto simp: moves_def unread_def)

text \<open>
  \<open>skipItems\<close> is the loop of \<open>skipContainer\<close>. Indexing \<open>r.buf[r.pos]\<close> past the end would panic in
  Go; \<open>skipContainer\<close> is only called at a bracket, so that branch is not taken either.
\<close>

function skipValue :: "reader \<Rightarrow> unit parsed"
  and skipContainer :: "reader \<Rightarrow> unit parsed"
  and skipItems :: "byte \<Rightarrow> reader \<Rightarrow> unit parsed" where
  "skipValue r =
     (let c = at r in
      if c = ch CHR 0x22 then skipString r
      else if c = ch CHR ''{'' \<or> c = ch CHR ''['' then skipContainer r
      else if c = ch CHR ''t'' then literal r ''true''
      else if c = ch CHR ''f'' then literal r ''false''
      else if c = ch CHR ''n'' then literal r ''null''
      else if c = ch CHR ''-'' \<or> (ch CHR ''0'' \<le> c \<and> c \<le> ch CHR ''9'') then skipNumber r
      else Inl (refuse r ''malformed''))"
| "skipContainer r =
     (if length (rbuf r) \<le> rpos r then Inl (stuck r)
      else (let brace = rbuf r ! rpos r;
                shut = (if brace = ch CHR ''['' then ch CHR '']'' else ch CHR ''}'') in
        case enter r of Inl e \<Rightarrow> Inl e | Inr (_, r1) \<Rightarrow>
        (let r2 = ws (adv 1 r1) in
         case (if at r2 \<noteq> shut then skipItems brace r2 else Inr ((), r2)) of
           Inl e \<Rightarrow> Inl e
         | Inr (_, r3) \<Rightarrow>
             if at r3 \<noteq> shut then Inl (refuse r3 ''malformed'')
             else Inr ((), leave (adv 1 r3)))))"
| "skipItems brace r =
     (let r1 = ws r in
      case (if brace = ch CHR ''{'' then skipKey r1 else Inr ((), r1)) of
        Inl e \<Rightarrow> Inl e
      | Inr (_, r2) \<Rightarrow>
          (case skipValue r2 of Inl e \<Rightarrow> Inl e | Inr (_, r3) \<Rightarrow>
            (let r4 = ws r3 in
             if at r4 \<noteq> ch CHR '','' then Inr ((), r4)
             else if unread (adv 1 r4) < unread r then skipItems brace (adv 1 r4)
             else Inl (stuck r))))"
  by pat_completeness auto

lemma enter_Inr: "enter r = Inr (x, r1) \<Longrightarrow> rbuf r1 = rbuf r \<and> rpos r1 = rpos r \<and> rdepth r1 = rdepth r + 1"
  by (auto simp: enter_def Let_def split: if_splits)

lemma unread_ws: "unread (ws r) \<le> unread r"
  by (rule moves_unread [OF moves_ws])

termination skipValue
proof (relation "measures
    [\<lambda>x. case x of Inl r \<Rightarrow> unread r | Inr (Inl r) \<Rightarrow> unread r | Inr (Inr (c, r)) \<Rightarrow> unread r,
     \<lambda>x. case x of Inl r \<Rightarrow> 1 | Inr (Inl r) \<Rightarrow> 0 | Inr (Inr (c, r)) \<Rightarrow> 2]", goal_cases)
  case (3 r brace shut x u r1 r2)
  then have "unread (adv 1 r1) < unread r" by (auto dest!: enter_Inr simp: unread_def)
  with 3 show ?case using unread_ws [of "adv 1 r1"] by simp
next
  case (4 brace r r1 x u r2)
  have "moves 0 r1 r2"
    using 4(2,3) by (auto dest: skipKey_moves elim: moves_weaken split: if_splits)
  then have "unread r2 \<le> unread r1" by (rule moves_unread)
  also have "\<dots> \<le> unread r" using 4(1) unread_ws by simp
  finally show ?case by (auto simp: le_less)
qed auto

declare skipValue.simps [simp del] skipContainer.simps [simp del] skipItems.simps [simp del]

definition rawValue :: "reader \<Rightarrow> bytes parsed" where
  "rawValue r =
     (case skipValue r of Inl e \<Rightarrow> Inl e
      | Inr (_, r') \<Rightarrow> Inr (take (rpos r' - rpos r) (drop (rpos r) (rbuf r)), r'))"

definition rawMap_member :: "bytes \<Rightarrow> bytes gomap \<Rightarrow> reader \<Rightarrow> bytes gomap parsed" where
  "rawMap_member k m r = (case rawValue r of Inl e \<Rightarrow> Inl e | Inr (v, r) \<Rightarrow> Inr (fmupd k v m, r))"

definition rawMap :: "reader \<Rightarrow> bytes gomap parsed" where
  "rawMap r = decodeObject rawMap_member fmempty r"

end
