(* ===== verification/Scanner.thy ===== *)
theory Scanner
  imports Objects
begin

section \<open>The contract of a scanning step\<close>

text \<open>
  Every scanning method of the reader is relied on by its caller for two laws: when it succeeds it
  moved forward inside the same buffer and restored the depth, and when it refuses it does so with a
  word of the declared vocabulary at an offset between its start and the end of the buffer.
  The locale \<open>scanner\<close> states them; \<open>member_scanner\<close> states them for the body of an object loop
  and gives the scanner of the whole object, so that each record decoder of \<open>rec.go\<close> is covered by
  one interpretation. In particular the variant checks of the loops never refuse.
\<close>

locale scanner =
  fixes scan :: "reader \<Rightarrow> 'a parsed"
  assumes forward: "scan r = Inr (x, r') \<Longrightarrow> moves 1 r r'"
    and declared: "scan r = Inl e \<Longrightarrow> refused r e"
begin

lemma outcome:
  "case scan r of Inl e \<Rightarrow> refused r e | Inr (x, r') \<Rightarrow> moves 1 r r'"
  by (auto dest: forward declared split: sum.split)

lemma not_stuck: "scan r = Inl e \<Longrightarrow> e \<noteq> stuck r'"
  using stuck_undeclared [of r'] by (auto dest!: declared simp: refused_def)

text \<open>Storing the result leaves the laws.\<close>

lemma store_forward:
  "(case scan r of Inl e \<Rightarrow> Inl e | Inr (x, r) \<Rightarrow> Inr (f x, r)) = Inr (y, r') \<Longrightarrow> moves 0 r r'"
  by (auto dest!: forward elim: moves_weaken split: sum.splits)

lemma store_declared:
  "(case scan r of Inl e \<Rightarrow> Inl e | Inr (x, r) \<Rightarrow> Inr (f x, r)) = Inl e \<Longrightarrow> refused r e"
  by (auto dest!: declared split: sum.splits)

lemma field_forward: "fieldOnce flag scan store s r = Inr (s', r') \<Longrightarrow> moves 0 r r'"
  by (cases s) (auto simp: fieldOnce_def dest!: forward elim: moves_weaken split: if_splits sum.splits)

lemma field_declared: "fieldOnce flag scan store s r = Inl e \<Longrightarrow> refused r e"
  by (cases s) (auto simp: fieldOnce_def dest!: declared split: if_splits sum.splits)

end

lemma scannerI:
  assumes "\<And>r. case scan r of Inl e \<Rightarrow> refused r e | Inr (x, r') \<Rightarrow> moves 1 r r'"
  shows "scanner scan"
proof
  show "scan r = Inr (x, r') \<Longrightarrow> moves 1 r r'" "scan r = Inl e \<Longrightarrow> refused r e" for r x r' e
    using assms [of r] by simp_all
qed

subsection \<open>Brackets\<close>

lemma moves_at: "at r = c \<Longrightarrow> c \<noteq> 0 \<Longrightarrow> moves 1 r (adv 1 r)"
  by (rule moves_adv1) simp

lemma enter_refused: "enter r = Inl e \<Longrightarrow> refused r e"
  by (auto simp: enter_def Let_def refused_def refuse_def refusals_def split: if_splits)

lemma enter_leave: "enter r = Inr (x, r1) \<Longrightarrow> moves n r1 r2 \<Longrightarrow> moves n r (leave r2)"
  by (auto dest!: enter_Inr simp: moves_def leave_def)

lemma enter_refused_inside: "enter r = Inr (x, r1) \<Longrightarrow> refused r1 e \<Longrightarrow> refused r e"
  by (auto dest!: enter_Inr simp: refused_def)

lemma enter_at: "enter r = Inr (x, r1) \<Longrightarrow> at r1 = at r"
  by (auto dest!: enter_Inr simp: at_def)

lemma moves_progress: "moves n r r' \<Longrightarrow> at r' \<noteq> 0 \<Longrightarrow> unread (adv 1 r') < unread r"
  by (auto simp: moves_def unread_def at_def split: if_splits)

text \<open>The brackets around the members, with what comes between them as a step \<open>inside\<close>.\<close>

definition bracketed ::
    "byte \<Rightarrow> 's \<Rightarrow> (reader \<Rightarrow> 's parsed) \<Rightarrow> reader \<Rightarrow> 's parsed" where
  "bracketed shut s inside r =
     (case enter r of Inl e \<Rightarrow> Inl e | Inr (_, r) \<Rightarrow>
        (let r = ws (adv 1 r) in
         case (if at r \<noteq> shut then inside r else Inr (s, r)) of
           Inl e \<Rightarrow> Inl e
         | Inr (s, r) \<Rightarrow> if at r \<noteq> shut then Inl (refuse r ''malformed'') else Inr (s, leave (adv 1 r))))"

lemma bracketed_laws:
  assumes "at r = c" "c \<noteq> 0" "shut \<noteq> 0"
    and inside: "\<And>r1. enter r = Inr ((), r1) \<Longrightarrow> at (ws (adv 1 r1)) \<noteq> shut \<Longrightarrow>
      (case inside (ws (adv 1 r1)) of Inl e \<Rightarrow> refused (ws (adv 1 r1)) e
       | Inr (s, r') \<Rightarrow> moves 0 (ws (adv 1 r1)) r')"
  shows "bracketed shut s inside r = Inr (x, r') \<Longrightarrow> moves 2 r r'"
    and "bracketed shut s inside r = Inl e \<Longrightarrow> refused r e"
proof -
  let ?in = "\<lambda>r. if at r \<noteq> shut then inside r else Inr (s, r)"
  have in_moves: "moves 0 (ws (adv 1 r1)) r2"
    if "enter r = Inr ((), r1)" "?in (ws (adv 1 r1)) = Inr (y, r2)" for r1 y r2
    using that inside [of r1] by (auto split: if_splits)
  have enter_moves: "moves 1 r1 (ws (adv 1 r1))" if "enter r = Inr (u, r1)" for u r1
    using moves_trans [OF moves_at moves_ws, of r1 "at r"] enter_at [OF that] assms(1,2) by simp
  {
    assume "bracketed shut s inside r = Inr (x, r')"
    then obtain r1 r2 where 1: "enter r = Inr ((), r1)" and 2: "?in (ws (adv 1 r1)) = Inr (x, r2)"
      and 3: "at r2 = shut" and r': "r' = leave (adv 1 r2)"
      by (auto simp: bracketed_def Let_def split: sum.splits if_splits prod.splits)
    from moves_trans [OF moves_trans [OF enter_moves [OF 1] in_moves [OF 1 2]] moves_at [OF 3 assms(3)]]
    show "moves 2 r r'" unfolding r' by (intro enter_leave [OF 1]) (simp add: numeral_2_eq_2)
  next
    assume e: "bracketed shut s inside r = Inl e"
    show "refused r e"
    proof (cases "enter r")
      case (Inl e')
      with e show ?thesis by (simp add: bracketed_def enter_refused)
    next
      case (Inr ur)
      then obtain r1 where ent: "enter r = Inr ((), r1)" by (cases ur) simp
      consider "at (ws (adv 1 r1)) \<noteq> shut" "inside (ws (adv 1 r1)) = Inl e"
        | y r2 where "?in (ws (adv 1 r1)) = Inr (y, r2)" "e = refuse r2 ''malformed''"
        using e ent by (auto simp: bracketed_def Let_def split: sum.splits if_splits prod.splits)
      then have "refused r1 e"
      proof cases
        case 1
        from refused_moves [OF enter_moves [OF ent]] show ?thesis using 1 inside [OF ent] by simp
      next
        case 2
        from refused_refuse [OF moves_trans [OF enter_moves [OF ent] in_moves [OF ent 2(1)]]] 2(2)
        show ?thesis by simp
      qed
      with ent show ?thesis by (rule enter_refused_inside)
    qed
  }
qed

lemma bracketed_outcome:
  assumes "at r = c" "c \<noteq> 0" "shut \<noteq> 0"
    and "\<And>r1. enter r = Inr ((), r1) \<Longrightarrow> at (ws (adv 1 r1)) \<noteq> shut \<Longrightarrow>
      (case inside (ws (adv 1 r1)) of Inl e \<Rightarrow> refused (ws (adv 1 r1)) e
       | Inr (s, r') \<Rightarrow> moves 0 (ws (adv 1 r1)) r')"
  shows "case bracketed shut s inside r of Inl e \<Rightarrow> refused r e | Inr (x, r') \<Rightarrow> moves 1 r r'"
  using bracketed_laws [OF assms, of s]
  by (auto intro: moves_weaken [where m = 2] split: sum.split)

lemma decodeObject_bracketed:
  "decodeObject body s r =
     (if at r \<noteq> ch CHR ''{'' then Inl (refuse r ''wrong_type'')
      else bracketed (ch CHR ''}'') s (objectLoop body s) r)"
  by (simp only: decodeObject_def bracketed_def Let_def)

lemma strList_bracketed:
  "strList r =
     (if at r \<noteq> ch CHR ''['' then Inl (refuse r ''wrong_type'')
      else bracketed (ch CHR '']'') [] (strList_loop []) r)"
  by (simp only: strList_def bracketed_def Let_def)

lemma skipContainer_bracketed:
  "rpos r < length (rbuf r) \<Longrightarrow> skipContainer r =
     bracketed (if at r = ch CHR ''['' then ch CHR '']'' else ch CHR ''}'') () (skipItems (at r)) r"
  by (simp only: skipContainer.simps [of r] bracketed_def Let_def at_def [of r] not_le [symmetric]
      if_True if_False simp_thms)
    (simp split: sum.split prod.split)

subsection \<open>The member loop\<close>

lemma name_moves:
  assumes "str (ws r) = Inr (k, r2)"
  shows "moves 2 r (ws r2)"
  using moves_trans [OF moves_trans [OF moves_ws str_moves [OF assms]] moves_ws] by (simp add: numeral_2_eq_2)

lemma colon_moves:
  assumes "str (ws r) = Inr (k, r2)" and "at (ws r2) = ch CHR '':''"
  shows "moves 3 r (ws (adv 1 (ws r2)))"
  using moves_trans [OF moves_trans [OF name_moves [OF assms(1)] moves_at [OF assms(2)]] moves_ws] by simp

locale member_scanner =
  fixes body :: "bytes \<Rightarrow> 's \<Rightarrow> reader \<Rightarrow> 's parsed"
  assumes body_forward: "body k s r = Inr (s', r') \<Longrightarrow> moves 0 r r'"
    and body_declared: "body k s r = Inl e \<Longrightarrow> refused r e"
begin

lemma objectLoop_laws:
  "case objectLoop body s r of Inl e \<Rightarrow> refused r e | Inr (x, r') \<Rightarrow> moves 0 r r'"
proof (induction "unread r" arbitrary: s r rule: less_induct)
  case less
  note unfold = objectLoop.simps [of body s r]
  show ?case
  proof (cases "str (ws r)")
    case (Inl e)
    then show ?thesis
      using refused_refuse [OF moves_ws [of r]] refused_moves [OF moves_ws [of r] str_refused]
      by (simp add: unfold Let_def)
  next
    case (Inr kr)
    then obtain k r2 where name: "str (ws r) = Inr (k, r2)" by (cases kr) simp
    show ?thesis
    proof (cases "at (ws r) = ch CHR 0x22 \<and> at (ws r2) = ch CHR '':''")
      case False
      then show ?thesis
        using refused_refuse [OF moves_ws [of r]] refused_refuse [OF name_moves [OF name]] name
        by (auto simp: unfold Let_def)
    next
      case True
      then have m3: "moves 3 r (ws (adv 1 (ws r2)))" by (intro colon_moves [OF name]) simp
      show ?thesis
      proof (cases "body k s (ws (adv 1 (ws r2)))")
        case (Inl e)
        with True name refused_moves [OF m3 body_declared [OF Inl]] show ?thesis
          by (simp add: unfold Let_def)
      next
        case (Inr sr)
        then obtain s' r4 where b: "body k s (ws (adv 1 (ws r2))) = Inr (s', r4)" by (cases sr) simp
        from moves_trans [OF moves_trans [OF m3 body_forward [OF b]] moves_ws]
        have m5: "moves 3 r (ws r4)" by simp
        show ?thesis
        proof (cases "at (ws r4) = ch CHR '',''")
          case False
          with True name b moves_weaken [OF m5] show ?thesis by (simp add: unfold Let_def)
        next
          case comma: True
          then have "unread (adv 1 (ws r4)) < unread r" by (intro moves_progress [OF m5]) simp
          moreover from moves_trans [OF m5 moves_at [OF comma]]
          have "moves 0 r (adv 1 (ws r4))" by (simp add: moves_weaken)
          ultimately show ?thesis
            using True name b comma less.hyps [of "adv 1 (ws r4)" s']
            by (auto simp: unfold Let_def dest: refused_moves moves_trans split: sum.splits)
        qed
      qed
    qed
  qed
qed

lemma objectLoop_forward: "objectLoop body s r = Inr (x, r') \<Longrightarrow> moves 0 r r'"
  using objectLoop_laws [where s = s and r = r] by simp

lemma objectLoop_declared: "objectLoop body s r = Inl e \<Longrightarrow> refused r e"
  using objectLoop_laws [where s = s and r = r] by simp

lemma object_forward: "decodeObject body s r = Inr (x, r') \<Longrightarrow> moves 2 r r'"
proof -
  assume "decodeObject body s r = Inr (x, r')"
  then have "at r = ch CHR ''{''" "bracketed (ch CHR ''}'') s (objectLoop body s) r = Inr (x, r')"
    unfolding decodeObject_bracketed by (simp_all only: split: if_splits) simp_all
  from bracketed_laws(1) [OF this(1) _ _ objectLoop_laws this(2)] show ?thesis by simp
qed

lemma object_declared: "decodeObject body s r = Inl e \<Longrightarrow> refused r e"
proof (cases "at r = ch CHR ''{''")
  case True
  assume "decodeObject body s r = Inl e"
  with True have "bracketed (ch CHR ''}'') s (objectLoop body s) r = Inl e"
    by (simp only: decodeObject_bracketed simp_thms if_False)
  from bracketed_laws(2) [OF True _ _ objectLoop_laws this] show ?thesis by simp
qed (auto simp: decodeObject_bracketed)

end

sublocale member_scanner \<subseteq> object: scanner "decodeObject body s" for s
  by unfold_locales (auto intro: moves_weaken dest: object_forward object_declared)

locale record_scanner = member_scanner body for body :: "bytes \<Rightarrow> 'v \<times> u32 \<Rightarrow> reader \<Rightarrow> ('v \<times> u32) parsed"
begin

lemma record_forward: "decodeRecord body v need r = Inr (x, r') \<Longrightarrow> moves 1 r r'"
  by (auto simp: decodeRecord_def dest!: object.forward split: sum.splits if_splits)

lemma record_declared: "decodeRecord body v need r = Inl e \<Longrightarrow> refused r e"
  by (auto simp: decodeRecord_def dest!: object.forward object.declared
      simp: refused_refuse [where n = "Suc 0"] split: sum.splits if_splits)

end

sublocale record_scanner \<subseteq> scan_record: scanner "decodeRecord body v need" for v need
  by unfold_locales (fact record_forward record_declared)+

subsection \<open>The scanning methods keep the contract\<close>

interpretation str_scan: scanner str
  by unfold_locales (auto intro: moves_weaken [OF str_moves] str_refused)

interpretation boolean_scan: scanner boolean
  by unfold_locales (fact boolean_moves boolean_refused)+

interpretation integer_scan: scanner "\<lambda>r. integer r lo hi"
  by unfold_locales (fact integer_moves integer_refused)+

interpretation skipNumber_scan: scanner skipNumber
  by unfold_locales (fact skipNumber_moves skipNumber_refused)+

interpretation skipString_scan: scanner skipString
  by unfold_locales (auto simp: skipString_def dest: str_scan.forward str_scan.declared split: sum.splits)

interpretation strMap_body: member_scanner strMap_member
  by unfold_locales (auto simp: strMap_member_def intro: str_scan.store_forward str_scan.store_declared)

interpretation strMap_scan: scanner strMap
  unfolding strMap_def by (rule strMap_body.object.scanner_axioms)

lemma strList_loop_laws:
  "case strList_loop out r of Inl e \<Rightarrow> refused r e | Inr (x, r') \<Rightarrow> moves 0 r r'"
proof (induction out r rule: strList_loop.induct)
  case (1 out r)
  note unfold = strList_loop.simps [of out r]
  show ?case
  proof (cases "str (ws r)")
    case (Inl e)
    then show ?thesis
      using refused_moves [OF moves_ws [of r] str_refused] by (simp add: unfold)
  next
    case (Inr sr)
    then obtain s r1 where s: "str (ws r) = Inr (s, r1)" by (cases sr) simp
    note m = name_moves [OF s]
    show ?thesis
    proof (cases "at (ws r1) = ch CHR '',''")
      case False
      with s moves_weaken [OF m] show ?thesis by (simp add: unfold Let_def)
    next
      case True
      have u: "unread (adv 1 (ws r1)) < unread r" using True by (intro moves_progress [OF m]) simp
      have "moves 0 r (adv 1 (ws r1))"
        using moves_trans [OF m moves_at [OF True]] by (simp add: moves_weaken)
      moreover have "case strList_loop (out @ [s]) (adv 1 (ws r1)) of
          Inl e \<Rightarrow> refused (adv 1 (ws r1)) e | Inr (x, r') \<Rightarrow> moves 0 (adv 1 (ws r1)) r'"
        using "1.IH" [OF s refl refl] True u by simp
      ultimately show ?thesis
        using s True u by (auto simp: unfold Let_def dest: refused_moves moves_trans split: sum.splits)
    qed
  qed
qed

interpretation strList_scan: scanner strList
proof (rule scannerI)
  show "case strList r of Inl e \<Rightarrow> refused r e | Inr (x, r') \<Rightarrow> moves 1 r r'" for r
    using bracketed_outcome [of r "ch CHR ''[''" "ch CHR '']''" "strList_loop []",
        OF _ _ _ strList_loop_laws [where out = "[]"], of "[]"]
    by (simp add: strList_bracketed)
qed

subsection \<open>Opaque values keep the contract\<close>

lemma skipKey_refused: "skipKey (ws r) = Inl e \<Longrightarrow> refused r e"
proof -
  assume e: "skipKey (ws r) = Inl e"
  show ?thesis
  proof (cases "str (ws r)")
    case (Inl e')
    then show ?thesis
      using e refused_refuse [OF moves_ws [of r]] refused_moves [OF moves_ws [of r] str_refused]
      by (auto simp: skipKey_def split: if_splits)
  next
    case (Inr kr)
    then obtain k r2 where name: "str (ws r) = Inr (k, r2)" by (cases kr) simp
    then show ?thesis
      using e refused_refuse [OF moves_ws [of r]] refused_refuse [OF name_moves [OF name]]
      by (auto simp: skipKey_def Let_def split: if_splits)
  qed
qed

text \<open>One turn of the loop over the items, given what the value and the rest of the loop do.\<close>

lemma skipItems_turn:
  fixes c r
  defines "key \<equiv> (if c = ch CHR ''{'' then skipKey (ws r) else Inr ((), ws r))"
  assumes val: "\<And>r2. key = Inr ((), r2) \<Longrightarrow> case skipValue r2 of Inl e \<Rightarrow> refused r2 e | Inr (x, r') \<Rightarrow> moves 1 r2 r'"
    and items: "\<And>r2 r3. key = Inr ((), r2) \<Longrightarrow> skipValue r2 = Inr ((), r3) \<Longrightarrow> at (ws r3) = ch CHR '','' \<Longrightarrow>
      unread (adv 1 (ws r3)) < unread r \<Longrightarrow> case skipItems c (adv 1 (ws r3)) of
        Inl e \<Rightarrow> refused (adv 1 (ws r3)) e | Inr (x, r') \<Rightarrow> moves 0 (adv 1 (ws r3)) r'"
  shows "case skipItems c r of Inl e \<Rightarrow> refused r e | Inr (x, r') \<Rightarrow> moves 0 r r'"
proof -
  note unfold = skipItems.simps [of c r, unfolded Let_def, folded key_def]
  show ?thesis
  proof (cases key)
    case (Inl e)
    then have "refused r e" by (auto simp: key_def intro: skipKey_refused split: if_splits)
    with Inl show ?thesis by (simp only: unfold Let_def sum.case)
  next
    case (Inr ur)
    then obtain r2 where key: "key = Inr ((), r2)" by (cases ur) simp
    then have "moves 0 (ws r) r2"
      by (auto simp: key_def dest: skipKey_moves elim: moves_weaken split: if_splits)
    from moves_trans [OF moves_ws this] have m2: "moves 0 r r2" by simp
    show ?thesis
    proof (cases "skipValue r2")
      case (Inl e)
      then have "refused r e" using val [OF key] by (auto intro: refused_moves [OF m2])
      with key Inl show ?thesis by (simp only: unfold Let_def sum.case prod.case)
    next
      case (Inr ur)
      then obtain r3 where v: "skipValue r2 = Inr ((), r3)" by (cases ur) simp
      with val [OF key] have "moves 1 r2 r3" by simp
      from moves_trans [OF moves_trans [OF m2 this] moves_ws] have m: "moves 1 r (ws r3)" by simp
      show ?thesis
      proof (cases "at (ws r3) = ch CHR '',''")
        case False
        have "skipItems c r = Inr ((), ws r3)"
          unfolding unfold Let_def key v sum.case prod.case using False by simp
        with m show ?thesis by (simp add: moves_weaken)
      next
        case True
        have u: "unread (adv 1 (ws r3)) < unread r" using True by (intro moves_progress [OF m]) simp
        have m': "moves 0 r (adv 1 (ws r3))"
          using moves_trans [OF m moves_at [OF True]] by (simp add: moves_weaken)
        have "skipItems c r = skipItems c (adv 1 (ws r3))"
          unfolding unfold Let_def key v sum.case prod.case using True u by simp
        moreover have "case skipItems c (adv 1 (ws r3)) of
            Inl e \<Rightarrow> refused (adv 1 (ws r3)) e | Inr (x, r') \<Rightarrow> moves 0 (adv 1 (ws r3)) r'"
          using items [OF key v True u] .
        ultimately show ?thesis
          using m' by (auto dest: refused_moves moves_trans split: sum.splits)
      qed
    qed
  qed
qed

lemma skip_laws:
  "case skipValue r of Inl e \<Rightarrow> refused r e | Inr (x, r') \<Rightarrow> moves 1 r r'"
  "rpos r < length (rbuf r) \<longrightarrow> rbuf r ! rpos r \<noteq> 0 \<longrightarrow>
    (case skipContainer r of Inl e \<Rightarrow> refused r e | Inr (x, r') \<Rightarrow> moves 1 r r')"
  "case skipItems c r of Inl e \<Rightarrow> refused r e | Inr (x, r') \<Rightarrow> moves 0 r r'"
proof (induction r and r and c r rule: skipValue_skipContainer_skipItems.induct)
  case (1 r)
  have lit: "case literal r w of Inl e \<Rightarrow> refused r e | Inr (x, r') \<Rightarrow> moves 1 r r'" if "w \<noteq> []" for w
    using that by (cases w) (auto dest: literal_refused intro: moves_weaken [OF literal_moves] split: sum.split)
  have "at r \<noteq> 0 \<Longrightarrow> rpos r < length (rbuf r) \<and> rbuf r ! rpos r \<noteq> 0"
    by (auto simp: at_def split: if_splits)
  then show ?case
    using 1 lit skipString_scan.outcome [of r] skipNumber_scan.outcome [of r]
    by (simp add: skipValue.simps [of r] Let_def)
next
  case (2 r)
  show ?case
  proof (intro impI)
    assume r: "rpos r < length (rbuf r)" "rbuf r ! rpos r \<noteq> 0"
    let ?c = "rbuf r ! rpos r"
    let ?shut = "if ?c = ch CHR ''['' then ch CHR '']'' else ch CHR ''}''"
    have at: "at r = ?c" using r(1) by (simp add: at_def)
    have ih: "enter r = Inr ((), r1) \<Longrightarrow> at (ws (adv 1 r1)) \<noteq> ?shut \<Longrightarrow>
        (case skipItems ?c (ws (adv 1 r1)) of Inl e \<Rightarrow> refused (ws (adv 1 r1)) e
         | Inr (s, r') \<Rightarrow> moves 0 (ws (adv 1 r1)) r')" for r1
      using 2 [of ?c ?shut "((), r1)" "()" r1 "ws (adv 1 r1)"] r(1) by auto
    have "?shut \<noteq> 0" by simp
    note laws = bracketed_outcome [OF at r(2) this ih]
    show "case skipContainer r of Inl e \<Rightarrow> refused r e | Inr (x, r') \<Rightarrow> moves 1 r r'"
      unfolding skipContainer_bracketed [OF r(1)] at
      by (rule laws)
  qed
next
  case (3 c r)
  show ?case
  proof (rule skipItems_turn)
    fix r2 assume key: "(if c = ch CHR ''{'' then skipKey (ws r) else Inr ((), ws r)) = Inr ((), r2)"
    note ih = "3.IH" [OF refl key refl]
    show "case skipValue r2 of Inl e \<Rightarrow> refused r2 e | Inr (x, r') \<Rightarrow> moves 1 r2 r'" by (rule ih(1))
    fix r3 assume "skipValue r2 = Inr ((), r3)" "at (ws r3) = ch CHR '',''" "unread (adv 1 (ws r3)) < unread r"
    with ih(2) [OF this(1) refl refl] show "case skipItems c (adv 1 (ws r3)) of
        Inl e \<Rightarrow> refused (adv 1 (ws r3)) e | Inr (x, r') \<Rightarrow> moves 0 (adv 1 (ws r3)) r'" by simp
  qed
qed

interpretation skipValue_scan: scanner skipValue
  by (rule scannerI) (rule skip_laws(1))

interpretation rawValue_scan: scanner rawValue
  by unfold_locales
    (auto simp: rawValue_def dest: skipValue_scan.forward skipValue_scan.declared split: sum.splits)

interpretation rawMap_body: member_scanner rawMap_member
  by unfold_locales (auto simp: rawMap_member_def intro: rawValue_scan.store_forward rawValue_scan.store_declared)

interpretation rawMap_scan: scanner rawMap
  unfolding rawMap_def by (rule rawMap_body.object.scanner_axioms)

end
