(* ===== verification/Wire.thy ===== *)
theory Wire
  imports Emit Scanner
begin

section \<open>Closed vocabularies, records and their encoders\<close>

text \<open>
  Models the declarations of \<open>go/abstraction/config/rec.go\<close>: the two closed vocabularies
  (\<open>UserReplaceOutcome\<close>, \<open>ConfigObservationOutcome\<close>, both \<open>uint32\<close> tags whose invalid values
  a Go program can hold), the records the service exchanges, and one encoder per record. A nil
  \<open>map[string]string\<close> is the empty map: no encoder or decoder tells them apart. An encoder that panics
  on an unknown outcome returns \<open>Inl\<close> of the panic's \<open>Refusal\<close>. Each record has the document
  \<open>json\<close> it stands for, and its encoder is shown to append that document's layout.
\<close>

subsection \<open>UserReplaceOutcome\<close>

type_synonym UserReplaceOutcome = u32

definition UserReplaceOutcomeApplied :: UserReplaceOutcome where "UserReplaceOutcomeApplied = 1"
definition UserReplaceOutcomeConflict :: UserReplaceOutcome where "UserReplaceOutcomeConflict = 2"
definition UserReplaceOutcomeForbidden :: UserReplaceOutcome where "UserReplaceOutcomeForbidden = 3"
definition UserReplaceOutcomeUnavailable :: UserReplaceOutcome where "UserReplaceOutcomeUnavailable = 4"

lemmas UserReplaceOutcome_tags =
  UserReplaceOutcomeApplied_def
  UserReplaceOutcomeConflict_def
  UserReplaceOutcomeForbidden_def
  UserReplaceOutcomeUnavailable_def

definition UserReplaceOutcome_WireName :: "UserReplaceOutcome \<Rightarrow> bytes \<times> bool" where
  "UserReplaceOutcome_WireName v =
     (if v = UserReplaceOutcomeApplied then (lit ''applied'', True)
      else if v = UserReplaceOutcomeConflict then (lit ''conflict'', True)
      else if v = UserReplaceOutcomeForbidden then (lit ''forbidden'', True)
      else if v = UserReplaceOutcomeUnavailable then (lit ''unavailable'', True)
      else ([], False))"

definition UserReplaceOutcome_String :: "UserReplaceOutcome \<Rightarrow> bytes" where
  "UserReplaceOutcome_String v = (let (word, _) = UserReplaceOutcome_WireName v in word)"

definition ParseUserReplaceOutcome :: "bytes \<Rightarrow> UserReplaceOutcome \<times> bool" where
  "ParseUserReplaceOutcome word =
     (if word = lit ''applied'' then (UserReplaceOutcomeApplied, True)
      else if word = lit ''conflict'' then (UserReplaceOutcomeConflict, True)
      else if word = lit ''forbidden'' then (UserReplaceOutcomeForbidden, True)
      else if word = lit ''unavailable'' then (UserReplaceOutcomeUnavailable, True)
      else (0, False))"

definition UserReplaceOutcome_MarshalText :: "UserReplaceOutcome \<Rightarrow> Refusal + bytes" where
  "UserReplaceOutcome_MarshalText v =
     (let (word, ok) = UserReplaceOutcome_WireName v in
      if \<not> ok then Inl (Refusal (lit ''bad_enum'') 0) else Inr word)"

definition UserReplaceOutcome_UnmarshalText :: "bytes \<Rightarrow> Refusal + UserReplaceOutcome" where
  "UserReplaceOutcome_UnmarshalText text =
     (let (word, ok) = ParseUserReplaceOutcome text in
      if \<not> ok then Inl (Refusal (lit ''bad_enum'') 0) else Inr word)"

definition UserReplaceOutcome_MarshalJSON :: "UserReplaceOutcome \<Rightarrow> Refusal + bytes" where
  "UserReplaceOutcome_MarshalJSON v =
     (let (word, ok) = UserReplaceOutcome_WireName v in
      if \<not> ok then Inl (Refusal (lit ''bad_enum'') 0) else Inr (esc [] word))"

definition UserReplaceOutcome_UnmarshalJSON :: "bytes \<Rightarrow> Refusal + UserReplaceOutcome" where
  "UserReplaceOutcome_UnmarshalJSON data =
     (let r = ws \<lparr>rbuf = data, rpos = 0, rdepth = 0\<rparr> in
      case str r of Inl e \<Rightarrow> Inl e | Inr (word, r) \<Rightarrow>
        (let r = ws r in
         if rpos r \<noteq> length (rbuf r) then Inl (refuse r ''trailing_bytes'')
         else (let (parsed, ok) = ParseUserReplaceOutcome word in
           if \<not> ok then Inl (refuse r ''bad_enum'') else Inr parsed)))"

definition UserReplaceOutcomeValues :: "UserReplaceOutcome list" where
  "UserReplaceOutcomeValues =
     [UserReplaceOutcomeApplied,
      UserReplaceOutcomeConflict,
      UserReplaceOutcomeForbidden,
      UserReplaceOutcomeUnavailable]"

definition UserReplaceOutcome_Known :: "UserReplaceOutcome \<Rightarrow> bool" where
  "UserReplaceOutcome_Known v = (let (_, ok) = UserReplaceOutcome_WireName v in ok)"

lemma UserReplaceOutcome_Known_iff: "UserReplaceOutcome_Known v \<longleftrightarrow> v \<in> set UserReplaceOutcomeValues"
  by (simp add: UserReplaceOutcome_Known_def UserReplaceOutcome_WireName_def UserReplaceOutcomeValues_def)

lemma UserReplaceOutcome_Parse_String:
  "ParseUserReplaceOutcome (UserReplaceOutcome_String v) = (if UserReplaceOutcome_Known v then (v, True) else (0, False))"
  by (simp add: ParseUserReplaceOutcome_def UserReplaceOutcome_String_def UserReplaceOutcome_Known_def
      UserReplaceOutcome_WireName_def)

lemma UserReplaceOutcome_Parse_Known: "ParseUserReplaceOutcome w = (v, True) \<Longrightarrow> UserReplaceOutcome_Known v"
  by (auto simp: ParseUserReplaceOutcome_def UserReplaceOutcome_Known_iff UserReplaceOutcomeValues_def
      split: if_splits)

subsection \<open>ConfigObservationOutcome\<close>

type_synonym ConfigObservationOutcome = u32

definition ConfigObservationOutcomeSnapshot :: ConfigObservationOutcome where "ConfigObservationOutcomeSnapshot = 1"
definition ConfigObservationOutcomeUnchanged :: ConfigObservationOutcome where "ConfigObservationOutcomeUnchanged = 2"
definition ConfigObservationOutcomeGap :: ConfigObservationOutcome where "ConfigObservationOutcomeGap = 3"
definition ConfigObservationOutcomeUnavailable :: ConfigObservationOutcome where "ConfigObservationOutcomeUnavailable = 4"
definition ConfigObservationOutcomeUnsupported :: ConfigObservationOutcome where "ConfigObservationOutcomeUnsupported = 5"
definition ConfigObservationOutcomeInvalid :: ConfigObservationOutcome where "ConfigObservationOutcomeInvalid = 6"

lemmas ConfigObservationOutcome_tags =
  ConfigObservationOutcomeSnapshot_def
  ConfigObservationOutcomeUnchanged_def
  ConfigObservationOutcomeGap_def
  ConfigObservationOutcomeUnavailable_def
  ConfigObservationOutcomeUnsupported_def
  ConfigObservationOutcomeInvalid_def

definition ConfigObservationOutcome_WireName :: "ConfigObservationOutcome \<Rightarrow> bytes \<times> bool" where
  "ConfigObservationOutcome_WireName v =
     (if v = ConfigObservationOutcomeSnapshot then (lit ''snapshot'', True)
      else if v = ConfigObservationOutcomeUnchanged then (lit ''unchanged'', True)
      else if v = ConfigObservationOutcomeGap then (lit ''gap'', True)
      else if v = ConfigObservationOutcomeUnavailable then (lit ''unavailable'', True)
      else if v = ConfigObservationOutcomeUnsupported then (lit ''unsupported'', True)
      else if v = ConfigObservationOutcomeInvalid then (lit ''invalid'', True)
      else ([], False))"

definition ConfigObservationOutcome_String :: "ConfigObservationOutcome \<Rightarrow> bytes" where
  "ConfigObservationOutcome_String v = (let (word, _) = ConfigObservationOutcome_WireName v in word)"

definition ParseConfigObservationOutcome :: "bytes \<Rightarrow> ConfigObservationOutcome \<times> bool" where
  "ParseConfigObservationOutcome word =
     (if word = lit ''snapshot'' then (ConfigObservationOutcomeSnapshot, True)
      else if word = lit ''unchanged'' then (ConfigObservationOutcomeUnchanged, True)
      else if word = lit ''gap'' then (ConfigObservationOutcomeGap, True)
      else if word = lit ''unavailable'' then (ConfigObservationOutcomeUnavailable, True)
      else if word = lit ''unsupported'' then (ConfigObservationOutcomeUnsupported, True)
      else if word = lit ''invalid'' then (ConfigObservationOutcomeInvalid, True)
      else (0, False))"

definition ConfigObservationOutcome_MarshalText :: "ConfigObservationOutcome \<Rightarrow> Refusal + bytes" where
  "ConfigObservationOutcome_MarshalText v =
     (let (word, ok) = ConfigObservationOutcome_WireName v in
      if \<not> ok then Inl (Refusal (lit ''bad_enum'') 0) else Inr word)"

definition ConfigObservationOutcome_UnmarshalText :: "bytes \<Rightarrow> Refusal + ConfigObservationOutcome" where
  "ConfigObservationOutcome_UnmarshalText text =
     (let (word, ok) = ParseConfigObservationOutcome text in
      if \<not> ok then Inl (Refusal (lit ''bad_enum'') 0) else Inr word)"

definition ConfigObservationOutcome_MarshalJSON :: "ConfigObservationOutcome \<Rightarrow> Refusal + bytes" where
  "ConfigObservationOutcome_MarshalJSON v =
     (let (word, ok) = ConfigObservationOutcome_WireName v in
      if \<not> ok then Inl (Refusal (lit ''bad_enum'') 0) else Inr (esc [] word))"

definition ConfigObservationOutcome_UnmarshalJSON :: "bytes \<Rightarrow> Refusal + ConfigObservationOutcome" where
  "ConfigObservationOutcome_UnmarshalJSON data =
     (let r = ws \<lparr>rbuf = data, rpos = 0, rdepth = 0\<rparr> in
      case str r of Inl e \<Rightarrow> Inl e | Inr (word, r) \<Rightarrow>
        (let r = ws r in
         if rpos r \<noteq> length (rbuf r) then Inl (refuse r ''trailing_bytes'')
         else (let (parsed, ok) = ParseConfigObservationOutcome word in
           if \<not> ok then Inl (refuse r ''bad_enum'') else Inr parsed)))"

definition ConfigObservationOutcomeValues :: "ConfigObservationOutcome list" where
  "ConfigObservationOutcomeValues =
     [ConfigObservationOutcomeSnapshot,
      ConfigObservationOutcomeUnchanged,
      ConfigObservationOutcomeGap,
      ConfigObservationOutcomeUnavailable,
      ConfigObservationOutcomeUnsupported,
      ConfigObservationOutcomeInvalid]"

definition ConfigObservationOutcome_Known :: "ConfigObservationOutcome \<Rightarrow> bool" where
  "ConfigObservationOutcome_Known v = (let (_, ok) = ConfigObservationOutcome_WireName v in ok)"

lemma ConfigObservationOutcome_Known_iff: "ConfigObservationOutcome_Known v \<longleftrightarrow> v \<in> set ConfigObservationOutcomeValues"
  by (simp add: ConfigObservationOutcome_Known_def ConfigObservationOutcome_WireName_def ConfigObservationOutcomeValues_def)

lemma ConfigObservationOutcome_Parse_String:
  "ParseConfigObservationOutcome (ConfigObservationOutcome_String v) = (if ConfigObservationOutcome_Known v then (v, True) else (0, False))"
  by (simp add: ParseConfigObservationOutcome_def ConfigObservationOutcome_String_def ConfigObservationOutcome_Known_def
      ConfigObservationOutcome_WireName_def)

lemma ConfigObservationOutcome_Parse_Known: "ParseConfigObservationOutcome w = (v, True) \<Longrightarrow> ConfigObservationOutcome_Known v"
  by (auto simp: ParseConfigObservationOutcome_def ConfigObservationOutcome_Known_iff ConfigObservationOutcomeValues_def
      split: if_splits)

subsection \<open>Records\<close>

text \<open>\<open>Raw\<close> is the bytes of an opaque value. \<open>oaConfigEditorReadUserArguments\<close> has no field.\<close>

record RunOverrides =
  NasStore :: bytes
  Store :: bytes
  LogSink :: bytes
  LogService :: bytes

record Origin =
  Rung :: bytes
  Path :: bytes

record Origins =
  NasStore :: Origin
  Store :: Origin
  LogSink :: Origin
  LogService :: Origin
  Off :: Origin

record Snapshot =
  NasStore :: bytes
  Store :: bytes
  LogSink :: bytes
  LogService :: bytes
  Off :: "bytes gomap"
  Origins :: Origins
  Stamp :: bytes

record UserSettings =
  NasStore :: bytes
  Store :: bytes
  LogSink :: bytes
  LogService :: bytes
  Off :: "bytes gomap"

record UserSnapshot =
  Values :: UserSettings
  Revision :: bytes

record UserReplaceResult =
  Outcome :: UserReplaceOutcome
  Snapshot :: UserSnapshot

record ConfigObservation =
  Outcome :: ConfigObservationOutcome
  Cursor :: bytes
  Snapshot :: "Snapshot option"

record oaConfigReaderReadArguments =
  Overrides :: RunOverrides

type_synonym oaConfigEditorReadUserArguments = unit

record oaConfigEditorReplaceUserArguments =
  ExpectedRevision :: bytes
  Values :: UserSettings

record oaConfigObserverObserveArguments =
  Overrides :: RunOverrides
  Cursor :: bytes
  WaitMs :: u64

record oaServiceFrame =
  Version :: u32
  Service :: bytes
  Method :: bytes
  Arguments :: bytes

record oaServiceReply =
  Version :: u32
  Service :: bytes
  Method :: bytes
  Ok :: bool
  Payload :: bytes

record oaServiceError =
  Code :: bytes
  Message :: bytes

record oaConfigReaderReadResult =
  Value :: Snapshot

record oaConfigEditorReadUserResult =
  Value :: UserSnapshot

record oaConfigEditorReplaceUserResult =
  Value :: UserReplaceResult

record oaConfigObserverObserveResult =
  Value :: ConfigObservation

subsection \<open>Encoders\<close>

text \<open>The line that starts a field and the line that ends an object, as every encoder repeats them.\<close>

definition fieldName :: "bytes \<Rightarrow> String.string \<Rightarrow> int \<Rightarrow> bytes" where
  "fieldName out name depth =
     (let out = out @ [ch CHR 0x0A];
          out = pad out depth;
          out = esc out (lit name)
      in out @ [ch CHR '':'', ch CHR '' ''])"

definition closeObject :: "bytes \<Rightarrow> int \<Rightarrow> bytes" where
  "closeObject out depth =
     (let out = out @ [ch CHR 0x0A];
          out = pad out depth
      in out @ [ch CHR ''}''])"

definition encRunOverrides ::
    "bytes \<Rightarrow> RunOverrides \<Rightarrow> int \<Rightarrow> bytes" where
  "encRunOverrides out v depth =
     (let out = out @ [ch CHR ''{''];
          out = fieldName out ''nas_store'' (depth + 1);
          out = esc out (RunOverrides.NasStore v);
          out = out @ [ch CHR '',''];
          out = fieldName out ''store'' (depth + 1);
          out = esc out (RunOverrides.Store v);
          out = out @ [ch CHR '',''];
          out = fieldName out ''log_sink'' (depth + 1);
          out = esc out (RunOverrides.LogSink v);
          out = out @ [ch CHR '',''];
          out = fieldName out ''log_service'' (depth + 1);
          out = esc out (RunOverrides.LogService v)
      in closeObject out depth)"

definition encOrigin ::
    "bytes \<Rightarrow> Origin \<Rightarrow> int \<Rightarrow> bytes" where
  "encOrigin out v depth =
     (let out = out @ [ch CHR ''{''];
          out = fieldName out ''rung'' (depth + 1);
          out = esc out (Origin.Rung v);
          out = out @ [ch CHR '',''];
          out = fieldName out ''path'' (depth + 1);
          out = esc out (Origin.Path v)
      in closeObject out depth)"

definition encOrigins ::
    "bytes \<Rightarrow> Origins \<Rightarrow> int \<Rightarrow> bytes" where
  "encOrigins out v depth =
     (let out = out @ [ch CHR ''{''];
          out = fieldName out ''nas_store'' (depth + 1);
          out = encOrigin out (Origins.NasStore v) (depth + 1);
          out = out @ [ch CHR '',''];
          out = fieldName out ''store'' (depth + 1);
          out = encOrigin out (Origins.Store v) (depth + 1);
          out = out @ [ch CHR '',''];
          out = fieldName out ''log_sink'' (depth + 1);
          out = encOrigin out (Origins.LogSink v) (depth + 1);
          out = out @ [ch CHR '',''];
          out = fieldName out ''log_service'' (depth + 1);
          out = encOrigin out (Origins.LogService v) (depth + 1);
          out = out @ [ch CHR '',''];
          out = fieldName out ''off'' (depth + 1);
          out = encOrigin out (Origins.Off v) (depth + 1)
      in closeObject out depth)"

definition encSnapshot ::
    "bytes \<Rightarrow> Snapshot \<Rightarrow> int \<Rightarrow> bytes" where
  "encSnapshot out v depth =
     (let out = out @ [ch CHR ''{''];
          out = fieldName out ''nas_store'' (depth + 1);
          out = esc out (Snapshot.NasStore v);
          out = out @ [ch CHR '',''];
          out = fieldName out ''store'' (depth + 1);
          out = esc out (Snapshot.Store v);
          out = out @ [ch CHR '',''];
          out = fieldName out ''log_sink'' (depth + 1);
          out = esc out (Snapshot.LogSink v);
          out = out @ [ch CHR '',''];
          out = fieldName out ''log_service'' (depth + 1);
          out = esc out (Snapshot.LogService v);
          out = out @ [ch CHR '',''];
          out = fieldName out ''off'' (depth + 1);
          out = strmap out (Snapshot.Off v) (depth + 1);
          out = out @ [ch CHR '',''];
          out = fieldName out ''origins'' (depth + 1);
          out = encOrigins out (Snapshot.Origins v) (depth + 1);
          out = out @ [ch CHR '',''];
          out = fieldName out ''stamp'' (depth + 1);
          out = esc out (Snapshot.Stamp v)
      in closeObject out depth)"

definition encUserSettings ::
    "bytes \<Rightarrow> UserSettings \<Rightarrow> int \<Rightarrow> bytes" where
  "encUserSettings out v depth =
     (let out = out @ [ch CHR ''{''];
          out = fieldName out ''nas_store'' (depth + 1);
          out = esc out (UserSettings.NasStore v);
          out = out @ [ch CHR '',''];
          out = fieldName out ''store'' (depth + 1);
          out = esc out (UserSettings.Store v);
          out = out @ [ch CHR '',''];
          out = fieldName out ''log_sink'' (depth + 1);
          out = esc out (UserSettings.LogSink v);
          out = out @ [ch CHR '',''];
          out = fieldName out ''log_service'' (depth + 1);
          out = esc out (UserSettings.LogService v);
          out = out @ [ch CHR '',''];
          out = fieldName out ''off'' (depth + 1);
          out = strmap out (UserSettings.Off v) (depth + 1)
      in closeObject out depth)"

definition encUserSnapshot ::
    "bytes \<Rightarrow> UserSnapshot \<Rightarrow> int \<Rightarrow> bytes" where
  "encUserSnapshot out v depth =
     (let out = out @ [ch CHR ''{''];
          out = fieldName out ''values'' (depth + 1);
          out = encUserSettings out (UserSnapshot.Values v) (depth + 1);
          out = out @ [ch CHR '',''];
          out = fieldName out ''revision'' (depth + 1);
          out = esc out (UserSnapshot.Revision v)
      in closeObject out depth)"

definition encUserReplaceResult ::
    "bytes \<Rightarrow> UserReplaceResult \<Rightarrow> int \<Rightarrow> Refusal + bytes" where
  "encUserReplaceResult out v depth =
     (if \<not> UserReplaceOutcome_Known (UserReplaceResult.Outcome v)
      then Inl (Refusal (lit ''bad_enum'') 0)
      else (let out = out @ [ch CHR ''{''];
                out = fieldName out ''outcome'' (depth + 1);
                out = esc out (UserReplaceOutcome_String (UserReplaceResult.Outcome v));
                out = out @ [ch CHR '',''];
                out = fieldName out ''snapshot'' (depth + 1);
                out = encUserSnapshot out (UserReplaceResult.Snapshot v) (depth + 1)
            in Inr (closeObject out depth)))"

definition encConfigObservation ::
    "bytes \<Rightarrow> ConfigObservation \<Rightarrow> int \<Rightarrow> Refusal + bytes" where
  "encConfigObservation out v depth =
     (if \<not> ConfigObservationOutcome_Known (ConfigObservation.Outcome v)
      then Inl (Refusal (lit ''bad_enum'') 0)
      else (let out = out @ [ch CHR ''{''];
                out = fieldName out ''outcome'' (depth + 1);
                out = esc out (ConfigObservationOutcome_String (ConfigObservation.Outcome v));
                out = out @ [ch CHR '',''];
                out = fieldName out ''cursor'' (depth + 1);
                out = esc out (ConfigObservation.Cursor v);
                out = (case ConfigObservation.Snapshot v of None \<Rightarrow> out | Some s \<Rightarrow>
             (let out = out @ [ch CHR '',''];
                  out = fieldName out ''snapshot'' (depth + 1);
                  out = encSnapshot out s (depth + 1)
              in out))
            in Inr (closeObject out depth)))"

definition encOAConfigReaderReadArguments ::
    "bytes \<Rightarrow> oaConfigReaderReadArguments \<Rightarrow> int \<Rightarrow> bytes" where
  "encOAConfigReaderReadArguments out v depth =
     (let out = out @ [ch CHR ''{''];
          out = fieldName out ''overrides'' (depth + 1);
          out = encRunOverrides out (oaConfigReaderReadArguments.Overrides v) (depth + 1)
      in closeObject out depth)"

definition encOAConfigEditorReadUserArguments ::
    "bytes \<Rightarrow> oaConfigEditorReadUserArguments \<Rightarrow> int \<Rightarrow> bytes" where
  "encOAConfigEditorReadUserArguments out v depth =
     (let out = out @ [ch CHR ''{''] in out @ [ch CHR ''}''])"

definition encOAConfigEditorReplaceUserArguments ::
    "bytes \<Rightarrow> oaConfigEditorReplaceUserArguments \<Rightarrow> int \<Rightarrow> bytes" where
  "encOAConfigEditorReplaceUserArguments out v depth =
     (let out = out @ [ch CHR ''{''];
          out = fieldName out ''expected_revision'' (depth + 1);
          out = esc out (oaConfigEditorReplaceUserArguments.ExpectedRevision v);
          out = out @ [ch CHR '',''];
          out = fieldName out ''values'' (depth + 1);
          out = encUserSettings out (oaConfigEditorReplaceUserArguments.Values v) (depth + 1)
      in closeObject out depth)"

definition encOAConfigObserverObserveArguments ::
    "bytes \<Rightarrow> oaConfigObserverObserveArguments \<Rightarrow> int \<Rightarrow> bytes" where
  "encOAConfigObserverObserveArguments out v depth =
     (let out = out @ [ch CHR ''{''];
          out = fieldName out ''overrides'' (depth + 1);
          out = encRunOverrides out (oaConfigObserverObserveArguments.Overrides v) (depth + 1);
          out = out @ [ch CHR '',''];
          out = fieldName out ''cursor'' (depth + 1);
          out = esc out (oaConfigObserverObserveArguments.Cursor v);
          out = out @ [ch CHR '',''];
          out = fieldName out ''wait_ms'' (depth + 1);
          out = num out (oaConfigObserverObserveArguments.WaitMs v)
      in closeObject out depth)"

definition encOAServiceFrame ::
    "bytes \<Rightarrow> oaServiceFrame \<Rightarrow> int \<Rightarrow> bytes" where
  "encOAServiceFrame out v depth =
     (let out = out @ [ch CHR ''{''];
          out = fieldName out ''version'' (depth + 1);
          out = num out (scast (oaServiceFrame.Version v));
          out = out @ [ch CHR '',''];
          out = fieldName out ''service'' (depth + 1);
          out = esc out (oaServiceFrame.Service v);
          out = out @ [ch CHR '',''];
          out = fieldName out ''method'' (depth + 1);
          out = esc out (oaServiceFrame.Method v);
          out = out @ [ch CHR '',''];
          out = fieldName out ''arguments'' (depth + 1);
          out = out @ oaServiceFrame.Arguments v
      in closeObject out depth)"

definition encOAServiceReply ::
    "bytes \<Rightarrow> oaServiceReply \<Rightarrow> int \<Rightarrow> bytes" where
  "encOAServiceReply out v depth =
     (let out = out @ [ch CHR ''{''];
          out = fieldName out ''version'' (depth + 1);
          out = num out (scast (oaServiceReply.Version v));
          out = out @ [ch CHR '',''];
          out = fieldName out ''service'' (depth + 1);
          out = esc out (oaServiceReply.Service v);
          out = out @ [ch CHR '',''];
          out = fieldName out ''method'' (depth + 1);
          out = esc out (oaServiceReply.Method v);
          out = out @ [ch CHR '',''];
          out = fieldName out ''ok'' (depth + 1);
          out = (if oaServiceReply.Ok v then out @ lit ''true'' else out @ lit ''false'');
          out = out @ [ch CHR '',''];
          out = fieldName out ''payload'' (depth + 1);
          out = out @ oaServiceReply.Payload v
      in closeObject out depth)"

definition encOAServiceError ::
    "bytes \<Rightarrow> oaServiceError \<Rightarrow> int \<Rightarrow> bytes" where
  "encOAServiceError out v depth =
     (let out = out @ [ch CHR ''{''];
          out = fieldName out ''code'' (depth + 1);
          out = esc out (oaServiceError.Code v);
          out = out @ [ch CHR '',''];
          out = fieldName out ''message'' (depth + 1);
          out = esc out (oaServiceError.Message v)
      in closeObject out depth)"

definition encOAConfigReaderReadResult ::
    "bytes \<Rightarrow> oaConfigReaderReadResult \<Rightarrow> int \<Rightarrow> bytes" where
  "encOAConfigReaderReadResult out v depth =
     (let out = out @ [ch CHR ''{''];
          out = fieldName out ''value'' (depth + 1);
          out = encSnapshot out (oaConfigReaderReadResult.Value v) (depth + 1)
      in closeObject out depth)"

definition encOAConfigEditorReadUserResult ::
    "bytes \<Rightarrow> oaConfigEditorReadUserResult \<Rightarrow> int \<Rightarrow> bytes" where
  "encOAConfigEditorReadUserResult out v depth =
     (let out = out @ [ch CHR ''{''];
          out = fieldName out ''value'' (depth + 1);
          out = encUserSnapshot out (oaConfigEditorReadUserResult.Value v) (depth + 1)
      in closeObject out depth)"

definition encOAConfigEditorReplaceUserResult ::
    "bytes \<Rightarrow> oaConfigEditorReplaceUserResult \<Rightarrow> int \<Rightarrow> Refusal + bytes" where
  "encOAConfigEditorReplaceUserResult out v depth =
     (let out = out @ [ch CHR ''{''];
          out = fieldName out ''value'' (depth + 1)
      in case encUserReplaceResult out (oaConfigEditorReplaceUserResult.Value v) (depth + 1) of
           Inl e \<Rightarrow> Inl e | Inr out \<Rightarrow> Inr (closeObject out depth))"

definition encOAConfigObserverObserveResult ::
    "bytes \<Rightarrow> oaConfigObserverObserveResult \<Rightarrow> int \<Rightarrow> Refusal + bytes" where
  "encOAConfigObserverObserveResult out v depth =
     (let out = out @ [ch CHR ''{''];
          out = fieldName out ''value'' (depth + 1)
      in case encConfigObservation out (oaConfigObserverObserveResult.Value v) (depth + 1) of
           Inl e \<Rightarrow> Inl e | Inr out \<Rightarrow> Inr (closeObject out depth))"

definition Encode :: "Snapshot \<Rightarrow> bytes" where
  "Encode v = encSnapshot [] v 0 @ [ch CHR 0x0A]"

subsection \<open>Each record's document\<close>

lemma fieldName_append [emit_simps]:
  "fieldName out name d = out @ ch CHR 0x0A # indent d @ quoted (lit name) @ lit '': ''"
  by (simp add: fieldName_def emit_simps lit_Cons)

lemma closeObject_append [emit_simps]: "closeObject out d = out @ ch CHR 0x0A # indent d @ [ch CHR ''}'']"
  by (simp add: closeObject_def emit_simps)

definition RunOverrides_json :: "RunOverrides \<Rightarrow> json" where
  "RunOverrides_json v = JObject
    ([(lit ''nas_store'', JString (RunOverrides.NasStore v)),
     (lit ''store'', JString (RunOverrides.Store v)),
     (lit ''log_sink'', JString (RunOverrides.LogSink v)),
     (lit ''log_service'', JString (RunOverrides.LogService v))])"

lemma encRunOverrides_append [emit_simps]:
  "encRunOverrides out v d = out @ print d (RunOverrides_json v)"
  by (simp add: encRunOverrides_def RunOverrides_json_def emit_simps lit_Cons)

definition Origin_json :: "Origin \<Rightarrow> json" where
  "Origin_json v = JObject
    ([(lit ''rung'', JString (Origin.Rung v)),
     (lit ''path'', JString (Origin.Path v))])"

lemma encOrigin_append [emit_simps]:
  "encOrigin out v d = out @ print d (Origin_json v)"
  by (simp add: encOrigin_def Origin_json_def emit_simps lit_Cons)

definition Origins_json :: "Origins \<Rightarrow> json" where
  "Origins_json v = JObject
    ([(lit ''nas_store'', Origin_json (Origins.NasStore v)),
     (lit ''store'', Origin_json (Origins.Store v)),
     (lit ''log_sink'', Origin_json (Origins.LogSink v)),
     (lit ''log_service'', Origin_json (Origins.LogService v)),
     (lit ''off'', Origin_json (Origins.Off v))])"

lemma encOrigins_append [emit_simps]:
  "encOrigins out v d = out @ print d (Origins_json v)"
  by (simp add: encOrigins_def Origins_json_def emit_simps lit_Cons)

definition Snapshot_json :: "Snapshot \<Rightarrow> json" where
  "Snapshot_json v = JObject
    ([(lit ''nas_store'', JString (Snapshot.NasStore v)),
     (lit ''store'', JString (Snapshot.Store v)),
     (lit ''log_sink'', JString (Snapshot.LogSink v)),
     (lit ''log_service'', JString (Snapshot.LogService v)),
     (lit ''off'', JObject (strmap_fields (Snapshot.Off v))),
     (lit ''origins'', Origins_json (Snapshot.Origins v)),
     (lit ''stamp'', JString (Snapshot.Stamp v))])"

lemma encSnapshot_append [emit_simps]:
  "encSnapshot out v d = out @ print d (Snapshot_json v)"
  by (simp add: encSnapshot_def Snapshot_json_def emit_simps lit_Cons)

definition UserSettings_json :: "UserSettings \<Rightarrow> json" where
  "UserSettings_json v = JObject
    ([(lit ''nas_store'', JString (UserSettings.NasStore v)),
     (lit ''store'', JString (UserSettings.Store v)),
     (lit ''log_sink'', JString (UserSettings.LogSink v)),
     (lit ''log_service'', JString (UserSettings.LogService v)),
     (lit ''off'', JObject (strmap_fields (UserSettings.Off v)))])"

lemma encUserSettings_append [emit_simps]:
  "encUserSettings out v d = out @ print d (UserSettings_json v)"
  by (simp add: encUserSettings_def UserSettings_json_def emit_simps lit_Cons)

definition UserSnapshot_json :: "UserSnapshot \<Rightarrow> json" where
  "UserSnapshot_json v = JObject
    ([(lit ''values'', UserSettings_json (UserSnapshot.Values v)),
     (lit ''revision'', JString (UserSnapshot.Revision v))])"

lemma encUserSnapshot_append [emit_simps]:
  "encUserSnapshot out v d = out @ print d (UserSnapshot_json v)"
  by (simp add: encUserSnapshot_def UserSnapshot_json_def emit_simps lit_Cons)

definition UserReplaceResult_json :: "UserReplaceResult \<Rightarrow> json" where
  "UserReplaceResult_json v = JObject
    ([(lit ''outcome'', JString (UserReplaceOutcome_String (UserReplaceResult.Outcome v))),
     (lit ''snapshot'', UserSnapshot_json (UserReplaceResult.Snapshot v))])"

lemma encUserReplaceResult_append [emit_simps]:
  "encUserReplaceResult out v d =
    (if UserReplaceOutcome_Known (UserReplaceResult.Outcome v)
     then Inr (out @ print d (UserReplaceResult_json v))
     else Inl (Refusal (lit ''bad_enum'') 0))"
  by (simp add: encUserReplaceResult_def UserReplaceResult_json_def emit_simps Let_def split: option.split)

definition ConfigObservation_json :: "ConfigObservation \<Rightarrow> json" where
  "ConfigObservation_json v = JObject
    ([(lit ''outcome'', JString (ConfigObservationOutcome_String (ConfigObservation.Outcome v))),
     (lit ''cursor'', JString (ConfigObservation.Cursor v))]
     @ (case ConfigObservation.Snapshot v of None \<Rightarrow> [] | Some s \<Rightarrow> [(lit ''snapshot'', Snapshot_json s)]))"

lemma encConfigObservation_append [emit_simps]:
  "encConfigObservation out v d =
    (if ConfigObservationOutcome_Known (ConfigObservation.Outcome v)
     then Inr (out @ print d (ConfigObservation_json v))
     else Inl (Refusal (lit ''bad_enum'') 0))"
  by (simp add: encConfigObservation_def ConfigObservation_json_def emit_simps Let_def split: option.split)

definition OAConfigReaderReadArguments_json :: "oaConfigReaderReadArguments \<Rightarrow> json" where
  "OAConfigReaderReadArguments_json v = JObject
    ([(lit ''overrides'', RunOverrides_json (oaConfigReaderReadArguments.Overrides v))])"

lemma encOAConfigReaderReadArguments_append [emit_simps]:
  "encOAConfigReaderReadArguments out v d = out @ print d (OAConfigReaderReadArguments_json v)"
  by (simp add: encOAConfigReaderReadArguments_def OAConfigReaderReadArguments_json_def emit_simps lit_Cons)

definition OAConfigEditorReadUserArguments_json :: "oaConfigEditorReadUserArguments \<Rightarrow> json" where
  "OAConfigEditorReadUserArguments_json v = JObject
    ([])"

lemma encOAConfigEditorReadUserArguments_append [emit_simps]:
  "encOAConfigEditorReadUserArguments out v d = out @ print d (OAConfigEditorReadUserArguments_json v)"
  by (simp add: encOAConfigEditorReadUserArguments_def OAConfigEditorReadUserArguments_json_def emit_simps lit_Cons)

definition OAConfigEditorReplaceUserArguments_json :: "oaConfigEditorReplaceUserArguments \<Rightarrow> json" where
  "OAConfigEditorReplaceUserArguments_json v = JObject
    ([(lit ''expected_revision'', JString (oaConfigEditorReplaceUserArguments.ExpectedRevision v)),
     (lit ''values'', UserSettings_json (oaConfigEditorReplaceUserArguments.Values v))])"

lemma encOAConfigEditorReplaceUserArguments_append [emit_simps]:
  "encOAConfigEditorReplaceUserArguments out v d = out @ print d (OAConfigEditorReplaceUserArguments_json v)"
  by (simp add: encOAConfigEditorReplaceUserArguments_def OAConfigEditorReplaceUserArguments_json_def emit_simps lit_Cons)

definition OAConfigObserverObserveArguments_json :: "oaConfigObserverObserveArguments \<Rightarrow> json" where
  "OAConfigObserverObserveArguments_json v = JObject
    ([(lit ''overrides'', RunOverrides_json (oaConfigObserverObserveArguments.Overrides v)),
     (lit ''cursor'', JString (oaConfigObserverObserveArguments.Cursor v)),
     (lit ''wait_ms'', JNumber (oaConfigObserverObserveArguments.WaitMs v))])"

lemma encOAConfigObserverObserveArguments_append [emit_simps]:
  "encOAConfigObserverObserveArguments out v d = out @ print d (OAConfigObserverObserveArguments_json v)"
  by (simp add: encOAConfigObserverObserveArguments_def OAConfigObserverObserveArguments_json_def emit_simps lit_Cons)

definition OAServiceFrame_json :: "oaServiceFrame \<Rightarrow> json" where
  "OAServiceFrame_json v = JObject
    ([(lit ''version'', JNumber (scast (oaServiceFrame.Version v))),
     (lit ''service'', JString (oaServiceFrame.Service v)),
     (lit ''method'', JString (oaServiceFrame.Method v)),
     (lit ''arguments'', JRaw (oaServiceFrame.Arguments v))])"

lemma encOAServiceFrame_append [emit_simps]:
  "encOAServiceFrame out v d = out @ print d (OAServiceFrame_json v)"
  by (simp add: encOAServiceFrame_def OAServiceFrame_json_def emit_simps lit_Cons)

definition OAServiceReply_json :: "oaServiceReply \<Rightarrow> json" where
  "OAServiceReply_json v = JObject
    ([(lit ''version'', JNumber (scast (oaServiceReply.Version v))),
     (lit ''service'', JString (oaServiceReply.Service v)),
     (lit ''method'', JString (oaServiceReply.Method v)),
     (lit ''ok'', JBool (oaServiceReply.Ok v)),
     (lit ''payload'', JRaw (oaServiceReply.Payload v))])"

lemma encOAServiceReply_append [emit_simps]:
  "encOAServiceReply out v d = out @ print d (OAServiceReply_json v)"
  by (simp add: encOAServiceReply_def OAServiceReply_json_def emit_simps lit_Cons)

definition OAServiceError_json :: "oaServiceError \<Rightarrow> json" where
  "OAServiceError_json v = JObject
    ([(lit ''code'', JString (oaServiceError.Code v)),
     (lit ''message'', JString (oaServiceError.Message v))])"

lemma encOAServiceError_append [emit_simps]:
  "encOAServiceError out v d = out @ print d (OAServiceError_json v)"
  by (simp add: encOAServiceError_def OAServiceError_json_def emit_simps lit_Cons)

definition OAConfigReaderReadResult_json :: "oaConfigReaderReadResult \<Rightarrow> json" where
  "OAConfigReaderReadResult_json v = JObject
    ([(lit ''value'', Snapshot_json (oaConfigReaderReadResult.Value v))])"

lemma encOAConfigReaderReadResult_append [emit_simps]:
  "encOAConfigReaderReadResult out v d = out @ print d (OAConfigReaderReadResult_json v)"
  by (simp add: encOAConfigReaderReadResult_def OAConfigReaderReadResult_json_def emit_simps lit_Cons)

definition OAConfigEditorReadUserResult_json :: "oaConfigEditorReadUserResult \<Rightarrow> json" where
  "OAConfigEditorReadUserResult_json v = JObject
    ([(lit ''value'', UserSnapshot_json (oaConfigEditorReadUserResult.Value v))])"

lemma encOAConfigEditorReadUserResult_append [emit_simps]:
  "encOAConfigEditorReadUserResult out v d = out @ print d (OAConfigEditorReadUserResult_json v)"
  by (simp add: encOAConfigEditorReadUserResult_def OAConfigEditorReadUserResult_json_def emit_simps lit_Cons)

definition OAConfigEditorReplaceUserResult_json :: "oaConfigEditorReplaceUserResult \<Rightarrow> json" where
  "OAConfigEditorReplaceUserResult_json v = JObject
    ([(lit ''value'', UserReplaceResult_json (oaConfigEditorReplaceUserResult.Value v))])"

lemma encOAConfigEditorReplaceUserResult_append [emit_simps]:
  "encOAConfigEditorReplaceUserResult out v d =
    (if UserReplaceOutcome_Known (UserReplaceResult.Outcome (oaConfigEditorReplaceUserResult.Value v))
     then Inr (out @ print d (OAConfigEditorReplaceUserResult_json v))
     else Inl (Refusal (lit ''bad_enum'') 0))"
  by (simp add: encOAConfigEditorReplaceUserResult_def OAConfigEditorReplaceUserResult_json_def emit_simps lit_Cons)

definition OAConfigObserverObserveResult_json :: "oaConfigObserverObserveResult \<Rightarrow> json" where
  "OAConfigObserverObserveResult_json v = JObject
    ([(lit ''value'', ConfigObservation_json (oaConfigObserverObserveResult.Value v))])"

lemma encOAConfigObserverObserveResult_append [emit_simps]:
  "encOAConfigObserverObserveResult out v d =
    (if ConfigObservationOutcome_Known (ConfigObservation.Outcome (oaConfigObserverObserveResult.Value v))
     then Inr (out @ print d (OAConfigObserverObserveResult_json v))
     else Inl (Refusal (lit ''bad_enum'') 0))"
  by (simp add: encOAConfigObserverObserveResult_def OAConfigObserverObserveResult_json_def emit_simps lit_Cons)

lemma Encode_print: "Encode v = print 0 (Snapshot_json v) @ [ch CHR 0x0A]"
  by (simp add: Encode_def emit_simps)

end
