(* ===== verification/Reads.thy ===== *)
theory Reads
  imports Wire
begin

section \<open>Reading back what was written\<close>

text \<open>
  The contract of a round trip: \<open>reads n scan w x\<close> says that the scanner, placed in front of the
  text \<open>w\<close> with \<open>n\<close> levels of nesting to spare, returns \<open>x\<close> and stops right behind \<open>w\<close>, whatever the
  rest of the buffer is, as long as it starts with one of the two bytes the writers put behind a
  value. The lemmas give the contract for strings, numbers, booleans, maps and, for objects, reduce
  it to the contract of the fields.
\<close>

definition rest :: "reader \<Rightarrow> bytes" where
  "rest r = drop (rpos r) (rbuf r)"

definition delimited :: "bytes \<Rightarrow> bool" where
  "delimited t \<longleftrightarrow> t = [] \<or> hd t = ch CHR '','' \<or> hd t = ch CHR 0x0A"

definition solid :: "bytes \<Rightarrow> bool" where
  "solid w \<longleftrightarrow> w \<noteq> [] \<and> \<not> space (hd w)"

definition reads :: "nat \<Rightarrow> (reader \<Rightarrow> 'a parsed) \<Rightarrow> bytes \<Rightarrow> 'a \<Rightarrow> bool" where
  "reads n scan w x \<longleftrightarrow>
     (\<forall>r t. rest r = w @ t \<longrightarrow> rdepth r + int n \<le> depthLimit \<longrightarrow> delimited t \<longrightarrow>
       scan r = Inr (x, adv (length w) r))"

lemma readsD:
  "reads n scan w x \<Longrightarrow> rest r = w @ t \<Longrightarrow> rdepth r + int n \<le> depthLimit \<Longrightarrow> delimited t \<Longrightarrow>
   scan r = Inr (x, adv (length w) r)"
  by (auto simp: reads_def)

lemma reads_weaken: "reads n scan w x \<Longrightarrow> n \<le> m \<Longrightarrow> reads m scan w x"
  by (auto simp: reads_def)

subsection \<open>The unread text\<close>

lemma rest_adv [simp]: "rest (adv n r) = drop n (rest r)"
  by (simp add: rest_def add.commute)

lemma rest_leave [simp]: "rest (leave r) = rest r"
  by (simp add: rest_def leave_def)

lemma rest_Cons: "rest r = c # t \<Longrightarrow> rpos r < length (rbuf r) \<and> rbuf r ! rpos r = c"
  unfolding rest_def by (cases "rpos r < length (rbuf r)") (auto simp: Cons_nth_drop_Suc [symmetric])

lemma rest_at: "rest r = c # t \<Longrightarrow> at r = c" "rest r = [] \<Longrightarrow> at r = 0"
  by (auto simp: at_def dest: rest_Cons) (simp add: rest_def)

lemma length_rest: "length (rest r) = length (rbuf r) - rpos r"
  by (simp add: rest_def)

lemma rest_nth: "rest r = c # d # t \<Longrightarrow> rpos r + 2 \<le> length (rbuf r) \<and> rbuf r ! (rpos r + 1) = d"
proof -
  assume r: "rest r = c # d # t"
  then have "rest (adv 1 r) = d # t" by simp
  from rest_Cons [OF this] show ?thesis by simp
qed

lemma ws_stop: "rest r = [] \<or> \<not> space (hd (rest r)) \<Longrightarrow> ws r = r"
  by (subst ws.simps) (auto simp: rest_def hd_drop_conv_nth)

lemma ws_solid: "rest r = w @ t \<Longrightarrow> solid w \<Longrightarrow> ws r = r"
  by (rule ws_stop) (auto simp: solid_def)

lemma ws_skip:
  "rest r = s @ t \<Longrightarrow> \<forall>c \<in> set s. space c \<Longrightarrow> t = [] \<or> \<not> space (hd t) \<Longrightarrow> ws r = adv (length s) r"
proof (induction s arbitrary: r)
  case Nil
  then show ?case by (auto intro: ws_stop)
next
  case (Cons c s)
  then have "ws (adv 1 r) = adv (length s) (adv 1 r)" by (intro Cons.IH) auto
  moreover have "ws r = ws (adv 1 r)"
    using rest_Cons [of r c "s @ t"] Cons.prems by (subst ws.simps) simp
  ultimately show ?case by simp
qed

lemma space_indent: "c \<in> set (indent d) \<Longrightarrow> space c"
  by (simp add: indent_def space_def)

lemma ws_line:
  "rest r = ch CHR 0x0A # indent d @ t \<Longrightarrow> t = [] \<or> \<not> space (hd t) \<Longrightarrow>
   ws r = adv (Suc (length (indent d))) r"
  using ws_skip [of r "ch CHR 0x0A # indent d" t] by (auto simp: space_indent) (simp_all add: space_def)

subsection \<open>Strings\<close>

lemma control_escape:
  fixes c :: byte
  assumes "c < 0x20"
  shows "hex_loop [ch CHR ''0'', ch CHR ''0'', hexdigits ! unat (drop_bit 4 c), hexdigits ! unat (c AND 0xF)] 0
      = Some (ucast c)"
proof -
  let ?P = "\<lambda>c :: byte. hex_loop [ch CHR ''0'', ch CHR ''0'', hexdigits ! unat (drop_bit 4 c),
      hexdigits ! unat (c AND 0xF)] 0 = Some (ucast c)"
  have "\<forall>n \<in> set [0..<32]. ?P (of_nat n)" by code_simp
  moreover have "unat c \<in> set [0..<32]" using assms by (simp add: word_less_nat_alt)
  ultimately have "?P (of_nat (unat c))" by blast
  then show ?thesis by simp
qed

lemma hex4_rest:
  "rest r = h @ t \<Longrightarrow> length h = 4 \<Longrightarrow> hex_loop h 0 = Some u \<Longrightarrow> hex4 r = Inr (u, adv 4 r)"
  using length_rest [of r] by (auto simp: hex4_def rest_def)

definition control_text :: "byte \<Rightarrow> bytes" where
  "control_text c = [ch CHR ''0'', ch CHR ''0'', hexdigits ! unat (drop_bit 4 c), hexdigits ! unat (c AND 0xF)]"

lemma control_rune:
  fixes c :: byte
  assumes "c < 0x20"
  shows "\<not> (0xDC00 <=s (ucast c :: u32) \<and> ucast c <=s (0xDFFF :: u32))"
    and "\<not> (0xD800 <=s (ucast c :: u32) \<and> ucast c <=s (0xDBFF :: u32))"
    and "appendRune out (ucast c) = out @ [c]"
proof -
  let ?P = "\<lambda>c :: byte. \<not> (0xDC00 <=s (ucast c :: u32)) \<and> \<not> (0xD800 <=s (ucast c :: u32))
      \<and> (ucast c :: u32) <s 0x80 \<and> ucast (ucast c :: u32) = c"
  have "\<forall>n \<in> set [0..<32]. ?P (of_nat n)" by code_simp
  moreover have "unat c \<in> set [0..<32]" using assms by (simp add: word_less_nat_alt)
  ultimately have "?P (of_nat (unat c))" by blast
  then have P: "?P c" by simp
  then show "\<not> (0xDC00 <=s (ucast c :: u32) \<and> ucast c <=s (0xDFFF :: u32))"
    "\<not> (0xD800 <=s (ucast c :: u32) \<and> ucast c <=s (0xDBFF :: u32))"
    "appendRune out (ucast c) = out @ [c]"
    by (simp_all add: appendRune_def)
qed

lemma escape_u_control:
  assumes "rest r = control_text c @ t" and "c < 0x20"
  shows "escape_u r out = Inr (out @ [c], adv 4 r)"
proof -
  have "hex4 r = Inr (ucast c, adv 4 r)"
    using hex4_rest [of r "control_text c" t "ucast c"] assms(1) control_escape [OF assms(2)]
    by (simp add: control_text_def del: hex_loop.simps)
  then show ?thesis
    using control_rune [OF assms(2)] by (simp only: escape_u_def sum.case prod.case if_False)
qed

lemma esc1_cases:
  obtains (plain) "esc1 c = [c]" "c \<noteq> ch CHR 0x22" "c \<noteq> ch CHR 0x5C" "\<not> c < 0x20"
    | (short) e where "esc1 c = [ch CHR 0x5C, e]" "escape_byte e = Some c"
    | (control) "c < 0x20" "esc1 c = ch CHR 0x5C # ch CHR ''u'' # control_text c"
proof -
  have "(esc1 c = [c] \<and> c \<noteq> ch CHR 0x22 \<and> c \<noteq> ch CHR 0x5C \<and> \<not> c < 0x20)
      \<or> (\<exists>e. esc1 c = [ch CHR 0x5C, e] \<and> escape_byte e = Some c)
      \<or> (c < 0x20 \<and> esc1 c = ch CHR 0x5C # ch CHR ''u'' # control_text c)"
    by (simp add: esc1_def escByte_def control_text_def escape_byte_def)
  then show ?thesis using plain short control by blast
qed

lemma str_loop_byte:
  assumes "rest r = esc1 c @ t"
  shows "str_loop r out = str_loop (adv (length (esc1 c)) r) (out @ [c])"
proof (cases c rule: esc1_cases)
  case plain
  with assms rest_Cons [of r c t] show ?thesis
    by (subst str_loop.simps) (simp add: Let_def)
next
  case (short e)
  then have r: "rest r = ch CHR 0x5C # e # t" using assms by simp
  note n = rest_nth [OF r]
  have "escape r out = Inr (out @ [c], adv 2 r)"
    using escape_cases(1) [of r out] n short by simp
  moreover have "length (esc1 c) = 2" using short by simp
  ultimately show ?thesis using rest_Cons [OF r]
    by (subst str_loop.simps) (simp add: Let_def)
next
  case control
  then have r: "rest r = ch CHR 0x5C # ch CHR ''u'' # control_text c @ t" using assms by simp
  then have "escape_u (adv 2 r) out = Inr (out @ [c], adv 6 r)"
    using escape_u_control [of "adv 2 r" c t out] control by simp
  then have "escape r out = Inr (out @ [c], adv 6 r)"
    using escape_cases(1) [of r out] rest_nth [OF r] by (simp add: escape_byte_def)
  moreover have "length (esc1 c) = 6" using control by (simp add: control_text_def)
  ultimately show ?thesis using rest_Cons [OF r]
    by (subst str_loop.simps) (simp add: Let_def)
qed

lemma str_loop_text:
  "rest r = concat (map esc1 s) @ ch CHR 0x22 # t \<Longrightarrow> validUTF8 (out @ s) \<Longrightarrow>
   str_loop r out = Inr (out @ s, adv (length (concat (map esc1 s)) + 1) r)"
proof (induction s arbitrary: r out)
  case Nil
  then show ?case using rest_Cons [of r "ch CHR 0x22" t] by (subst str_loop.simps) (simp add: Let_def)
next
  case (Cons c s)
  let ?r = "adv (length (esc1 c)) r"
  have "rest r = esc1 c @ (concat (map esc1 s) @ ch CHR 0x22 # t)" using Cons.prems(1) by simp
  then have "str_loop r out = str_loop ?r (out @ [c])" by (rule str_loop_byte)
  also have "\<dots> = Inr ((out @ [c]) @ s, adv (length (concat (map esc1 s)) + 1) ?r)"
    using Cons.prems by (intro Cons.IH) simp_all
  finally show ?case by (simp add: add.commute add.left_commute)
qed

lemma str_quoted:
  assumes "rest r = quoted s @ t" and "validUTF8 s"
  shows "str r = Inr (s, adv (length (quoted s)) r)"
proof -
  have r: "rest r = ch CHR 0x22 # concat (map esc1 s) @ ch CHR 0x22 # t"
    using assms(1) by (simp add: quoted_def)
  then have "str r = str_loop (adv 1 r) []" using rest_at(1) [OF r] by (simp add: str_def)
  also have "\<dots> = Inr ([] @ s, adv (length (concat (map esc1 s)) + 1) (adv 1 r))"
    using r assms(2) by (intro str_loop_text) simp_all
  finally show ?thesis by (simp add: quoted_def)
qed

lemma reads_str: "validUTF8 s \<Longrightarrow> reads n str (quoted s) s"
  by (simp add: reads_def str_quoted)

lemma solid_quoted [simp]: "solid (quoted s)"
  by (simp add: solid_def quoted_def space_def)

subsection \<open>Numbers and booleans\<close>

text \<open>The value a run of decimal digits adds to an accumulator.\<close>

fun decimal_value :: "nat \<Rightarrow> bytes \<Rightarrow> nat" where
  "decimal_value n [] = n"
| "decimal_value n (c # cs) = decimal_value (n * 10 + (unat c - 48)) cs"

lemma digit_iff: "digit c \<longleftrightarrow> 48 \<le> unat c \<and> unat c \<le> 57"
  by (simp add: digit_def word_le_nat_alt)

lemma decimal_value_mono: "n \<le> decimal_value n cs"
  by (induction n cs rule: decimal_value.induct) auto

lemma int_loop_digits:
  "rest r = cs @ t \<Longrightarrow> \<forall>c \<in> set cs. digit c \<Longrightarrow> t = [] \<or> \<not> digit (hd t) \<Longrightarrow>
   decimal_value (unat u) cs \<le> 2 ^ 63 \<Longrightarrow>
   int_loop r u = Inr (of_nat (decimal_value (unat u) cs), adv (length cs) r)"
proof (induction cs arbitrary: r u)
  case Nil
  then have "\<not> digit (at r)"
    by (cases t) (auto dest: rest_at simp: digit_iff)
  then show ?case by (subst int_loop.simps) simp
next
  case (Cons c cs)
  have at: "at r = c" and d: "digit c" using Cons.prems rest_at by auto
  let ?v = "unat u * 10 + (unat c - 48)"
  have le: "?v \<le> 2 ^ 63" using decimal_value_mono [of ?v cs] Cons.prems(4) by simp
  then have u: "unat u \<le> 922337203685477580" by simp
  then have g: "\<not> 922337203685477580 < u" by (simp add: word_less_nat_alt)
  have v: "unat (u * 10 + ucast (c - ch CHR ''0'')) = ?v"
  proof -
    have "unat (c - ch CHR ''0'') = unat c - 48"
      using d by (simp add: digit_iff unat_sub word_le_nat_alt)
    moreover have "unat c < 256" using d by (simp add: digit_iff)
    ultimately show ?thesis using le by (simp add: unat_word_ariths unsigned_ucast_eq take_bit_eq_mod)
  qed
  have "int_loop r u = int_loop (adv 1 r) (u * 10 + ucast (c - ch CHR ''0''))"
    using at d g by (subst int_loop.simps) simp
  also have "\<dots> = Inr (of_nat (decimal_value ?v cs), adv (length cs) (adv 1 r))"
    using Cons.IH [of "adv 1 r" "u * 10 + ucast (c - ch CHR ''0'')"] Cons.prems unfolding v by simp
  finally show ?case by simp
qed

fun nat_digits :: "nat \<Rightarrow> bytes" where
  "nat_digits n = (if n = 0 then [] else nat_digits (n div 10) @ [of_nat (48 + n mod 10)])"

declare nat_digits.simps [simp del]

lemma nat_digits_0 [simp]: "nat_digits 0 = []"
  by (simp add: nat_digits.simps)

lemma numDigits_nat: "numDigits u d = nat_digits (unat u) @ d"
proof (induction u d rule: numDigits.induct)
  case (1 u d)
  show ?case
  proof (cases "0 < u")
    case True
    have "ucast (0x30 + u mod 10) = (of_nat (48 + unat u mod 10) :: byte)"
    proof -
      have "unat (0x30 + u mod 10) = 48 + unat u mod 10"
        by (subst unat_add_lem [THEN iffD1]) (simp_all add: unat_mod)
      then show ?thesis
        by (simp only: word_eq_unat unsigned_ucast_eq take_bit_eq_mod unat_of_nat)
    qed
    then have "numDigits u d = nat_digits (unat (u div 10)) @ of_nat (48 + unat u mod 10) # d"
      using 1 [OF True] True by (subst numDigits.simps) simp
    also have "\<dots> = nat_digits (unat u) @ d"
      using True by (subst (2) nat_digits.simps) (simp add: unat_div word_less_nat_alt)
    finally show ?thesis .
  next
    case False
    then show ?thesis by (subst numDigits.simps) (simp add: nat_digits.simps word_less_nat_alt)
  qed
qed

lemma decimal_value_snoc: "decimal_value n (cs @ [c]) = decimal_value n cs * 10 + (unat c - 48)"
  by (induction n cs rule: decimal_value.induct) simp_all

lemma unat_digit: "m < 10 \<Longrightarrow> unat (of_nat (48 + m) :: byte) = 48 + m"
  by (subst unat_of_nat) simp

lemma nat_digits_value: "decimal_value 0 (nat_digits n) = n"
proof (induction n rule: nat_digits.induct)
  case (1 n)
  then show ?case
    using unat_digit [of "n mod 10"]
    by (cases "n = 0") (simp_all add: nat_digits.simps [of n] decimal_value_snoc del: of_nat_add)
qed

lemma nat_digits_digit: "\<forall>c \<in> set (nat_digits n). digit c"
proof (induction n rule: nat_digits.induct)
  case (1 n)
  then show ?case
    using unat_digit [of "n mod 10"]
    by (cases "n = 0") (auto simp: nat_digits.simps [of n] digit_iff simp del: of_nat_add)
qed

lemma nat_digits_hd: "0 < n \<Longrightarrow> nat_digits n \<noteq> [] \<and> hd (nat_digits n) \<noteq> ch CHR ''0''"
proof (induction n rule: nat_digits.induct)
  case (1 n)
  show ?case
  proof (cases "n < 10")
    case True
    with "1.prems" unat_digit [of n] show ?thesis
      by (simp add: nat_digits.simps [of n] word_eq_unat del: of_nat_add)
  next
    case False
    with 1 show ?thesis by (simp add: nat_digits.simps [of n])
  qed
qed

lemma at_delimited: "delimited (rest r) \<Longrightarrow> at r = 0 \<or> at r = ch CHR '','' \<or> at r = ch CHR 0x0A"
  by (cases "rest r") (auto simp: delimited_def dest: rest_at)

lemma int_finish_ok:
  assumes "delimited (rest r)" and "neg \<Longrightarrow> u \<noteq> 0" and "u \<le> (if neg then push_bit 63 1 else push_bit 63 1 - 1)"
    and "n = (if neg then - u else u)" and "lo \<le>s n" and "n \<le>s hi"
  shows "int_finish neg lo hi u r = Inr (n, r)"
proof -
  have c: "\<not> (at r = ch CHR ''.'' \<or> at r = ch CHR ''e'' \<or> at r = ch CHR ''E''
      \<or> (ch CHR ''0'' \<le> at r \<and> at r \<le> ch CHR ''9''))"
    using at_delimited [OF assms(1)] by auto
  have u: "\<not> (\<not> (neg \<and> u = push_bit 63 1) \<and> push_bit 63 1 - 1 < u)"
    using assms(3) by (cases neg) (auto simp: word_le_nat_alt word_less_nat_alt word_eq_unat)
  have n: "\<not> (n <s lo \<or> hi <s n)" using assms(5,6) by (simp add: word_sle_eq word_sless_alt)
  have "(if neg \<and> u = push_bit 63 1 then - push_bit 63 1 else if neg then - u else u) = n"
    using assms(4) by simp
  then show ?thesis
    using c u n assms(2) by (auto simp only: int_finish_def Let_def split: if_split)
qed

lemma reads_integer_digits:
  assumes r: "rest r = nat_digits m @ t" and d: "delimited t" and m: "0 < m" "m \<le> 2 ^ 63"
  shows "at r \<noteq> ch CHR ''0''" "digit (at r)" "int_loop r 0 = Inr (of_nat m, adv (length (nat_digits m)) r)"
proof -
  obtain c cs where c: "nat_digits m = c # cs" using nat_digits_hd [OF m(1)] by (cases "nat_digits m") auto
  then show "at r \<noteq> ch CHR ''0''" "digit (at r)"
    using rest_at(1) [of r c "cs @ t"] r nat_digits_hd [OF m(1)] nat_digits_digit [of m] by auto
  have "t = [] \<or> \<not> digit (hd t)" using d by (auto simp: delimited_def digit_def)
  from int_loop_digits [OF r nat_digits_digit this, of 0] m
  show "int_loop r 0 = Inr (of_nat m, adv (length (nat_digits m)) r)"
    by (simp add: nat_digits_value)
qed

lemma num_text:
  "num [] n = (if n = 0 then [ch CHR ''0''] else if n <s 0 then ch CHR ''-'' # nat_digits (unat (- n))
     else nat_digits (unat n))"
  by (simp add: num_def Let_def numDigits_nat [of _ "[]", simplified])

lemma sint_u64: "sint n = (if uint n < 2 ^ 63 then uint n else uint n - 2 ^ 64)" for n :: u64
proof -
  have "0 \<le> uint n" "uint n < 2 ^ 64" using uint_lt2p [of n] by simp_all
  moreover have "sint n = (uint n + 2 ^ 63) mod 2 ^ 64 - 2 ^ 63"
    by (simp add: sint_uint signed_take_bit_eq_take_bit_shift take_bit_eq_mod)
  ultimately show ?thesis
    using mod_pos_pos_trivial [of "uint n + 2 ^ 63" "2 ^ 64"]
      minus_mod_self2 [of "uint n + 2 ^ 63" "2 ^ 64"] mod_pos_pos_trivial [of "uint n - 2 ^ 63" "2 ^ 64"]
    by (auto split: if_split)
qed

lemma unat_u64: "unat n < 2 ^ 64" for n :: u64
  using unsigned_less [of n, where ?'a = nat] by simp

lemma uint_u64: "uint n = int (unat n)" for n :: u64
  by simp

lemma sign_magnitude: "n <s 0 \<longleftrightarrow> 2 ^ 63 \<le> unat n" for n :: u64
proof -
  have "n <s 0 \<longleftrightarrow> sint n < 0" by (simp add: word_sless_alt)
  also have "\<dots> \<longleftrightarrow> \<not> uint n < 2 ^ 63"
    using uint_lt2p [of n] by (simp add: sint_u64)
  also have "\<dots> \<longleftrightarrow> 2 ^ 63 \<le> unat n" using of_nat_less_iff [of "unat n" "2 ^ 63", where ?'a = int]
    by (simp only: uint_u64 not_less [symmetric]) simp
  finally show ?thesis .
qed

lemma negative_magnitude: "n <s 0 \<Longrightarrow> 0 < unat (- n) \<and> unat (- n) \<le> 2 ^ 63" for n :: u64
proof -
  assume "n <s 0"
  then have n: "2 ^ 63 \<le> unat n" by (simp add: sign_magnitude)
  have "of_nat (2 ^ 64 - unat n) = (of_nat (2 ^ 64) - of_nat (unat n) :: u64)"
    using unat_u64 [of n] by (intro of_nat_diff) simp
  then have "- n = of_nat (2 ^ 64 - unat n)" by simp
  then have "unat (- n) = 2 ^ 64 - unat n"
    using n by (simp only: unat_of_nat) simp
  then show ?thesis using n unat_u64 [of n] by simp
qed

lemma positive_magnitude: "\<not> n <s 0 \<Longrightarrow> unat n < 2 ^ 63" for n :: u64
  by (simp add: sign_magnitude)

lemma reads_integer:
  assumes "lo \<le>s n" and "n \<le>s hi"
  shows "reads k (\<lambda>r. integer r lo hi) (num [] n) n"
  unfolding reads_def
proof (intro allI impI)
  fix r t assume r: "rest r = num [] n @ t" and t: "delimited t"
  consider "n = 0" | "n <s 0" | "n \<noteq> 0" "\<not> n <s 0" by blast
  then show "integer r lo hi = Inr (n, adv (length (num [] n)) r)"
  proof cases
    case 1
    then have r0: "rest r = ch CHR ''0'' # t" using r by (simp add: num_text)
    have "int_finish False lo hi 0 (adv 1 r) = Inr (n, adv 1 r)"
      using 1 assms t r0 by (intro int_finish_ok) simp_all
    then show ?thesis
      using rest_at(1) [OF r0] 1 by (simp add: integer_eq sign_def digit_def num_text)
  next
    case 2
    let ?w = "nat_digits (unat (- n))"
    have r0: "rest r = ch CHR ''-'' # ?w @ t" using r 2 by (simp add: num_text split: if_splits)
    then have at: "at r = ch CHR ''-''" "sign r = adv 1 r" using rest_at(1) by (auto simp: sign_def)
    have r1: "rest (adv 1 r) = ?w @ t" using r0 by simp
    note m = negative_magnitude [OF 2]
    note l = reads_integer_digits [OF r1 t conjunct1 [OF m] conjunct2 [OF m]]
    have "int_finish True lo hi (- n) (adv (length ?w) (adv 1 r)) = Inr (n, adv (length ?w) (adv 1 r))"
      using m assms t r0 by (intro int_finish_ok) (auto simp: word_le_nat_alt)
    with at l 2 show ?thesis by (auto simp: integer_eq num_text)
  next
    case 3
    let ?w = "nat_digits (unat n)"
    have r1: "rest r = ?w @ t" using r 3 by (simp add: num_text)
    have m: "0 < unat n" "unat n \<le> 2 ^ 63" using 3 positive_magnitude [of n] by (auto simp: unat_gt_0)
    note l = reads_integer_digits [OF r1 t m]
    then have at: "at r \<noteq> ch CHR ''-''" "sign r = r" by (auto simp: sign_def digit_def)
    have "int_finish False lo hi n (adv (length ?w) r) = Inr (n, adv (length ?w) r)"
      using positive_magnitude [OF 3(2)] assms t r1 by (intro int_finish_ok) (auto simp: word_le_nat_alt)
    with at l 3 show ?thesis by (auto simp: integer_eq num_text)
  qed
qed

lemma solid_num [simp]: "solid (num [] n)"
proof -
  have "\<not> space c" if "digit c" for c
    using that by (auto simp: digit_iff space_def)
  moreover have "0 < m \<Longrightarrow> nat_digits m \<noteq> [] \<and> digit (hd (nat_digits m))" for m
    using nat_digits_hd [of m] nat_digits_digit [of m] by (cases "nat_digits m") auto
  ultimately show ?thesis
    by (auto simp: num_text solid_def unat_gt_0 space_def)
qed

lemma literal_text: "rest r = lit w @ t \<Longrightarrow> w \<noteq> [] \<Longrightarrow> literal r w = Inr ((), adv (length w) r)"
  using length_rest [of r] by (auto simp: literal_def rest_def)

lemma reads_boolean: "reads n boolean (print d (JBool b)) b"
  unfolding reads_def
proof (intro allI impI)
  fix r t assume r: "rest r = print d (JBool b) @ t"
  show "boolean r = Inr (b, adv (length (print d (JBool b))) r)"
  proof (cases b)
    case True
    then have "rest r = lit ''true'' @ t" using r by simp
    from literal_text [OF this] rest_at(1) [of r "ch CHR ''t''" "lit ''rue'' @ t"] this True
    show ?thesis by (simp add: boolean_def lit_Cons)
  next
    case False
    then have "rest r = lit ''false'' @ t" using r by simp
    from literal_text [OF this] rest_at(1) [of r "ch CHR ''f''" "lit ''alse'' @ t"] this False
    show ?thesis by (simp add: boolean_def lit_Cons)
  qed
qed

lemma solid_bool [simp]: "solid (print d (JBool b))"
  by (simp add: solid_def lit_Cons space_def)

subsection \<open>Objects\<close>

lemma unread_rest: "unread r = length (rest r)"
  by (simp add: unread_def length_rest)

inductive reads_fields ::
    "(bytes \<Rightarrow> 's \<Rightarrow> reader \<Rightarrow> 's parsed) \<Rightarrow> nat \<Rightarrow> int \<Rightarrow> 's \<Rightarrow> (bytes \<times> json) list \<Rightarrow> 's \<Rightarrow> bool"
  for body n d where
    fields_Nil: "s = s' \<Longrightarrow> reads_fields body n d s [] s'"
  | fields_Cons: "validUTF8 k \<Longrightarrow> solid (print d j) \<Longrightarrow> reads n (body k s) (print d j) s1 \<Longrightarrow>
      reads_fields body n d s1 fs s' \<Longrightarrow> reads_fields body n d s ((k, j) # fs) s'"

inductive_cases fields_ConsE: "reads_fields body n d s ((k, j) # fs) s'"
inductive_cases fields_NilE: "reads_fields body n d s [] s'"

text \<open>The text of the members from the first name on, and the line that ends the object.\<close>

definition members_text :: "int \<Rightarrow> bytes \<Rightarrow> json \<Rightarrow> (bytes \<times> json) list \<Rightarrow> bytes" where
  "members_text d k j fs =
     quoted k @ lit '': '' @ print d j @ (if fs = [] then [] else ch CHR '','' # print_fields d fs)"

definition end_text :: "int \<Rightarrow> bytes" where
  "end_text d = ch CHR 0x0A # indent d"

lemma print_fields_Cons: "print_fields d ((k, j) # fs) = end_text d @ members_text d k j fs"
  by (simp add: members_text_def end_text_def)

lemma space_end_text: "c \<in> set (end_text d) \<Longrightarrow> space c"
  by (auto simp: end_text_def space_indent) (simp add: space_def)

lemma not_space_close: "\<not> space (ch CHR ''}'')"
  by (simp add: space_def)

lemma objectLoop_member:
  assumes r: "rest r = u @ quoted k @ lit '': '' @ w @ x" and u: "\<forall>c \<in> set u. space c"
    and k: "validUTF8 k" and w: "solid w" "reads n (body k s) w s1"
    and d: "rdepth r + int n \<le> depthLimit" and x: "delimited x"
  defines "r4 \<equiv> adv (length u + length (quoted k) + 2 + length w) r"
  shows "objectLoop body s r =
    (if at (ws r4) \<noteq> ch CHR '','' then Inr (s1, ws r4) else objectLoop body s1 (adv 1 (ws r4)))"
proof -
  let ?r1 = "adv (length u) r"
  let ?r2 = "adv (length (quoted k)) ?r1"
  let ?r3 = "adv 2 ?r2"
  have q: "quoted k = ch CHR 0x22 # concat (map esc1 k) @ [ch CHR 0x22]" by (simp add: quoted_def)
  have r1: "rest ?r1 = quoted k @ lit '': '' @ w @ x" using r by simp
  then have at1: "at ?r1 = ch CHR 0x22" using rest_at(1) by (simp add: q)
  have w1: "ws r = ?r1"
    using ws_skip [OF r u] solid_quoted [of k] by (simp add: q solid_def)
  have s: "str ?r1 = Inr (k, ?r2)" using r1 k by (rule str_quoted)
  have r2: "rest ?r2 = ch CHR '':'' # ch CHR '' '' # w @ x" using r by (simp add: lit_Cons)
  then have at2: "at ?r2 = ch CHR '':''" and w2: "ws ?r2 = ?r2"
    using rest_at(1) by (auto intro!: ws_stop simp: space_def)
  have r3: "rest ?r3 = w @ x" using r by (simp add: lit_Cons)
  have w3: "ws (adv 1 ?r2) = ?r3"
    using ws_skip [of "adv 1 ?r2" "[ch CHR '' '']" "w @ x"] r w(1)
    by (simp add: lit_Cons solid_def numeral_2_eq_2) (simp add: space_def)
  have b: "body k s ?r3 = Inr (s1, r4)"
    using readsD [OF w(2) r3 _ x] d by (simp add: r4_def add.commute add.left_commute)
  have u1: "at (ws r4) \<noteq> 0 \<Longrightarrow> unread (adv 1 (ws r4)) < unread r"
    using moves_progress [OF moves_ws, of r4] by (simp add: r4_def unread_def)
  show ?thesis
    using at1 s at2 w2 w3 b u1 by (subst objectLoop.simps) (auto simp: w1 Let_def)
qed

lemma objectLoop_text:
  assumes "reads_fields body n d s ((k, j) # fs) s'"
    and "rest r = u @ members_text d k j fs @ end_text d' @ ch CHR ''}'' # t" and "\<forall>c \<in> set u. space c"
    and "rdepth r + int n \<le> depthLimit"
  shows "objectLoop body s r =
    Inr (s', adv (length u + length (members_text d k j fs) + length (end_text d')) r)"
  using assms
proof (induction fs arbitrary: s k j r u)
  case Nil
  let ?w = "print d j"
  let ?r4 = "adv (length u + length (quoted k) + 2 + length ?w) r"
  have f: "validUTF8 k" "solid ?w" "reads n (body k s) ?w s'"
    using Nil.prems(1) by (auto elim!: fields_ConsE fields_NilE)
  have r: "rest r = u @ quoted k @ lit '': '' @ ?w @ (end_text d' @ ch CHR ''}'' # t)"
    using Nil.prems(2) by (simp add: members_text_def)
  have r4: "rest ?r4 = end_text d' @ ch CHR ''}'' # t" using r by simp
  have w: "ws ?r4 = adv (length (end_text d')) ?r4"
    using ws_skip [OF r4] space_end_text not_space_close by auto
  have "delimited (end_text d' @ ch CHR ''}'' # t)" by (simp add: delimited_def end_text_def)
  note m = objectLoop_member [where body = body and s = s and w = ?w and u = u and k = k and
      x = "end_text d' @ ch CHR ''}'' # t", OF r Nil.prems(3) f Nil.prems(4) this]
  have "rest (adv (length (end_text d')) ?r4) = ch CHR ''}'' # t" using r by (simp add: lit_Cons)
  then have at: "at (adv (length (end_text d')) ?r4) = ch CHR ''}''" by (rule rest_at(1))
  show ?case unfolding m w at by (simp add: members_text_def add.assoc)
next
  case (Cons kj fs)
  obtain k' j' where kj: "kj = (k', j')" by (cases kj)
  let ?w = "print d j"
  let ?r4 = "adv (length u + length (quoted k) + 2 + length ?w) r"
  obtain s1 where f: "validUTF8 k" "solid ?w" "reads n (body k s) ?w s1"
    and fs: "reads_fields body n d s1 ((k', j') # fs) s'"
    using Cons.prems(1) unfolding kj by (rule fields_ConsE) blast
  let ?x = "ch CHR '','' # end_text d @ members_text d k' j' fs @ end_text d' @ ch CHR ''}'' # t"
  have r: "rest r = u @ quoted k @ lit '': '' @ ?w @ ?x"
    using Cons.prems(2) unfolding members_text_def [of d k j] kj print_fields_Cons by simp
  have r4: "rest ?r4 = ?x" using r by simp
  have at: "at ?r4 = ch CHR '',''" "ws ?r4 = ?r4"
    using rest_at(1) [OF r4] r4 by (auto intro!: ws_stop simp: space_def)
  have "delimited ?x" by (simp add: delimited_def)
  note m = objectLoop_member [where body = body and s = s and w = ?w and u = u and k = k and x = ?x, OF r Cons.prems(3) f Cons.prems(4) this]
  have "objectLoop body s1 (adv 1 ?r4) = Inr (s', adv (length (end_text d)
      + length (members_text d k' j' fs) + length (end_text d')) (adv 1 ?r4))"
    using fs by (rule Cons.IH) (use r Cons.prems(4) in \<open>simp_all add: space_end_text lit_Cons numeral_3_eq_3\<close>)
  then show ?case
    using m at unfolding members_text_def [of d k j] kj print_fields_Cons
    by (simp add: add.assoc add.left_commute add.commute)
qed

lemma enter_ok: "rdepth r + 1 \<le> depthLimit \<Longrightarrow> enter r = Inr ((), r\<lparr>rdepth := rdepth r + 1\<rparr>)"
  by (simp add: enter_def)

lemma rest_depth [simp]: "rest (r\<lparr>rdepth := k\<rparr>) = rest r" "rdepth (adv m r) = rdepth r"
  "at (r\<lparr>rdepth := k\<rparr>) = at r" "adv m (r\<lparr>rdepth := k\<rparr>) = (adv m r)\<lparr>rdepth := k\<rparr>"
  by (simp_all add: rest_def at_def adv_def)

lemma leave_enter [simp]: "leave ((adv m r)\<lparr>rdepth := rdepth r + 1\<rparr>) = adv m r"
  by (simp add: leave_def adv_def)

text \<open>An object of one or more members, and the empty object.\<close>

lemma object_text:
  assumes f: "reads_fields body n (d + 1) s fs s'" and r: "rest r = print d (JObject fs) @ t"
    and d: "rdepth r + int (Suc n) \<le> depthLimit"
  shows "decodeObject body s r = Inr (s', adv (length (print d (JObject fs))) r)"
proof (cases fs)
  case Nil
  let ?r = "r\<lparr>rdepth := rdepth r + 1\<rparr>"
  have r0: "rest r = ch CHR ''{'' # ch CHR ''}'' # t" using r Nil by (simp add: lit_Cons)
  then have r1: "rest (adv 1 ?r) = ch CHR ''}'' # t" by simp
  have s: "s = s'" using f Nil by (auto elim: fields_NilE)
  have "ws (adv 1 ?r) = adv 1 ?r" using r1 not_space_close by (intro ws_stop) simp
  then show ?thesis
    using rest_at(1) [OF r0] rest_at(1) [OF r1] d Nil s
    by (simp add: decodeObject_def enter_ok Let_def numeral_2_eq_2)
next
  case (Cons kj fs')
  obtain k j where kj: "kj = (k, j)" by (cases kj)
  let ?r = "r\<lparr>rdepth := rdepth r + 1\<rparr>"
  let ?m = "members_text (d + 1) k j fs'"
  have p: "print d (JObject fs) = ch CHR ''{'' # end_text (d + 1) @ ?m @ end_text d @ [ch CHR ''}'']"
    unfolding Cons kj by (simp add: members_text_def end_text_def)
  have r0: "rest r = ch CHR ''{'' # end_text (d + 1) @ ?m @ end_text d @ ch CHR ''}'' # t"
    using r p by simp
  let ?r1 = "adv (length (end_text (d + 1))) (adv 1 ?r)"
  obtain m' where m: "?m = ch CHR 0x22 # m'" by (simp add: members_text_def quoted_def)
  then have s: "\<not> space (hd ?m)" "?m \<noteq> []" by (simp_all add: space_def)
  have w: "ws (adv 1 ?r) = ?r1"
    using ws_skip [of "adv 1 ?r" "end_text (d + 1)" "?m @ end_text d @ ch CHR ''}'' # t"] r0 s
    by (simp add: space_end_text)
  have r1: "rest ?r1 = [] @ ?m @ end_text d @ ch CHR ''}'' # t" using r0 by simp
  then have at1: "at ?r1 = ch CHR 0x22" using rest_at(1) [of ?r1 "ch CHR 0x22"] by (simp only: m append.simps)
  have l: "objectLoop body s ?r1 = Inr (s', adv (length ?m + length (end_text d)) ?r1)"
    using objectLoop_text [OF f [unfolded Cons kj] r1] d by simp
  let ?r2 = "adv (length ?m + length (end_text d)) ?r1"
  have r2: "rest ?r2 = ch CHR ''}'' # t" using r0 by simp
  have "leave (adv 1 ?r2) = adv (length (print d (JObject fs))) r"
    unfolding p by (simp add: leave_def adv_def)
  then show ?thesis
    using rest_at(1) [OF r0] at1 w l rest_at(1) [OF r2] d
    by (simp add: decodeObject_def enter_ok Let_def)
qed

lemma reads_object:
  "reads_fields body n (d + 1) s fs s' \<Longrightarrow> reads (Suc n) (decodeObject body s) (print d (JObject fs)) s'"
  unfolding reads_def by (intro allI impI object_text)

lemma solid_object [simp]: "solid (print d (JObject fs))"
  by (simp add: solid_def lit_Cons space_def)

end
