(* ===== verification/WireDecode.thy ===== *)
theory WireDecode
  imports Wire
begin

section \<open>The record decoders\<close>

text \<open>
  Models the \<open>decode\<close> methods of \<open>go/abstraction/config/rec.go\<close> and \<open>Decode\<close>. Each method is the
  shared skeleton \<open>decodeRecord\<close> applied to its \<open>switch key\<close> (\<open>X_field\<close>), its zero record
  (\<open>X_zero\<close>) and the mask of the fields it requires. Every decoder is an instance of the locale
  \<open>scanner\<close>, so it moves forward in the buffer or refuses with a declared word inside it.
\<close>

subsection \<open>Zero values\<close>

definition RunOverrides_zero :: RunOverrides where
  "RunOverrides_zero = \<lparr>RunOverrides.NasStore = [],
     RunOverrides.Store = [],
     RunOverrides.LogSink = [],
     RunOverrides.LogService = []\<rparr>"

definition Origin_zero :: Origin where
  "Origin_zero = \<lparr>Origin.Rung = [],
     Origin.Path = []\<rparr>"

definition Origins_zero :: Origins where
  "Origins_zero = \<lparr>Origins.NasStore = Origin_zero,
     Origins.Store = Origin_zero,
     Origins.LogSink = Origin_zero,
     Origins.LogService = Origin_zero,
     Origins.Off = Origin_zero\<rparr>"

definition Snapshot_zero :: Snapshot where
  "Snapshot_zero = \<lparr>Snapshot.NasStore = [],
     Snapshot.Store = [],
     Snapshot.LogSink = [],
     Snapshot.LogService = [],
     Snapshot.Off = fmempty,
     Snapshot.Origins = Origins_zero,
     Snapshot.Stamp = []\<rparr>"

definition UserSettings_zero :: UserSettings where
  "UserSettings_zero = \<lparr>UserSettings.NasStore = [],
     UserSettings.Store = [],
     UserSettings.LogSink = [],
     UserSettings.LogService = [],
     UserSettings.Off = fmempty\<rparr>"

definition UserSnapshot_zero :: UserSnapshot where
  "UserSnapshot_zero = \<lparr>UserSnapshot.Values = UserSettings_zero,
     UserSnapshot.Revision = []\<rparr>"

definition UserReplaceResult_zero :: UserReplaceResult where
  "UserReplaceResult_zero = \<lparr>UserReplaceResult.Outcome = 0,
     UserReplaceResult.Snapshot = UserSnapshot_zero\<rparr>"

definition ConfigObservation_zero :: ConfigObservation where
  "ConfigObservation_zero = \<lparr>ConfigObservation.Outcome = 0,
     ConfigObservation.Cursor = [],
     ConfigObservation.Snapshot = None\<rparr>"

definition oaConfigReaderReadArguments_zero :: oaConfigReaderReadArguments where
  "oaConfigReaderReadArguments_zero = \<lparr>oaConfigReaderReadArguments.Overrides = RunOverrides_zero\<rparr>"

definition oaConfigEditorReplaceUserArguments_zero :: oaConfigEditorReplaceUserArguments where
  "oaConfigEditorReplaceUserArguments_zero = \<lparr>oaConfigEditorReplaceUserArguments.ExpectedRevision = [],
     oaConfigEditorReplaceUserArguments.Values = UserSettings_zero\<rparr>"

definition oaConfigObserverObserveArguments_zero :: oaConfigObserverObserveArguments where
  "oaConfigObserverObserveArguments_zero = \<lparr>oaConfigObserverObserveArguments.Overrides = RunOverrides_zero,
     oaConfigObserverObserveArguments.Cursor = [],
     oaConfigObserverObserveArguments.WaitMs = 0\<rparr>"

definition oaServiceFrame_zero :: oaServiceFrame where
  "oaServiceFrame_zero = \<lparr>oaServiceFrame.Version = 0,
     oaServiceFrame.Service = [],
     oaServiceFrame.Method = [],
     oaServiceFrame.Arguments = []\<rparr>"

definition oaServiceReply_zero :: oaServiceReply where
  "oaServiceReply_zero = \<lparr>oaServiceReply.Version = 0,
     oaServiceReply.Service = [],
     oaServiceReply.Method = [],
     oaServiceReply.Ok = False,
     oaServiceReply.Payload = []\<rparr>"

definition oaServiceError_zero :: oaServiceError where
  "oaServiceError_zero = \<lparr>oaServiceError.Code = [],
     oaServiceError.Message = []\<rparr>"

definition oaConfigReaderReadResult_zero :: oaConfigReaderReadResult where
  "oaConfigReaderReadResult_zero = \<lparr>oaConfigReaderReadResult.Value = Snapshot_zero\<rparr>"

definition oaConfigEditorReadUserResult_zero :: oaConfigEditorReadUserResult where
  "oaConfigEditorReadUserResult_zero = \<lparr>oaConfigEditorReadUserResult.Value = UserSnapshot_zero\<rparr>"

definition oaConfigEditorReplaceUserResult_zero :: oaConfigEditorReplaceUserResult where
  "oaConfigEditorReplaceUserResult_zero = \<lparr>oaConfigEditorReplaceUserResult.Value = UserReplaceResult_zero\<rparr>"

definition oaConfigObserverObserveResult_zero :: oaConfigObserverObserveResult where
  "oaConfigObserverObserveResult_zero = \<lparr>oaConfigObserverObserveResult.Value = ConfigObservation_zero\<rparr>"

subsection \<open>Fields\<close>

text \<open>A field of a closed vocabulary: the word is read as a string, then looked up.\<close>

definition wordOf :: "(bytes \<Rightarrow> u32 \<times> bool) \<Rightarrow> reader \<Rightarrow> u32 parsed" where
  "wordOf parse r =
     (case str r of Inl e \<Rightarrow> Inl e | Inr (x, r) \<Rightarrow>
      (let (word, ok) = parse x in
       if \<not> ok then Inl (refuse r ''bad_enum'') else Inr (word, r)))"

lemma wordOf_forward: "wordOf parse r = Inr (w, r') \<Longrightarrow> moves 1 r r'"
  by (auto simp: wordOf_def dest!: str_scan.forward split: sum.splits prod.splits if_splits)

lemma wordOf_declared: "wordOf parse r = Inl e \<Longrightarrow> refused r e"
  by (auto simp: wordOf_def dest!: str_scan.forward str_scan.declared
      simp: refused_refuse [where n = "Suc 0"] split: sum.splits prod.splits if_splits)

interpretation wordOf_scan: scanner "wordOf parse"
  by unfold_locales (fact wordOf_forward wordOf_declared)+

definition RunOverrides_field ::
    "bytes \<Rightarrow> RunOverrides \<times> u32 \<Rightarrow> reader \<Rightarrow> (RunOverrides \<times> u32) parsed" where
  "RunOverrides_field key s r =
     (if key = lit ''nas_store'' then
        fieldOnce 1 str (\<lambda>x v. v\<lparr>RunOverrides.NasStore := x\<rparr>) s r
      else if key = lit ''store'' then
        fieldOnce 2 str (\<lambda>x v. v\<lparr>RunOverrides.Store := x\<rparr>) s r
      else if key = lit ''log_sink'' then
        fieldOnce 4 str (\<lambda>x v. v\<lparr>RunOverrides.LogSink := x\<rparr>) s r
      else if key = lit ''log_service'' then
        fieldOnce 8 str (\<lambda>x v. v\<lparr>RunOverrides.LogService := x\<rparr>) s r
      else Inl (refuse r ''unknown_field''))"

definition decodeRunOverrides :: "reader \<Rightarrow> RunOverrides parsed" where
  "decodeRunOverrides r = decodeRecord RunOverrides_field RunOverrides_zero 15 r"

interpretation RunOverrides_body: record_scanner RunOverrides_field
  by unfold_locales
    (auto simp: RunOverrides_field_def split: if_splits
      intro: str_scan.field_forward str_scan.field_declared)

interpretation decodeRunOverrides_scan: scanner decodeRunOverrides
  unfolding decodeRunOverrides_def by (rule RunOverrides_body.scan_record.scanner_axioms)

definition Origin_field ::
    "bytes \<Rightarrow> Origin \<times> u32 \<Rightarrow> reader \<Rightarrow> (Origin \<times> u32) parsed" where
  "Origin_field key s r =
     (if key = lit ''rung'' then
        fieldOnce 1 str (\<lambda>x v. v\<lparr>Origin.Rung := x\<rparr>) s r
      else if key = lit ''path'' then
        fieldOnce 2 str (\<lambda>x v. v\<lparr>Origin.Path := x\<rparr>) s r
      else Inl (refuse r ''unknown_field''))"

definition decodeOrigin :: "reader \<Rightarrow> Origin parsed" where
  "decodeOrigin r = decodeRecord Origin_field Origin_zero 3 r"

interpretation Origin_body: record_scanner Origin_field
  by unfold_locales
    (auto simp: Origin_field_def split: if_splits
      intro: str_scan.field_forward str_scan.field_declared)

interpretation decodeOrigin_scan: scanner decodeOrigin
  unfolding decodeOrigin_def by (rule Origin_body.scan_record.scanner_axioms)

definition Origins_field ::
    "bytes \<Rightarrow> Origins \<times> u32 \<Rightarrow> reader \<Rightarrow> (Origins \<times> u32) parsed" where
  "Origins_field key s r =
     (if key = lit ''nas_store'' then
        fieldOnce 1 decodeOrigin (\<lambda>x v. v\<lparr>Origins.NasStore := x\<rparr>) s r
      else if key = lit ''store'' then
        fieldOnce 2 decodeOrigin (\<lambda>x v. v\<lparr>Origins.Store := x\<rparr>) s r
      else if key = lit ''log_sink'' then
        fieldOnce 4 decodeOrigin (\<lambda>x v. v\<lparr>Origins.LogSink := x\<rparr>) s r
      else if key = lit ''log_service'' then
        fieldOnce 8 decodeOrigin (\<lambda>x v. v\<lparr>Origins.LogService := x\<rparr>) s r
      else if key = lit ''off'' then
        fieldOnce 16 decodeOrigin (\<lambda>x v. v\<lparr>Origins.Off := x\<rparr>) s r
      else Inl (refuse r ''unknown_field''))"

definition decodeOrigins :: "reader \<Rightarrow> Origins parsed" where
  "decodeOrigins r = decodeRecord Origins_field Origins_zero 31 r"

interpretation Origins_body: record_scanner Origins_field
  by unfold_locales
    (auto simp: Origins_field_def split: if_splits
      intro: decodeOrigin_scan.field_forward decodeOrigin_scan.field_declared)

interpretation decodeOrigins_scan: scanner decodeOrigins
  unfolding decodeOrigins_def by (rule Origins_body.scan_record.scanner_axioms)

definition Snapshot_field ::
    "bytes \<Rightarrow> Snapshot \<times> u32 \<Rightarrow> reader \<Rightarrow> (Snapshot \<times> u32) parsed" where
  "Snapshot_field key s r =
     (if key = lit ''nas_store'' then
        fieldOnce 1 str (\<lambda>x v. v\<lparr>Snapshot.NasStore := x\<rparr>) s r
      else if key = lit ''store'' then
        fieldOnce 2 str (\<lambda>x v. v\<lparr>Snapshot.Store := x\<rparr>) s r
      else if key = lit ''log_sink'' then
        fieldOnce 4 str (\<lambda>x v. v\<lparr>Snapshot.LogSink := x\<rparr>) s r
      else if key = lit ''log_service'' then
        fieldOnce 8 str (\<lambda>x v. v\<lparr>Snapshot.LogService := x\<rparr>) s r
      else if key = lit ''off'' then
        fieldOnce 16 strMap (\<lambda>x v. v\<lparr>Snapshot.Off := x\<rparr>) s r
      else if key = lit ''origins'' then
        fieldOnce 32 decodeOrigins (\<lambda>x v. v\<lparr>Snapshot.Origins := x\<rparr>) s r
      else if key = lit ''stamp'' then
        fieldOnce 64 str (\<lambda>x v. v\<lparr>Snapshot.Stamp := x\<rparr>) s r
      else Inl (refuse r ''unknown_field''))"

definition decodeSnapshot :: "reader \<Rightarrow> Snapshot parsed" where
  "decodeSnapshot r = decodeRecord Snapshot_field Snapshot_zero 127 r"

interpretation Snapshot_body: record_scanner Snapshot_field
  by unfold_locales
    (auto simp: Snapshot_field_def split: if_splits
      intro: str_scan.field_forward str_scan.field_declared
        strMap_scan.field_forward strMap_scan.field_declared
        decodeOrigins_scan.field_forward decodeOrigins_scan.field_declared)

interpretation decodeSnapshot_scan: scanner decodeSnapshot
  unfolding decodeSnapshot_def by (rule Snapshot_body.scan_record.scanner_axioms)

definition UserSettings_field ::
    "bytes \<Rightarrow> UserSettings \<times> u32 \<Rightarrow> reader \<Rightarrow> (UserSettings \<times> u32) parsed" where
  "UserSettings_field key s r =
     (if key = lit ''nas_store'' then
        fieldOnce 1 str (\<lambda>x v. v\<lparr>UserSettings.NasStore := x\<rparr>) s r
      else if key = lit ''store'' then
        fieldOnce 2 str (\<lambda>x v. v\<lparr>UserSettings.Store := x\<rparr>) s r
      else if key = lit ''log_sink'' then
        fieldOnce 4 str (\<lambda>x v. v\<lparr>UserSettings.LogSink := x\<rparr>) s r
      else if key = lit ''log_service'' then
        fieldOnce 8 str (\<lambda>x v. v\<lparr>UserSettings.LogService := x\<rparr>) s r
      else if key = lit ''off'' then
        fieldOnce 16 strMap (\<lambda>x v. v\<lparr>UserSettings.Off := x\<rparr>) s r
      else Inl (refuse r ''unknown_field''))"

definition decodeUserSettings :: "reader \<Rightarrow> UserSettings parsed" where
  "decodeUserSettings r = decodeRecord UserSettings_field UserSettings_zero 31 r"

interpretation UserSettings_body: record_scanner UserSettings_field
  by unfold_locales
    (auto simp: UserSettings_field_def split: if_splits
      intro: str_scan.field_forward str_scan.field_declared
        strMap_scan.field_forward strMap_scan.field_declared)

interpretation decodeUserSettings_scan: scanner decodeUserSettings
  unfolding decodeUserSettings_def by (rule UserSettings_body.scan_record.scanner_axioms)

definition UserSnapshot_field ::
    "bytes \<Rightarrow> UserSnapshot \<times> u32 \<Rightarrow> reader \<Rightarrow> (UserSnapshot \<times> u32) parsed" where
  "UserSnapshot_field key s r =
     (if key = lit ''values'' then
        fieldOnce 1 decodeUserSettings (\<lambda>x v. v\<lparr>UserSnapshot.Values := x\<rparr>) s r
      else if key = lit ''revision'' then
        fieldOnce 2 str (\<lambda>x v. v\<lparr>UserSnapshot.Revision := x\<rparr>) s r
      else Inl (refuse r ''unknown_field''))"

definition decodeUserSnapshot :: "reader \<Rightarrow> UserSnapshot parsed" where
  "decodeUserSnapshot r = decodeRecord UserSnapshot_field UserSnapshot_zero 3 r"

interpretation UserSnapshot_body: record_scanner UserSnapshot_field
  by unfold_locales
    (auto simp: UserSnapshot_field_def split: if_splits
      intro: decodeUserSettings_scan.field_forward decodeUserSettings_scan.field_declared
        str_scan.field_forward str_scan.field_declared)

interpretation decodeUserSnapshot_scan: scanner decodeUserSnapshot
  unfolding decodeUserSnapshot_def by (rule UserSnapshot_body.scan_record.scanner_axioms)

definition UserReplaceResult_field ::
    "bytes \<Rightarrow> UserReplaceResult \<times> u32 \<Rightarrow> reader \<Rightarrow> (UserReplaceResult \<times> u32) parsed" where
  "UserReplaceResult_field key s r =
     (if key = lit ''outcome'' then
        fieldOnce 1 (wordOf ParseUserReplaceOutcome) (\<lambda>x v. v\<lparr>UserReplaceResult.Outcome := x\<rparr>) s r
      else if key = lit ''snapshot'' then
        fieldOnce 2 decodeUserSnapshot (\<lambda>x v. v\<lparr>UserReplaceResult.Snapshot := x\<rparr>) s r
      else Inl (refuse r ''unknown_field''))"

definition decodeUserReplaceResult :: "reader \<Rightarrow> UserReplaceResult parsed" where
  "decodeUserReplaceResult r =
     (case decodeRecord UserReplaceResult_field UserReplaceResult_zero 3 r of Inl e \<Rightarrow> Inl e | Inr (v, r) \<Rightarrow>
      if \<not> UserReplaceOutcome_Known (UserReplaceResult.Outcome v) then Inl (refuse r ''bad_enum'') else Inr (v, r))"

interpretation UserReplaceResult_body: record_scanner UserReplaceResult_field
  by unfold_locales
    (auto simp: UserReplaceResult_field_def split: if_splits
      intro: wordOf_scan.field_forward wordOf_scan.field_declared
        decodeUserSnapshot_scan.field_forward decodeUserSnapshot_scan.field_declared)

interpretation decodeUserReplaceResult_scan: scanner decodeUserReplaceResult
  by unfold_locales
    (auto simp: decodeUserReplaceResult_def dest!: UserReplaceResult_body.scan_record.forward UserReplaceResult_body.scan_record.declared
      simp: refused_refuse [where n = "Suc 0"] split: sum.splits if_splits)

definition ConfigObservation_field ::
    "bytes \<Rightarrow> ConfigObservation \<times> u32 \<Rightarrow> reader \<Rightarrow> (ConfigObservation \<times> u32) parsed" where
  "ConfigObservation_field key s r =
     (if key = lit ''outcome'' then
        fieldOnce 1 (wordOf ParseConfigObservationOutcome) (\<lambda>x v. v\<lparr>ConfigObservation.Outcome := x\<rparr>) s r
      else if key = lit ''cursor'' then
        fieldOnce 2 str (\<lambda>x v. v\<lparr>ConfigObservation.Cursor := x\<rparr>) s r
      else if key = lit ''snapshot'' then
        fieldOnce 4 decodeSnapshot (\<lambda>x v. v\<lparr>ConfigObservation.Snapshot := Some x\<rparr>) s r
      else Inl (refuse r ''unknown_field''))"

definition decodeConfigObservation :: "reader \<Rightarrow> ConfigObservation parsed" where
  "decodeConfigObservation r =
     (case decodeRecord ConfigObservation_field ConfigObservation_zero 3 r of Inl e \<Rightarrow> Inl e | Inr (v, r) \<Rightarrow>
      if \<not> ConfigObservationOutcome_Known (ConfigObservation.Outcome v) then Inl (refuse r ''bad_enum'') else Inr (v, r))"

interpretation ConfigObservation_body: record_scanner ConfigObservation_field
  by unfold_locales
    (auto simp: ConfigObservation_field_def split: if_splits
      intro: wordOf_scan.field_forward wordOf_scan.field_declared
        str_scan.field_forward str_scan.field_declared
        decodeSnapshot_scan.field_forward decodeSnapshot_scan.field_declared)

interpretation decodeConfigObservation_scan: scanner decodeConfigObservation
  by unfold_locales
    (auto simp: decodeConfigObservation_def dest!: ConfigObservation_body.scan_record.forward ConfigObservation_body.scan_record.declared
      simp: refused_refuse [where n = "Suc 0"] split: sum.splits if_splits)

definition oaConfigReaderReadArguments_field ::
    "bytes \<Rightarrow> oaConfigReaderReadArguments \<times> u32 \<Rightarrow> reader \<Rightarrow> (oaConfigReaderReadArguments \<times> u32) parsed" where
  "oaConfigReaderReadArguments_field key s r =
     (if key = lit ''overrides'' then
        fieldOnce 1 decodeRunOverrides (\<lambda>x v. v\<lparr>oaConfigReaderReadArguments.Overrides := x\<rparr>) s r
      else Inl (refuse r ''unknown_field''))"

definition decodeOAConfigReaderReadArguments :: "reader \<Rightarrow> oaConfigReaderReadArguments parsed" where
  "decodeOAConfigReaderReadArguments r = decodeRecord oaConfigReaderReadArguments_field oaConfigReaderReadArguments_zero 1 r"

interpretation oaConfigReaderReadArguments_body: record_scanner oaConfigReaderReadArguments_field
  by unfold_locales
    (auto simp: oaConfigReaderReadArguments_field_def split: if_splits
      intro: decodeRunOverrides_scan.field_forward decodeRunOverrides_scan.field_declared)

interpretation decodeOAConfigReaderReadArguments_scan: scanner decodeOAConfigReaderReadArguments
  unfolding decodeOAConfigReaderReadArguments_def by (rule oaConfigReaderReadArguments_body.scan_record.scanner_axioms)

text \<open>A record with no field: the loop of the code refuses the first name it reads, at its colon.\<close>

definition decodeOAConfigEditorReadUserArguments :: "reader \<Rightarrow> oaConfigEditorReadUserArguments parsed" where
  "decodeOAConfigEditorReadUserArguments r =
     (if at r \<noteq> ch CHR ''{'' then Inl (refuse r ''wrong_type'')
      else (case enter r of Inl e \<Rightarrow> Inl e | Inr (_, r) \<Rightarrow>
        (let r = ws (adv 1 r) in
         if at r \<noteq> ch CHR ''}'' then
           (let r = ws r in
            if at r \<noteq> ch CHR 0x22 then Inl (refuse r ''malformed'')
            else (case str r of Inl e \<Rightarrow> Inl e | Inr (key, r) \<Rightarrow>
              (let r = ws r in
               if at r \<noteq> ch CHR '':'' then Inl (refuse r ''malformed'')
               else Inl (refuse r ''unknown_field''))))
         else Inr ((), leave (adv 1 r)))))"

definition oaConfigEditorReplaceUserArguments_field ::
    "bytes \<Rightarrow> oaConfigEditorReplaceUserArguments \<times> u32 \<Rightarrow> reader \<Rightarrow> (oaConfigEditorReplaceUserArguments \<times> u32) parsed" where
  "oaConfigEditorReplaceUserArguments_field key s r =
     (if key = lit ''expected_revision'' then
        fieldOnce 1 str (\<lambda>x v. v\<lparr>oaConfigEditorReplaceUserArguments.ExpectedRevision := x\<rparr>) s r
      else if key = lit ''values'' then
        fieldOnce 2 decodeUserSettings (\<lambda>x v. v\<lparr>oaConfigEditorReplaceUserArguments.Values := x\<rparr>) s r
      else Inl (refuse r ''unknown_field''))"

definition decodeOAConfigEditorReplaceUserArguments :: "reader \<Rightarrow> oaConfigEditorReplaceUserArguments parsed" where
  "decodeOAConfigEditorReplaceUserArguments r = decodeRecord oaConfigEditorReplaceUserArguments_field oaConfigEditorReplaceUserArguments_zero 3 r"

interpretation oaConfigEditorReplaceUserArguments_body: record_scanner oaConfigEditorReplaceUserArguments_field
  by unfold_locales
    (auto simp: oaConfigEditorReplaceUserArguments_field_def split: if_splits
      intro: str_scan.field_forward str_scan.field_declared
        decodeUserSettings_scan.field_forward decodeUserSettings_scan.field_declared)

interpretation decodeOAConfigEditorReplaceUserArguments_scan: scanner decodeOAConfigEditorReplaceUserArguments
  unfolding decodeOAConfigEditorReplaceUserArguments_def by (rule oaConfigEditorReplaceUserArguments_body.scan_record.scanner_axioms)

definition oaConfigObserverObserveArguments_field ::
    "bytes \<Rightarrow> oaConfigObserverObserveArguments \<times> u32 \<Rightarrow> reader \<Rightarrow> (oaConfigObserverObserveArguments \<times> u32) parsed" where
  "oaConfigObserverObserveArguments_field key s r =
     (if key = lit ''overrides'' then
        fieldOnce 1 decodeRunOverrides (\<lambda>x v. v\<lparr>oaConfigObserverObserveArguments.Overrides := x\<rparr>) s r
      else if key = lit ''cursor'' then
        fieldOnce 2 str (\<lambda>x v. v\<lparr>oaConfigObserverObserveArguments.Cursor := x\<rparr>) s r
      else if key = lit ''wait_ms'' then
        fieldOnce 4 (\<lambda>r. integer r (-9223372036854775808) 9223372036854775807) (\<lambda>x v. v\<lparr>oaConfigObserverObserveArguments.WaitMs := x\<rparr>) s r
      else Inl (refuse r ''unknown_field''))"

definition decodeOAConfigObserverObserveArguments :: "reader \<Rightarrow> oaConfigObserverObserveArguments parsed" where
  "decodeOAConfigObserverObserveArguments r = decodeRecord oaConfigObserverObserveArguments_field oaConfigObserverObserveArguments_zero 7 r"

interpretation oaConfigObserverObserveArguments_body: record_scanner oaConfigObserverObserveArguments_field
  by unfold_locales
    (auto simp: oaConfigObserverObserveArguments_field_def split: if_splits
      intro: decodeRunOverrides_scan.field_forward decodeRunOverrides_scan.field_declared
        str_scan.field_forward str_scan.field_declared
        integer_scan.field_forward integer_scan.field_declared)

interpretation decodeOAConfigObserverObserveArguments_scan: scanner decodeOAConfigObserverObserveArguments
  unfolding decodeOAConfigObserverObserveArguments_def by (rule oaConfigObserverObserveArguments_body.scan_record.scanner_axioms)

definition oaServiceFrame_field ::
    "bytes \<Rightarrow> oaServiceFrame \<times> u32 \<Rightarrow> reader \<Rightarrow> (oaServiceFrame \<times> u32) parsed" where
  "oaServiceFrame_field key s r =
     (if key = lit ''version'' then
        fieldOnce 1 (\<lambda>r. integer r (-2147483648) 2147483647) (\<lambda>x v. v\<lparr>oaServiceFrame.Version := ucast x\<rparr>) s r
      else if key = lit ''service'' then
        fieldOnce 2 str (\<lambda>x v. v\<lparr>oaServiceFrame.Service := x\<rparr>) s r
      else if key = lit ''method'' then
        fieldOnce 4 str (\<lambda>x v. v\<lparr>oaServiceFrame.Method := x\<rparr>) s r
      else if key = lit ''arguments'' then
        fieldOnce 8 rawValue (\<lambda>x v. v\<lparr>oaServiceFrame.Arguments := x\<rparr>) s r
      else Inl (refuse r ''unknown_field''))"

definition decodeOAServiceFrame :: "reader \<Rightarrow> oaServiceFrame parsed" where
  "decodeOAServiceFrame r = decodeRecord oaServiceFrame_field oaServiceFrame_zero 15 r"

interpretation oaServiceFrame_body: record_scanner oaServiceFrame_field
  by unfold_locales
    (auto simp: oaServiceFrame_field_def split: if_splits
      intro: integer_scan.field_forward integer_scan.field_declared
        str_scan.field_forward str_scan.field_declared
        rawValue_scan.field_forward rawValue_scan.field_declared)

interpretation decodeOAServiceFrame_scan: scanner decodeOAServiceFrame
  unfolding decodeOAServiceFrame_def by (rule oaServiceFrame_body.scan_record.scanner_axioms)

definition oaServiceReply_field ::
    "bytes \<Rightarrow> oaServiceReply \<times> u32 \<Rightarrow> reader \<Rightarrow> (oaServiceReply \<times> u32) parsed" where
  "oaServiceReply_field key s r =
     (if key = lit ''version'' then
        fieldOnce 1 (\<lambda>r. integer r (-2147483648) 2147483647) (\<lambda>x v. v\<lparr>oaServiceReply.Version := ucast x\<rparr>) s r
      else if key = lit ''service'' then
        fieldOnce 2 str (\<lambda>x v. v\<lparr>oaServiceReply.Service := x\<rparr>) s r
      else if key = lit ''method'' then
        fieldOnce 4 str (\<lambda>x v. v\<lparr>oaServiceReply.Method := x\<rparr>) s r
      else if key = lit ''ok'' then
        fieldOnce 8 boolean (\<lambda>x v. v\<lparr>oaServiceReply.Ok := x\<rparr>) s r
      else if key = lit ''payload'' then
        fieldOnce 16 rawValue (\<lambda>x v. v\<lparr>oaServiceReply.Payload := x\<rparr>) s r
      else Inl (refuse r ''unknown_field''))"

definition decodeOAServiceReply :: "reader \<Rightarrow> oaServiceReply parsed" where
  "decodeOAServiceReply r = decodeRecord oaServiceReply_field oaServiceReply_zero 31 r"

interpretation oaServiceReply_body: record_scanner oaServiceReply_field
  by unfold_locales
    (auto simp: oaServiceReply_field_def split: if_splits
      intro: integer_scan.field_forward integer_scan.field_declared
        str_scan.field_forward str_scan.field_declared
        boolean_scan.field_forward boolean_scan.field_declared
        rawValue_scan.field_forward rawValue_scan.field_declared)

interpretation decodeOAServiceReply_scan: scanner decodeOAServiceReply
  unfolding decodeOAServiceReply_def by (rule oaServiceReply_body.scan_record.scanner_axioms)

definition oaServiceError_field ::
    "bytes \<Rightarrow> oaServiceError \<times> u32 \<Rightarrow> reader \<Rightarrow> (oaServiceError \<times> u32) parsed" where
  "oaServiceError_field key s r =
     (if key = lit ''code'' then
        fieldOnce 1 str (\<lambda>x v. v\<lparr>oaServiceError.Code := x\<rparr>) s r
      else if key = lit ''message'' then
        fieldOnce 2 str (\<lambda>x v. v\<lparr>oaServiceError.Message := x\<rparr>) s r
      else Inl (refuse r ''unknown_field''))"

definition decodeOAServiceError :: "reader \<Rightarrow> oaServiceError parsed" where
  "decodeOAServiceError r = decodeRecord oaServiceError_field oaServiceError_zero 3 r"

interpretation oaServiceError_body: record_scanner oaServiceError_field
  by unfold_locales
    (auto simp: oaServiceError_field_def split: if_splits
      intro: str_scan.field_forward str_scan.field_declared)

interpretation decodeOAServiceError_scan: scanner decodeOAServiceError
  unfolding decodeOAServiceError_def by (rule oaServiceError_body.scan_record.scanner_axioms)

definition oaConfigReaderReadResult_field ::
    "bytes \<Rightarrow> oaConfigReaderReadResult \<times> u32 \<Rightarrow> reader \<Rightarrow> (oaConfigReaderReadResult \<times> u32) parsed" where
  "oaConfigReaderReadResult_field key s r =
     (if key = lit ''value'' then
        fieldOnce 1 decodeSnapshot (\<lambda>x v. v\<lparr>oaConfigReaderReadResult.Value := x\<rparr>) s r
      else Inl (refuse r ''unknown_field''))"

definition decodeOAConfigReaderReadResult :: "reader \<Rightarrow> oaConfigReaderReadResult parsed" where
  "decodeOAConfigReaderReadResult r = decodeRecord oaConfigReaderReadResult_field oaConfigReaderReadResult_zero 1 r"

interpretation oaConfigReaderReadResult_body: record_scanner oaConfigReaderReadResult_field
  by unfold_locales
    (auto simp: oaConfigReaderReadResult_field_def split: if_splits
      intro: decodeSnapshot_scan.field_forward decodeSnapshot_scan.field_declared)

interpretation decodeOAConfigReaderReadResult_scan: scanner decodeOAConfigReaderReadResult
  unfolding decodeOAConfigReaderReadResult_def by (rule oaConfigReaderReadResult_body.scan_record.scanner_axioms)

definition oaConfigEditorReadUserResult_field ::
    "bytes \<Rightarrow> oaConfigEditorReadUserResult \<times> u32 \<Rightarrow> reader \<Rightarrow> (oaConfigEditorReadUserResult \<times> u32) parsed" where
  "oaConfigEditorReadUserResult_field key s r =
     (if key = lit ''value'' then
        fieldOnce 1 decodeUserSnapshot (\<lambda>x v. v\<lparr>oaConfigEditorReadUserResult.Value := x\<rparr>) s r
      else Inl (refuse r ''unknown_field''))"

definition decodeOAConfigEditorReadUserResult :: "reader \<Rightarrow> oaConfigEditorReadUserResult parsed" where
  "decodeOAConfigEditorReadUserResult r = decodeRecord oaConfigEditorReadUserResult_field oaConfigEditorReadUserResult_zero 1 r"

interpretation oaConfigEditorReadUserResult_body: record_scanner oaConfigEditorReadUserResult_field
  by unfold_locales
    (auto simp: oaConfigEditorReadUserResult_field_def split: if_splits
      intro: decodeUserSnapshot_scan.field_forward decodeUserSnapshot_scan.field_declared)

interpretation decodeOAConfigEditorReadUserResult_scan: scanner decodeOAConfigEditorReadUserResult
  unfolding decodeOAConfigEditorReadUserResult_def by (rule oaConfigEditorReadUserResult_body.scan_record.scanner_axioms)

definition oaConfigEditorReplaceUserResult_field ::
    "bytes \<Rightarrow> oaConfigEditorReplaceUserResult \<times> u32 \<Rightarrow> reader \<Rightarrow> (oaConfigEditorReplaceUserResult \<times> u32) parsed" where
  "oaConfigEditorReplaceUserResult_field key s r =
     (if key = lit ''value'' then
        fieldOnce 1 decodeUserReplaceResult (\<lambda>x v. v\<lparr>oaConfigEditorReplaceUserResult.Value := x\<rparr>) s r
      else Inl (refuse r ''unknown_field''))"

definition decodeOAConfigEditorReplaceUserResult :: "reader \<Rightarrow> oaConfigEditorReplaceUserResult parsed" where
  "decodeOAConfigEditorReplaceUserResult r = decodeRecord oaConfigEditorReplaceUserResult_field oaConfigEditorReplaceUserResult_zero 1 r"

interpretation oaConfigEditorReplaceUserResult_body: record_scanner oaConfigEditorReplaceUserResult_field
  by unfold_locales
    (auto simp: oaConfigEditorReplaceUserResult_field_def split: if_splits
      intro: decodeUserReplaceResult_scan.field_forward decodeUserReplaceResult_scan.field_declared)

interpretation decodeOAConfigEditorReplaceUserResult_scan: scanner decodeOAConfigEditorReplaceUserResult
  unfolding decodeOAConfigEditorReplaceUserResult_def by (rule oaConfigEditorReplaceUserResult_body.scan_record.scanner_axioms)

definition oaConfigObserverObserveResult_field ::
    "bytes \<Rightarrow> oaConfigObserverObserveResult \<times> u32 \<Rightarrow> reader \<Rightarrow> (oaConfigObserverObserveResult \<times> u32) parsed" where
  "oaConfigObserverObserveResult_field key s r =
     (if key = lit ''value'' then
        fieldOnce 1 decodeConfigObservation (\<lambda>x v. v\<lparr>oaConfigObserverObserveResult.Value := x\<rparr>) s r
      else Inl (refuse r ''unknown_field''))"

definition decodeOAConfigObserverObserveResult :: "reader \<Rightarrow> oaConfigObserverObserveResult parsed" where
  "decodeOAConfigObserverObserveResult r = decodeRecord oaConfigObserverObserveResult_field oaConfigObserverObserveResult_zero 1 r"

interpretation oaConfigObserverObserveResult_body: record_scanner oaConfigObserverObserveResult_field
  by unfold_locales
    (auto simp: oaConfigObserverObserveResult_field_def split: if_splits
      intro: decodeConfigObservation_scan.field_forward decodeConfigObservation_scan.field_declared)

interpretation decodeOAConfigObserverObserveResult_scan: scanner decodeOAConfigObserverObserveResult
  unfolding decodeOAConfigObserverObserveResult_def by (rule oaConfigObserverObserveResult_body.scan_record.scanner_axioms)

subsection \<open>Decode\<close>

definition Decode :: "bytes \<Rightarrow> Refusal + Snapshot" where
  "Decode inp =
     (let r = ws \<lparr>rbuf = inp, rpos = 0, rdepth = 0\<rparr> in
      case decodeSnapshot r of Inl e \<Rightarrow> Inl e | Inr (v, r) \<Rightarrow>
        (let r = ws r in
         if rpos r < length (rbuf r) then Inl (refuse r ''trailing_bytes'') else Inr v))"

end
