(* ===== verification/Roundtrip.thy ===== *)
theory Roundtrip
  imports Reads WireDecode
begin

section \<open>Opaque values, maps and fields read back\<close>

text \<open>
  The round trip of the pieces the record decoders of \<open>go/abstraction/config/rec.go\<close> are made of:
  an opaque value is skipped as the object it is (\<open>skipContainer\<close> is shown to be the member loop
  of the record decoders with \<open>skipValue\<close> for a body), a map comes back as the map that was
  written, a field of a record comes back into its place.
\<close>

subsection \<open>Opaque values are objects decoded without a record\<close>

lemma skipItems_objectLoop: "skipItems (ch CHR ''{'') r = objectLoop (\<lambda>k s r. skipValue r) () r"
proof (induction "unread r" arbitrary: r rule: less_induct)
  case less
  let ?r1 = "ws r"
  show ?case
  proof (cases "\<exists>k r2. at ?r1 = ch CHR 0x22 \<and> str ?r1 = Inr (k, r2) \<and> at (ws r2) = ch CHR '':''")
    case False
    then show ?thesis
      by (auto simp: skipItems.simps [of _ r] objectLoop.simps [of _ _ r] skipKey_def Let_def
          split: sum.splits)
  next
    case True
    then obtain k r2 where k: "at ?r1 = ch CHR 0x22" "str ?r1 = Inr (k, r2)" "at (ws r2) = ch CHR '':''"
      by blast
    then have "skipKey ?r1 = Inr ((), ws (adv 1 (ws r2)))" by (simp add: skipKey_def Let_def)
    then show ?thesis
      using k less.hyps
      by (auto simp: skipItems.simps [of _ r] objectLoop.simps [of _ _ r] Let_def split: sum.split)
  qed
qed

lemma skipContainer_decodeObject:
  "at r = ch CHR ''{'' \<Longrightarrow> skipContainer r = decodeObject (\<lambda>k s r. skipValue r) () r"
proof -
  assume at: "at r = ch CHR ''{''"
  then have "rpos r < length (rbuf r)" by (auto simp: at_def split: if_splits)
  from skipContainer_bracketed [OF this] show ?thesis
    using at by (simp add: decodeObject_bracketed) (simp only: bracketed_def skipItems_objectLoop [simplified])
qed

text \<open>What a document needs to be skipped with \<open>n\<close> levels to spare.\<close>

function doc_ok :: "nat \<Rightarrow> json \<Rightarrow> bool" and fields_ok :: "nat \<Rightarrow> (bytes \<times> json) list \<Rightarrow> bool" where
  "doc_ok n (JString s) = validUTF8 s"
| "doc_ok n (JNumber i) = True"
| "doc_ok n (JBool b) = True"
| "doc_ok n (JRaw w) = False"
| "doc_ok n (JObject fs) = (0 < n \<and> fields_ok (n - 1) fs)"
| "fields_ok n [] = True"
| "fields_ok n ((k, j) # fs) = (validUTF8 k \<and> doc_ok n j \<and> fields_ok n fs)"
  by pat_completeness auto
termination
  by (relation "measure (\<lambda>x. case x of Inl (n, j) \<Rightarrow> size j | Inr (n, fs) \<Rightarrow> size_list (size_prod (\<lambda>x. 0) size) fs)")
    auto

lemma reads_skipString: "validUTF8 s \<Longrightarrow> reads n skipValue (quoted s) ()"
proof -
  assume "validUTF8 s"
  then have s: "reads n str (quoted s) s" by (rule reads_str)
  have "at r = ch CHR 0x22" if "rest r = quoted s @ t" for r t
    using that by (intro rest_at(1)) (simp add: quoted_def)
  then show ?thesis
    using s by (simp add: reads_def skipValue.simps skipString_def Let_def)
qed

lemma digits_run:
  "rest r = cs @ t \<Longrightarrow> \<forall>c \<in> set cs. digit c \<Longrightarrow> t = [] \<or> \<not> digit (hd t) \<Longrightarrow> digits r = adv (length cs) r"
proof (induction cs arbitrary: r)
  case Nil
  then have "\<not> digit (at r)" by (cases t) (auto dest: rest_at simp: digit_iff)
  then show ?case by (subst digits.simps) simp
next
  case (Cons c cs)
  then have "digits (adv 1 r) = adv (length cs) (adv 1 r)" by (intro Cons.IH) auto
  moreover have "digit (at r)" using Cons.prems rest_at(1) by auto
  ultimately show ?case by (subst digits.simps) simp
qed

lemma skipNumber_end: "delimited (rest r) \<Longrightarrow> skipFraction r = Inr ((), r) \<and> skipExponent r = Inr ((), r)"
  using at_delimited [of r] by (auto simp: skipFraction_def skipExponent_def)

lemma skipInteger_digits:
  assumes r: "rest r = nat_digits m @ t" and t: "delimited t" and m: "0 < m"
  shows "skipInteger r = Inr ((), adv (length (nat_digits m)) r)" "digit (at r)"
proof -
  obtain c cs where c: "nat_digits m = c # cs" using nat_digits_hd [OF m] by (cases "nat_digits m") auto
  then have at: "at r = c" using r rest_at(1) by simp
  have d: "digit c" "c \<noteq> ch CHR ''0''"
    using nat_digits_digit [of m] nat_digits_hd [OF m] c by auto
  then have "ch CHR ''1'' \<le> c \<and> c \<le> ch CHR ''9''" by (auto simp: digit_iff word_le_nat_alt word_eq_unat)
  moreover have "t = [] \<or> \<not> digit (hd t)" using t by (auto simp: delimited_def digit_def)
  from digits_run [OF r nat_digits_digit this] have "digits r = adv (length (nat_digits m)) r" .
  ultimately show "skipInteger r = Inr ((), adv (length (nat_digits m)) r)" "digit (at r)"
    using d at by (auto simp: skipInteger_def Let_def)
qed

lemma skipNumber_num:
  assumes r: "rest r = num [] i @ t" and t: "delimited t"
  shows "skipNumber r = Inr ((), adv (length (num [] i)) r)" "at r = ch CHR ''-'' \<or> digit (at r)"
proof -
  consider "i = 0" | "i <s 0" | "i \<noteq> 0" "\<not> i <s 0" by blast
  then have *: "skipNumber r = Inr ((), adv (length (num [] i)) r) \<and> (at r = ch CHR ''-'' \<or> digit (at r))"
  proof cases
    case 1
    then have r0: "rest r = ch CHR ''0'' # t" using r by (simp add: num_text)
    then have "skipFraction (adv 1 r) = Inr ((), adv 1 r)" "skipExponent (adv 1 r) = Inr ((), adv 1 r)"
      using skipNumber_end [of "adv 1 r"] t by simp_all
    then show ?thesis
      using rest_at(1) [OF r0] 1 by (simp add: skipNumber_def sign_def skipInteger_def digit_iff num_text)
  next
    case 2
    let ?w = "nat_digits (unat (- i))"
    have r0: "rest r = ch CHR ''-'' # ?w @ t" using r 2 by (simp add: num_text split: if_splits)
    then have at: "at r = ch CHR ''-''" "sign r = adv 1 r" using rest_at(1) by (auto simp: sign_def)
    have r1: "rest (adv 1 r) = ?w @ t" using r0 by simp
    note i = skipInteger_digits [OF r1 t conjunct1 [OF negative_magnitude [OF 2]]]
    have "delimited (rest (adv (length ?w) (adv 1 r)))" using r0 t by simp
    from skipNumber_end [OF this] show ?thesis
      using at i 2 by (auto simp: skipNumber_def num_text)
  next
    case 3
    let ?w = "nat_digits (unat i)"
    have r1: "rest r = ?w @ t" using r 3 by (simp add: num_text)
    have m: "0 < unat i" using 3 by (simp add: unat_gt_0)
    note i = skipInteger_digits [OF r1 t m]
    then have at: "at r \<noteq> ch CHR ''-''" "sign r = r" by (auto simp: sign_def digit_def)
    have "delimited (rest (adv (length ?w) r))" using r1 t by simp
    from skipNumber_end [OF this] show ?thesis
      using at i 3 by (auto simp: skipNumber_def num_text)
  qed
  then show "skipNumber r = Inr ((), adv (length (num [] i)) r)" "at r = ch CHR ''-'' \<or> digit (at r)"
    by simp_all
qed

lemma reads_skipNumber: "reads n skipValue (num [] i) ()"
  unfolding reads_def
proof (intro allI impI)
  fix r t assume "rest r = num [] i @ t" "delimited t"
  from skipNumber_num [OF this] show "skipValue r = Inr ((), adv (length (num [] i)) r)"
    by (auto simp: skipValue.simps [of r] Let_def digit_def word_le_nat_alt)
qed

lemma reads_skipLiteral: "reads n skipValue (print d (JBool b)) ()"
  unfolding reads_def
proof (intro allI impI)
  fix r t assume r: "rest r = print d (JBool b) @ t"
  show "skipValue r = Inr ((), adv (length (print d (JBool b))) r)"
  proof (cases b)
    case True
    then have "rest r = lit ''true'' @ t" using r by simp
    from literal_text [OF this] rest_at(1) [of r "ch CHR ''t''" "lit ''rue'' @ t"] this True
    show ?thesis by (simp add: skipValue.simps [of r] lit_Cons)
  next
    case False
    then have "rest r = lit ''false'' @ t" using r by simp
    from literal_text [OF this] rest_at(1) [of r "ch CHR ''f''" "lit ''alse'' @ t"] this False
    show ?thesis by (simp add: skipValue.simps [of r] lit_Cons)
  qed
qed

lemma doc_ok_solid: "doc_ok n j \<Longrightarrow> solid (print d j)"
  by (cases j) (simp_all del: print.simps(3,5))

lemma reads_doc:
  "doc_ok n j \<Longrightarrow> reads n skipValue (print d j) ()"
  "fields_ok n fs \<Longrightarrow> reads_fields (\<lambda>k s r. skipValue r) n d () fs ()"
proof (induction n j and n fs arbitrary: d and d rule: doc_ok_fields_ok.induct)
  case (5 n fs)
  then obtain m where n: "n = Suc m" by (cases n) auto
  from 5 have "reads_fields (\<lambda>k s r. skipValue r) m (d + 1) () fs ()" by (simp add: n)
  then have o: "reads n (decodeObject (\<lambda>k s r. skipValue r) ()) (print d (JObject fs)) ()"
    unfolding n by (rule reads_object)
  have at: "at r = ch CHR ''{''" if "rest r = print d (JObject fs) @ t" for r t
    using that by (intro rest_at(1) [where t = "tl (print d (JObject fs)) @ t"]) (simp add: lit_Cons)
  show ?case
    unfolding reads_def
  proof (intro allI impI)
    fix r t
    assume r: "rest r = print d (JObject fs) @ t" "rdepth r + int n \<le> depthLimit" "delimited t"
    have "skipValue r = skipContainer r" using at [OF r(1)] by (simp add: skipValue.simps [of r])
    then show "skipValue r = Inr ((), adv (length (print d (JObject fs))) r)"
      using skipContainer_decodeObject [OF at [OF r(1)]] readsD [OF o r] by simp
  qed
next
  case (7 n k j fs)
  then show ?case by (auto intro!: fields_Cons fields_Nil doc_ok_solid)
qed (auto simp: reads_skipString reads_skipNumber reads_skipLiteral simp del: print.simps(3) intro: fields_Nil)

lemma reads_raw: "reads n skipValue w () \<Longrightarrow> reads n rawValue w w"
proof -
  assume w: "reads n skipValue w ()"
  have "take (length w) (rest r) = w" if "rest r = w @ t" for r t using that by simp
  with w show ?thesis by (auto simp: reads_def rawValue_def rest_def)
qed

lemma reads_rawDoc: "doc_ok n j \<Longrightarrow> reads n rawValue (print d j) (print d j)"
  by (intro reads_raw reads_doc)

subsection \<open>Maps of strings\<close>

definition valid_map :: "bytes gomap \<Rightarrow> bool" where
  "valid_map m = fmpred (\<lambda>k v. validUTF8 k \<and> validUTF8 v) m"

lemma valid_map_empty [simp]: "valid_map fmempty"
  by (simp add: valid_map_def)

lemma valid_map_upd [simp]: "validUTF8 k \<Longrightarrow> validUTF8 v \<Longrightarrow> valid_map m \<Longrightarrow> valid_map (fmupd k v m)"
  by (auto simp: valid_map_def intro: fmpred_upd)

lemma reads_strMap_member: "validUTF8 v \<Longrightarrow> reads n (strMap_member k m) (quoted v) (fmupd k v m)"
  by (auto simp: reads_def strMap_member_def str_quoted)

lemma reads_strMap_fields:
  "\<forall>k \<in> set ks. validUTF8 k \<and> validUTF8 (mget m k) \<Longrightarrow>
   reads_fields strMap_member n d m0 (map (\<lambda>k. (k, JString (mget m k))) ks)
     (fold (\<lambda>k a. fmupd k (mget m k) a) ks m0)"
  by (induction ks arbitrary: m0) (auto intro!: fields_Nil fields_Cons intro: reads_strMap_member)

lemma fold_fmupd:
  "fmlookup (fold (\<lambda>k a. fmupd k (mget m k) a) ks m0) x =
     (if x \<in> set ks then Some (mget m x) else fmlookup m0 x)"
  by (induction ks arbitrary: m0) auto

lemma fold_fmupd_self: "set ks = fmdom' m \<Longrightarrow> fold (\<lambda>k a. fmupd k (mget m k) a) ks fmempty = m"
  by (rule fmap_ext, subst fold_fmupd) (auto simp: mget_def fmlookup_dom'_iff split: option.split)

lemma reads_strMap: "valid_map m \<Longrightarrow> reads (Suc n) strMap (print d (JObject (strmap_fields m))) m"
proof -
  assume m: "valid_map m"
  have "\<forall>k \<in> set (sortedKeys m). validUTF8 k \<and> validUTF8 (mget m k)"
    using m by (auto simp: valid_map_def mget_def fmlookup_dom'_iff dest!: fmpredD)
  from reads_object [OF reads_strMap_fields [OF this, of n "d + 1" fmempty]] show ?thesis
    unfolding strMap_def [abs_def] strmap_fields_def by (simp add: fold_fmupd_self del: print.simps)
qed

subsection \<open>Fields of a record\<close>

lemma reads_once:
  "seen AND flag = 0 \<Longrightarrow> reads n scan w x \<Longrightarrow>
   reads n (fieldOnce flag scan store (v, seen)) w (store x v, seen OR flag)"
  by (simp add: reads_def fieldOnce_def)

text \<open>One field of a record: what its \<open>switch key\<close> does for the name, then the fields behind it.\<close>

definition on_key ::
    "(bytes \<Rightarrow> 'v \<times> u32 \<Rightarrow> reader \<Rightarrow> ('v \<times> u32) parsed) \<Rightarrow> bytes \<Rightarrow>
      u32 \<Rightarrow> (reader \<Rightarrow> 'a parsed) \<Rightarrow> ('a \<Rightarrow> 'v \<Rightarrow> 'v) \<Rightarrow> bool" where
  "on_key body k flag scan store \<longleftrightarrow> body k = fieldOnce flag scan store"

lemma fields_once:
  "on_key body k flag scan store \<Longrightarrow> validUTF8 k \<Longrightarrow> seen AND flag = 0 \<Longrightarrow> solid (print d j) \<Longrightarrow>
   reads n scan (print d j) x \<Longrightarrow> reads_fields body n d (store x v, seen OR flag) fs s' \<Longrightarrow>
   reads_fields body n d (v, seen) ((k, j) # fs) s'"
  by (rule fields_Cons) (auto simp: on_key_def intro: reads_once)

lemma reads_record:
  "reads_fields body n (d + 1) (v0, 0) fs (v, seen) \<Longrightarrow> seen AND need = need \<Longrightarrow> N = Suc n \<Longrightarrow>
   reads N (decodeRecord body v0 need) (print d (JObject fs)) v"
  using reads_object [of body n d "(v0, 0)" fs "(v, seen)"] by (auto simp: reads_def decodeRecord_def)

lemma reads_wordOf:
  "parse w = (v, True) \<Longrightarrow> validUTF8 w \<Longrightarrow> reads n (wordOf parse) (quoted w) v"
  by (simp add: reads_def wordOf_def str_quoted)

definition ascii :: "bytes \<Rightarrow> bool" where
  "ascii s = list_all (\<lambda>c. c < 0x80) s"

lemma ascii_valid: "ascii s \<Longrightarrow> validUTF8 s"
proof -
  have "ascii s \<Longrightarrow> utf8_text s"
  proof (induction s)
    case (Cons c s)
    then have "scalar (unat c)" "utf8 (unat c) = [c]"
      by (auto simp: ascii_def scalar_def utf8_def word_less_nat_alt)
    with Cons utf8_text_Cons [of "unat c" s] show ?case by (simp add: ascii_def)
  qed simp
  then show "ascii s \<Longrightarrow> validUTF8 s" by (simp add: validUTF8_iff)
qed

lemma ascii_lit: "ascii (lit s) = list_all (\<lambda>c. (of_char c :: byte) < 0x80) s"
  by (simp add: ascii_def lit_def list_all_iff)

lemma lit_valid: "list_all (\<lambda>c. (of_char c :: byte) < 0x80) s \<Longrightarrow> validUTF8 (lit s)"
  by (simp add: ascii_valid ascii_lit)

lemma reads_strMap1: "valid_map m \<Longrightarrow> 0 < n \<Longrightarrow> reads n strMap (print d (JObject (strmap_fields m))) m"
  by (cases n) (simp_all add: reads_strMap del: print.simps)

lemma reads_int64: "reads k (\<lambda>r. integer r (- 9223372036854775808) 9223372036854775807) (num [] n) n"
proof (rule reads_integer)
  show "- 9223372036854775808 \<le>s n" "n \<le>s 9223372036854775807"
    using sint_ge [of n] sint_lt [of n] by (simp_all add: word_sle_eq)
qed

lemma reads_int32:
  "reads k (\<lambda>r. integer r (- 2147483648) 2147483647) (num [] (scast v)) (scast (v :: u32))"
proof (rule reads_integer)
  have "sint (scast v :: u64) = sint v" by (simp add: signed_scast_eq sint_uint [of v] signed_take_bit_signed_take_bit)
  then show "- 2147483648 \<le>s (scast v :: u64)" "(scast v :: u64) \<le>s 2147483647"
    using sint_ge [of v] sint_lt [of v] by (simp_all add: word_sle_eq)
qed

lemma ucast_scast [simp]: "ucast (scast (v :: u32) :: u64) = v"
  by (rule bit_word_eqI) (auto simp: bit_simps)

definition valid_raw :: "bytes \<Rightarrow> bool" where
  "valid_raw w \<longleftrightarrow> solid w \<and> reads 63 rawValue w w"

lemma reads_valid_raw: "valid_raw w \<Longrightarrow> reads 63 rawValue w w"
  by (simp add: valid_raw_def)

lemma valid_rawDoc: "doc_ok n j \<Longrightarrow> n \<le> 63 \<Longrightarrow> valid_raw (print d j)"
  by (auto simp: valid_raw_def doc_ok_solid intro: reads_weaken [OF reads_rawDoc])

text \<open>The same contracts on the documents the fields stand for.\<close>

lemma reads_JString: "validUTF8 s \<Longrightarrow> reads n str (print d (JString s)) s"
  by (simp add: reads_str)

lemma reads_JInt32:
  "reads n (\<lambda>r. integer r (- 2147483648) 2147483647) (print d (JNumber (scast v))) (scast (v :: u32))"
  by (simp add: reads_int32)

lemma reads_JInt64:
  "reads n (\<lambda>r. integer r (- 9223372036854775808) 9223372036854775807) (print d (JNumber v)) v"
  by (simp add: reads_int64)

lemma reads_JRaw: "valid_raw w \<Longrightarrow> reads 63 rawValue (print d (JRaw w)) w"
  by (simp add: reads_valid_raw)

lemma solid_raw [simp]: "valid_raw w \<Longrightarrow> solid w"
  by (simp add: valid_raw_def)

lemma UserReplaceOutcome_String_valid: "validUTF8 (UserReplaceOutcome_String v)"
  by (simp add: UserReplaceOutcome_String_def UserReplaceOutcome_WireName_def lit_valid)

lemma reads_UserReplaceOutcome:
  "UserReplaceOutcome_Known v \<Longrightarrow>
   reads n (wordOf ParseUserReplaceOutcome) (print d (JString (UserReplaceOutcome_String v))) v"
  by (simp add: UserReplaceOutcome_Parse_String UserReplaceOutcome_String_valid reads_wordOf)

lemma ConfigObservationOutcome_String_valid: "validUTF8 (ConfigObservationOutcome_String v)"
  by (simp add: ConfigObservationOutcome_String_def ConfigObservationOutcome_WireName_def lit_valid)

lemma reads_ConfigObservationOutcome:
  "ConfigObservationOutcome_Known v \<Longrightarrow>
   reads n (wordOf ParseConfigObservationOutcome) (print d (JString (ConfigObservationOutcome_String v))) v"
  by (simp add: ConfigObservationOutcome_Parse_String ConfigObservationOutcome_String_valid reads_wordOf)

end
