(* ===== verification/Records.thy ===== *)
theory Records
  imports Roundtrip
begin

section \<open>Every record reads back\<close>

text \<open>
  The round trip of each record of \<open>go/abstraction/config/rec.go\<close>: the decoder placed in front of
  what the encoder wrote returns the record that was encoded. The only condition on a record is
  that its strings are UTF-8 and its outcome is a member (\<open>valid_X\<close>), which is what the decoders
  themselves insist on. Each record needs its own depth of nesting, the numeral of \<open>reads\<close>.
\<close>

subsection \<open>RunOverrides\<close>

lemma RunOverrides_switch:
  "on_key RunOverrides_field (lit ''nas_store'') 1 str (\<lambda>x v. v\<lparr>RunOverrides.NasStore := x\<rparr>)"
  "on_key RunOverrides_field (lit ''store'') 2 str (\<lambda>x v. v\<lparr>RunOverrides.Store := x\<rparr>)"
  "on_key RunOverrides_field (lit ''log_sink'') 4 str (\<lambda>x v. v\<lparr>RunOverrides.LogSink := x\<rparr>)"
  "on_key RunOverrides_field (lit ''log_service'') 8 str (\<lambda>x v. v\<lparr>RunOverrides.LogService := x\<rparr>)"
  by (simp_all add: on_key_def RunOverrides_field_def fun_eq_iff)

definition valid_RunOverrides :: "RunOverrides \<Rightarrow> bool" where
  "valid_RunOverrides v \<longleftrightarrow>
     validUTF8 (RunOverrides.NasStore v) \<and>
     validUTF8 (RunOverrides.Store v) \<and>
     validUTF8 (RunOverrides.LogSink v) \<and>
     validUTF8 (RunOverrides.LogService v)"

lemma solid_RunOverrides_json [simp]: "solid (print d (RunOverrides_json v))"
  unfolding RunOverrides_json_def by (rule solid_object)

lemma reads_RunOverrides:
  "valid_RunOverrides v \<Longrightarrow> reads 1 decodeRunOverrides (print d (RunOverrides_json v)) v"
  unfolding decodeRunOverrides_def [abs_def] RunOverrides_json_def
  by (cases v, hypsubst,
      intro reads_record [where n = 0 and N = 1 and seen = 15] fields_Nil
        fields_once [OF RunOverrides_switch(1)]
        fields_once [OF RunOverrides_switch(2)]
        fields_once [OF RunOverrides_switch(3)]
        fields_once [OF RunOverrides_switch(4)])
    (simp_all add: reads_str
      lit_valid valid_RunOverrides_def RunOverrides_zero_def del: print.simps(3,5))

subsection \<open>Origin\<close>

lemma Origin_switch:
  "on_key Origin_field (lit ''rung'') 1 str (\<lambda>x v. v\<lparr>Origin.Rung := x\<rparr>)"
  "on_key Origin_field (lit ''path'') 2 str (\<lambda>x v. v\<lparr>Origin.Path := x\<rparr>)"
  by (simp_all add: on_key_def Origin_field_def fun_eq_iff)

definition valid_Origin :: "Origin \<Rightarrow> bool" where
  "valid_Origin v \<longleftrightarrow>
     validUTF8 (Origin.Rung v) \<and>
     validUTF8 (Origin.Path v)"

lemma solid_Origin_json [simp]: "solid (print d (Origin_json v))"
  unfolding Origin_json_def by (rule solid_object)

lemma reads_Origin:
  "valid_Origin v \<Longrightarrow> reads 1 decodeOrigin (print d (Origin_json v)) v"
  unfolding decodeOrigin_def [abs_def] Origin_json_def
  by (cases v, hypsubst,
      intro reads_record [where n = 0 and N = 1 and seen = 3] fields_Nil
        fields_once [OF Origin_switch(1)]
        fields_once [OF Origin_switch(2)])
    (simp_all add: reads_str
      lit_valid valid_Origin_def Origin_zero_def del: print.simps(3,5))

subsection \<open>Origins\<close>

lemma Origins_switch:
  "on_key Origins_field (lit ''nas_store'') 1 decodeOrigin (\<lambda>x v. v\<lparr>Origins.NasStore := x\<rparr>)"
  "on_key Origins_field (lit ''store'') 2 decodeOrigin (\<lambda>x v. v\<lparr>Origins.Store := x\<rparr>)"
  "on_key Origins_field (lit ''log_sink'') 4 decodeOrigin (\<lambda>x v. v\<lparr>Origins.LogSink := x\<rparr>)"
  "on_key Origins_field (lit ''log_service'') 8 decodeOrigin (\<lambda>x v. v\<lparr>Origins.LogService := x\<rparr>)"
  "on_key Origins_field (lit ''off'') 16 decodeOrigin (\<lambda>x v. v\<lparr>Origins.Off := x\<rparr>)"
  by (simp_all add: on_key_def Origins_field_def fun_eq_iff)

definition valid_Origins :: "Origins \<Rightarrow> bool" where
  "valid_Origins v \<longleftrightarrow>
     valid_Origin (Origins.NasStore v) \<and>
     valid_Origin (Origins.Store v) \<and>
     valid_Origin (Origins.LogSink v) \<and>
     valid_Origin (Origins.LogService v) \<and>
     valid_Origin (Origins.Off v)"

lemma solid_Origins_json [simp]: "solid (print d (Origins_json v))"
  unfolding Origins_json_def by (rule solid_object)

lemma reads_Origins:
  "valid_Origins v \<Longrightarrow> reads 2 decodeOrigins (print d (Origins_json v)) v"
  unfolding decodeOrigins_def [abs_def] Origins_json_def
  by (cases v, hypsubst,
      intro reads_record [where n = 1 and N = 2 and seen = 31] fields_Nil
        fields_once [OF Origins_switch(1)]
        fields_once [OF Origins_switch(2)]
        fields_once [OF Origins_switch(3)]
        fields_once [OF Origins_switch(4)]
        fields_once [OF Origins_switch(5)])
    (simp_all add: reads_weaken [OF reads_Origin]
      lit_valid valid_Origins_def Origins_zero_def del: print.simps(3,5))

subsection \<open>Snapshot\<close>

lemma Snapshot_switch:
  "on_key Snapshot_field (lit ''nas_store'') 1 str (\<lambda>x v. v\<lparr>Snapshot.NasStore := x\<rparr>)"
  "on_key Snapshot_field (lit ''store'') 2 str (\<lambda>x v. v\<lparr>Snapshot.Store := x\<rparr>)"
  "on_key Snapshot_field (lit ''log_sink'') 4 str (\<lambda>x v. v\<lparr>Snapshot.LogSink := x\<rparr>)"
  "on_key Snapshot_field (lit ''log_service'') 8 str (\<lambda>x v. v\<lparr>Snapshot.LogService := x\<rparr>)"
  "on_key Snapshot_field (lit ''off'') 16 strMap (\<lambda>x v. v\<lparr>Snapshot.Off := x\<rparr>)"
  "on_key Snapshot_field (lit ''origins'') 32 decodeOrigins (\<lambda>x v. v\<lparr>Snapshot.Origins := x\<rparr>)"
  "on_key Snapshot_field (lit ''stamp'') 64 str (\<lambda>x v. v\<lparr>Snapshot.Stamp := x\<rparr>)"
  by (simp_all add: on_key_def Snapshot_field_def fun_eq_iff)

definition valid_Snapshot :: "Snapshot \<Rightarrow> bool" where
  "valid_Snapshot v \<longleftrightarrow>
     validUTF8 (Snapshot.NasStore v) \<and>
     validUTF8 (Snapshot.Store v) \<and>
     validUTF8 (Snapshot.LogSink v) \<and>
     validUTF8 (Snapshot.LogService v) \<and>
     valid_map (Snapshot.Off v) \<and>
     valid_Origins (Snapshot.Origins v) \<and>
     validUTF8 (Snapshot.Stamp v)"

lemma solid_Snapshot_json [simp]: "solid (print d (Snapshot_json v))"
  unfolding Snapshot_json_def by (rule solid_object)

lemma reads_Snapshot:
  "valid_Snapshot v \<Longrightarrow> reads 3 decodeSnapshot (print d (Snapshot_json v)) v"
  unfolding decodeSnapshot_def [abs_def] Snapshot_json_def
  by (cases v, hypsubst,
      intro reads_record [where n = 2 and N = 3 and seen = 127] fields_Nil
        fields_once [OF Snapshot_switch(1)]
        fields_once [OF Snapshot_switch(2)]
        fields_once [OF Snapshot_switch(3)]
        fields_once [OF Snapshot_switch(4)]
        fields_once [OF Snapshot_switch(5)]
        fields_once [OF Snapshot_switch(6)]
        fields_once [OF Snapshot_switch(7)])
    (simp_all add: reads_str reads_strMap1 reads_weaken [OF reads_Origins]
      lit_valid valid_Snapshot_def Snapshot_zero_def del: print.simps(3,5))

subsection \<open>UserSettings\<close>

lemma UserSettings_switch:
  "on_key UserSettings_field (lit ''nas_store'') 1 str (\<lambda>x v. v\<lparr>UserSettings.NasStore := x\<rparr>)"
  "on_key UserSettings_field (lit ''store'') 2 str (\<lambda>x v. v\<lparr>UserSettings.Store := x\<rparr>)"
  "on_key UserSettings_field (lit ''log_sink'') 4 str (\<lambda>x v. v\<lparr>UserSettings.LogSink := x\<rparr>)"
  "on_key UserSettings_field (lit ''log_service'') 8 str (\<lambda>x v. v\<lparr>UserSettings.LogService := x\<rparr>)"
  "on_key UserSettings_field (lit ''off'') 16 strMap (\<lambda>x v. v\<lparr>UserSettings.Off := x\<rparr>)"
  by (simp_all add: on_key_def UserSettings_field_def fun_eq_iff)

definition valid_UserSettings :: "UserSettings \<Rightarrow> bool" where
  "valid_UserSettings v \<longleftrightarrow>
     validUTF8 (UserSettings.NasStore v) \<and>
     validUTF8 (UserSettings.Store v) \<and>
     validUTF8 (UserSettings.LogSink v) \<and>
     validUTF8 (UserSettings.LogService v) \<and>
     valid_map (UserSettings.Off v)"

lemma solid_UserSettings_json [simp]: "solid (print d (UserSettings_json v))"
  unfolding UserSettings_json_def by (rule solid_object)

lemma reads_UserSettings:
  "valid_UserSettings v \<Longrightarrow> reads 2 decodeUserSettings (print d (UserSettings_json v)) v"
  unfolding decodeUserSettings_def [abs_def] UserSettings_json_def
  by (cases v, hypsubst,
      intro reads_record [where n = 1 and N = 2 and seen = 31] fields_Nil
        fields_once [OF UserSettings_switch(1)]
        fields_once [OF UserSettings_switch(2)]
        fields_once [OF UserSettings_switch(3)]
        fields_once [OF UserSettings_switch(4)]
        fields_once [OF UserSettings_switch(5)])
    (simp_all add: reads_str reads_strMap1
      lit_valid valid_UserSettings_def UserSettings_zero_def del: print.simps(3,5))

subsection \<open>UserSnapshot\<close>

lemma UserSnapshot_switch:
  "on_key UserSnapshot_field (lit ''values'') 1 decodeUserSettings (\<lambda>x v. v\<lparr>UserSnapshot.Values := x\<rparr>)"
  "on_key UserSnapshot_field (lit ''revision'') 2 str (\<lambda>x v. v\<lparr>UserSnapshot.Revision := x\<rparr>)"
  by (simp_all add: on_key_def UserSnapshot_field_def fun_eq_iff)

definition valid_UserSnapshot :: "UserSnapshot \<Rightarrow> bool" where
  "valid_UserSnapshot v \<longleftrightarrow>
     valid_UserSettings (UserSnapshot.Values v) \<and>
     validUTF8 (UserSnapshot.Revision v)"

lemma solid_UserSnapshot_json [simp]: "solid (print d (UserSnapshot_json v))"
  unfolding UserSnapshot_json_def by (rule solid_object)

lemma reads_UserSnapshot:
  "valid_UserSnapshot v \<Longrightarrow> reads 3 decodeUserSnapshot (print d (UserSnapshot_json v)) v"
  unfolding decodeUserSnapshot_def [abs_def] UserSnapshot_json_def
  by (cases v, hypsubst,
      intro reads_record [where n = 2 and N = 3 and seen = 3] fields_Nil
        fields_once [OF UserSnapshot_switch(1)]
        fields_once [OF UserSnapshot_switch(2)])
    (simp_all add: reads_str reads_weaken [OF reads_UserSettings]
      lit_valid valid_UserSnapshot_def UserSnapshot_zero_def del: print.simps(3,5))

subsection \<open>UserReplaceResult\<close>

lemma UserReplaceResult_switch:
  "on_key UserReplaceResult_field (lit ''outcome'') 1 (wordOf ParseUserReplaceOutcome) (\<lambda>x v. v\<lparr>UserReplaceResult.Outcome := x\<rparr>)"
  "on_key UserReplaceResult_field (lit ''snapshot'') 2 decodeUserSnapshot (\<lambda>x v. v\<lparr>UserReplaceResult.Snapshot := x\<rparr>)"
  by (simp_all add: on_key_def UserReplaceResult_field_def fun_eq_iff)

definition valid_UserReplaceResult :: "UserReplaceResult \<Rightarrow> bool" where
  "valid_UserReplaceResult v \<longleftrightarrow>
     UserReplaceOutcome_Known (UserReplaceResult.Outcome v) \<and>
     valid_UserSnapshot (UserReplaceResult.Snapshot v)"

lemma solid_UserReplaceResult_json [simp]: "solid (print d (UserReplaceResult_json v))"
  unfolding UserReplaceResult_json_def by (rule solid_object)

lemma reads_UserReplaceResult_fields:
  "valid_UserReplaceResult v \<Longrightarrow> reads 4 (decodeRecord UserReplaceResult_field UserReplaceResult_zero 3) (print d (UserReplaceResult_json v)) v"
  unfolding UserReplaceResult_json_def
  by (cases v, hypsubst,
      intro reads_record [where n = 3 and N = 4 and seen = 3] fields_Nil
        fields_once [OF UserReplaceResult_switch(1)]
        fields_once [OF UserReplaceResult_switch(2)])
    (simp_all add: reads_weaken [OF reads_UserSnapshot] reads_UserReplaceOutcome [simplified]
      lit_valid valid_UserReplaceResult_def UserReplaceResult_zero_def del: print.simps(3,5))

lemma reads_UserReplaceResult:
  "valid_UserReplaceResult v \<Longrightarrow> reads 4 decodeUserReplaceResult (print d (UserReplaceResult_json v)) v"
  using reads_UserReplaceResult_fields [of v d] by (auto simp: reads_def decodeUserReplaceResult_def valid_UserReplaceResult_def simp del: print.simps)

subsection \<open>ConfigObservation\<close>

lemma ConfigObservation_switch:
  "on_key ConfigObservation_field (lit ''outcome'') 1 (wordOf ParseConfigObservationOutcome) (\<lambda>x v. v\<lparr>ConfigObservation.Outcome := x\<rparr>)"
  "on_key ConfigObservation_field (lit ''cursor'') 2 str (\<lambda>x v. v\<lparr>ConfigObservation.Cursor := x\<rparr>)"
  "on_key ConfigObservation_field (lit ''snapshot'') 4 decodeSnapshot (\<lambda>x v. v\<lparr>ConfigObservation.Snapshot := Some x\<rparr>)"
  by (simp_all add: on_key_def ConfigObservation_field_def fun_eq_iff)

definition valid_ConfigObservation :: "ConfigObservation \<Rightarrow> bool" where
  "valid_ConfigObservation v \<longleftrightarrow>
     ConfigObservationOutcome_Known (ConfigObservation.Outcome v) \<and>
     validUTF8 (ConfigObservation.Cursor v) \<and>
     pred_option valid_Snapshot (ConfigObservation.Snapshot v)"

lemma solid_ConfigObservation_json [simp]: "solid (print d (ConfigObservation_json v))"
  unfolding ConfigObservation_json_def by (rule solid_object)

lemma reads_ConfigObservation_fields:
  "valid_ConfigObservation v \<Longrightarrow> reads 4 (decodeRecord ConfigObservation_field ConfigObservation_zero 3) (print d (ConfigObservation_json v)) v"
proof (cases "ConfigObservation.Snapshot v")
  case None
  assume "valid_ConfigObservation v"
  with None show ?thesis
    unfolding ConfigObservation_json_def
    by (cases v, simp only: option.case append_Nil2 ConfigObservation.simps,
      intro reads_record [where n = 3 and N = 4 and seen = 3] fields_Nil
            fields_once [OF ConfigObservation_switch(1)]
            fields_once [OF ConfigObservation_switch(2)])
        (simp_all add: reads_str reads_weaken [OF reads_Snapshot] reads_ConfigObservationOutcome [simplified]
          lit_valid valid_ConfigObservation_def ConfigObservation_zero_def del: print.simps(3,5))
next
  case (Some s)
  assume "valid_ConfigObservation v"
  with Some show ?thesis
    unfolding ConfigObservation_json_def
    by (cases v, simp only: option.case append.simps ConfigObservation.simps,
      intro reads_record [where n = 3 and N = 4 and seen = 7] fields_Nil
            fields_once [OF ConfigObservation_switch(1)]
            fields_once [OF ConfigObservation_switch(2)]
            fields_once [OF ConfigObservation_switch(3)])
        (simp_all add: reads_str reads_weaken [OF reads_Snapshot] reads_ConfigObservationOutcome [simplified]
          lit_valid valid_ConfigObservation_def ConfigObservation_zero_def del: print.simps(3,5))
qed

lemma reads_ConfigObservation:
  "valid_ConfigObservation v \<Longrightarrow> reads 4 decodeConfigObservation (print d (ConfigObservation_json v)) v"
  using reads_ConfigObservation_fields [of v d] by (auto simp: reads_def decodeConfigObservation_def valid_ConfigObservation_def simp del: print.simps)

subsection \<open>oaConfigReaderReadArguments\<close>

lemma oaConfigReaderReadArguments_switch:
  "on_key oaConfigReaderReadArguments_field (lit ''overrides'') 1 decodeRunOverrides (\<lambda>x v. v\<lparr>oaConfigReaderReadArguments.Overrides := x\<rparr>)"
  by (simp_all add: on_key_def oaConfigReaderReadArguments_field_def fun_eq_iff)

definition valid_oaConfigReaderReadArguments :: "oaConfigReaderReadArguments \<Rightarrow> bool" where
  "valid_oaConfigReaderReadArguments v \<longleftrightarrow>
     valid_RunOverrides (oaConfigReaderReadArguments.Overrides v)"

lemma solid_OAConfigReaderReadArguments_json [simp]: "solid (print d (OAConfigReaderReadArguments_json v))"
  unfolding OAConfigReaderReadArguments_json_def by (rule solid_object)

lemma reads_oaConfigReaderReadArguments:
  "valid_oaConfigReaderReadArguments v \<Longrightarrow> reads 2 decodeOAConfigReaderReadArguments (print d (OAConfigReaderReadArguments_json v)) v"
  unfolding decodeOAConfigReaderReadArguments_def [abs_def] OAConfigReaderReadArguments_json_def
  by (cases v, hypsubst,
      intro reads_record [where n = 1 and N = 2 and seen = 1] fields_Nil
        fields_once [OF oaConfigReaderReadArguments_switch(1)])
    (simp_all add: reads_weaken [OF reads_RunOverrides]
      lit_valid valid_oaConfigReaderReadArguments_def oaConfigReaderReadArguments_zero_def del: print.simps(3,5))

subsection \<open>oaConfigEditorReplaceUserArguments\<close>

lemma oaConfigEditorReplaceUserArguments_switch:
  "on_key oaConfigEditorReplaceUserArguments_field (lit ''expected_revision'') 1 str (\<lambda>x v. v\<lparr>oaConfigEditorReplaceUserArguments.ExpectedRevision := x\<rparr>)"
  "on_key oaConfigEditorReplaceUserArguments_field (lit ''values'') 2 decodeUserSettings (\<lambda>x v. v\<lparr>oaConfigEditorReplaceUserArguments.Values := x\<rparr>)"
  by (simp_all add: on_key_def oaConfigEditorReplaceUserArguments_field_def fun_eq_iff)

definition valid_oaConfigEditorReplaceUserArguments :: "oaConfigEditorReplaceUserArguments \<Rightarrow> bool" where
  "valid_oaConfigEditorReplaceUserArguments v \<longleftrightarrow>
     validUTF8 (oaConfigEditorReplaceUserArguments.ExpectedRevision v) \<and>
     valid_UserSettings (oaConfigEditorReplaceUserArguments.Values v)"

lemma solid_OAConfigEditorReplaceUserArguments_json [simp]: "solid (print d (OAConfigEditorReplaceUserArguments_json v))"
  unfolding OAConfigEditorReplaceUserArguments_json_def by (rule solid_object)

lemma reads_oaConfigEditorReplaceUserArguments:
  "valid_oaConfigEditorReplaceUserArguments v \<Longrightarrow> reads 3 decodeOAConfigEditorReplaceUserArguments (print d (OAConfigEditorReplaceUserArguments_json v)) v"
  unfolding decodeOAConfigEditorReplaceUserArguments_def [abs_def] OAConfigEditorReplaceUserArguments_json_def
  by (cases v, hypsubst,
      intro reads_record [where n = 2 and N = 3 and seen = 3] fields_Nil
        fields_once [OF oaConfigEditorReplaceUserArguments_switch(1)]
        fields_once [OF oaConfigEditorReplaceUserArguments_switch(2)])
    (simp_all add: reads_str reads_weaken [OF reads_UserSettings]
      lit_valid valid_oaConfigEditorReplaceUserArguments_def oaConfigEditorReplaceUserArguments_zero_def del: print.simps(3,5))

subsection \<open>oaConfigObserverObserveArguments\<close>

lemma oaConfigObserverObserveArguments_switch:
  "on_key oaConfigObserverObserveArguments_field (lit ''overrides'') 1 decodeRunOverrides (\<lambda>x v. v\<lparr>oaConfigObserverObserveArguments.Overrides := x\<rparr>)"
  "on_key oaConfigObserverObserveArguments_field (lit ''cursor'') 2 str (\<lambda>x v. v\<lparr>oaConfigObserverObserveArguments.Cursor := x\<rparr>)"
  "on_key oaConfigObserverObserveArguments_field (lit ''wait_ms'') 4 (\<lambda>r. integer r (-9223372036854775808) 9223372036854775807) (\<lambda>x v. v\<lparr>oaConfigObserverObserveArguments.WaitMs := x\<rparr>)"
  by (simp_all add: on_key_def oaConfigObserverObserveArguments_field_def fun_eq_iff)

definition valid_oaConfigObserverObserveArguments :: "oaConfigObserverObserveArguments \<Rightarrow> bool" where
  "valid_oaConfigObserverObserveArguments v \<longleftrightarrow>
     valid_RunOverrides (oaConfigObserverObserveArguments.Overrides v) \<and>
     validUTF8 (oaConfigObserverObserveArguments.Cursor v)"

lemma solid_OAConfigObserverObserveArguments_json [simp]: "solid (print d (OAConfigObserverObserveArguments_json v))"
  unfolding OAConfigObserverObserveArguments_json_def by (rule solid_object)

lemma reads_oaConfigObserverObserveArguments:
  "valid_oaConfigObserverObserveArguments v \<Longrightarrow> reads 2 decodeOAConfigObserverObserveArguments (print d (OAConfigObserverObserveArguments_json v)) v"
  unfolding decodeOAConfigObserverObserveArguments_def [abs_def] OAConfigObserverObserveArguments_json_def
  by (cases v, hypsubst,
      intro reads_record [where n = 1 and N = 2 and seen = 7] fields_Nil
        fields_once [OF oaConfigObserverObserveArguments_switch(1)]
        fields_once [OF oaConfigObserverObserveArguments_switch(2)]
        fields_once [OF oaConfigObserverObserveArguments_switch(3)])
    (simp_all add: reads_int64 reads_str reads_weaken [OF reads_RunOverrides]
      lit_valid valid_oaConfigObserverObserveArguments_def oaConfigObserverObserveArguments_zero_def del: print.simps(3,5))

subsection \<open>oaServiceFrame\<close>

lemma oaServiceFrame_switch:
  "on_key oaServiceFrame_field (lit ''version'') 1 (\<lambda>r. integer r (-2147483648) 2147483647) (\<lambda>x v. v\<lparr>oaServiceFrame.Version := ucast x\<rparr>)"
  "on_key oaServiceFrame_field (lit ''service'') 2 str (\<lambda>x v. v\<lparr>oaServiceFrame.Service := x\<rparr>)"
  "on_key oaServiceFrame_field (lit ''method'') 4 str (\<lambda>x v. v\<lparr>oaServiceFrame.Method := x\<rparr>)"
  "on_key oaServiceFrame_field (lit ''arguments'') 8 rawValue (\<lambda>x v. v\<lparr>oaServiceFrame.Arguments := x\<rparr>)"
  by (simp_all add: on_key_def oaServiceFrame_field_def fun_eq_iff)

definition valid_oaServiceFrame :: "oaServiceFrame \<Rightarrow> bool" where
  "valid_oaServiceFrame v \<longleftrightarrow>
     validUTF8 (oaServiceFrame.Service v) \<and>
     validUTF8 (oaServiceFrame.Method v) \<and>
     valid_raw (oaServiceFrame.Arguments v)"

lemma solid_OAServiceFrame_json [simp]: "solid (print d (OAServiceFrame_json v))"
  unfolding OAServiceFrame_json_def by (rule solid_object)

lemma reads_oaServiceFrame:
  "valid_oaServiceFrame v \<Longrightarrow> reads 64 decodeOAServiceFrame (print d (OAServiceFrame_json v)) v"
  unfolding decodeOAServiceFrame_def [abs_def] OAServiceFrame_json_def
  by (cases v, hypsubst,
      intro reads_record [where n = 63 and N = 64 and seen = 15] fields_Nil
        fields_once [OF oaServiceFrame_switch(1) _ _ _ reads_JInt32]
        fields_once [OF oaServiceFrame_switch(2)]
        fields_once [OF oaServiceFrame_switch(3)]
        fields_once [OF oaServiceFrame_switch(4)])
    (simp_all add: reads_str reads_valid_raw
      lit_valid valid_oaServiceFrame_def oaServiceFrame_zero_def del: print.simps(3,5))

subsection \<open>oaServiceReply\<close>

lemma oaServiceReply_switch:
  "on_key oaServiceReply_field (lit ''version'') 1 (\<lambda>r. integer r (-2147483648) 2147483647) (\<lambda>x v. v\<lparr>oaServiceReply.Version := ucast x\<rparr>)"
  "on_key oaServiceReply_field (lit ''service'') 2 str (\<lambda>x v. v\<lparr>oaServiceReply.Service := x\<rparr>)"
  "on_key oaServiceReply_field (lit ''method'') 4 str (\<lambda>x v. v\<lparr>oaServiceReply.Method := x\<rparr>)"
  "on_key oaServiceReply_field (lit ''ok'') 8 boolean (\<lambda>x v. v\<lparr>oaServiceReply.Ok := x\<rparr>)"
  "on_key oaServiceReply_field (lit ''payload'') 16 rawValue (\<lambda>x v. v\<lparr>oaServiceReply.Payload := x\<rparr>)"
  by (simp_all add: on_key_def oaServiceReply_field_def fun_eq_iff)

definition valid_oaServiceReply :: "oaServiceReply \<Rightarrow> bool" where
  "valid_oaServiceReply v \<longleftrightarrow>
     validUTF8 (oaServiceReply.Service v) \<and>
     validUTF8 (oaServiceReply.Method v) \<and>
     valid_raw (oaServiceReply.Payload v)"

lemma solid_OAServiceReply_json [simp]: "solid (print d (OAServiceReply_json v))"
  unfolding OAServiceReply_json_def by (rule solid_object)

lemma reads_oaServiceReply:
  "valid_oaServiceReply v \<Longrightarrow> reads 64 decodeOAServiceReply (print d (OAServiceReply_json v)) v"
  unfolding decodeOAServiceReply_def [abs_def] OAServiceReply_json_def
  by (cases v, hypsubst,
      intro reads_record [where n = 63 and N = 64 and seen = 31] fields_Nil
        fields_once [OF oaServiceReply_switch(1) _ _ _ reads_JInt32]
        fields_once [OF oaServiceReply_switch(2)]
        fields_once [OF oaServiceReply_switch(3)]
        fields_once [OF oaServiceReply_switch(4)]
        fields_once [OF oaServiceReply_switch(5)])
    (simp_all add: reads_boolean reads_str reads_valid_raw
      lit_valid valid_oaServiceReply_def oaServiceReply_zero_def del: print.simps(3,5))

subsection \<open>oaServiceError\<close>

lemma oaServiceError_switch:
  "on_key oaServiceError_field (lit ''code'') 1 str (\<lambda>x v. v\<lparr>oaServiceError.Code := x\<rparr>)"
  "on_key oaServiceError_field (lit ''message'') 2 str (\<lambda>x v. v\<lparr>oaServiceError.Message := x\<rparr>)"
  by (simp_all add: on_key_def oaServiceError_field_def fun_eq_iff)

definition valid_oaServiceError :: "oaServiceError \<Rightarrow> bool" where
  "valid_oaServiceError v \<longleftrightarrow>
     validUTF8 (oaServiceError.Code v) \<and>
     validUTF8 (oaServiceError.Message v)"

lemma solid_OAServiceError_json [simp]: "solid (print d (OAServiceError_json v))"
  unfolding OAServiceError_json_def by (rule solid_object)

lemma reads_oaServiceError:
  "valid_oaServiceError v \<Longrightarrow> reads 1 decodeOAServiceError (print d (OAServiceError_json v)) v"
  unfolding decodeOAServiceError_def [abs_def] OAServiceError_json_def
  by (cases v, hypsubst,
      intro reads_record [where n = 0 and N = 1 and seen = 3] fields_Nil
        fields_once [OF oaServiceError_switch(1)]
        fields_once [OF oaServiceError_switch(2)])
    (simp_all add: reads_str
      lit_valid valid_oaServiceError_def oaServiceError_zero_def del: print.simps(3,5))

subsection \<open>oaConfigReaderReadResult\<close>

lemma oaConfigReaderReadResult_switch:
  "on_key oaConfigReaderReadResult_field (lit ''value'') 1 decodeSnapshot (\<lambda>x v. v\<lparr>oaConfigReaderReadResult.Value := x\<rparr>)"
  by (simp_all add: on_key_def oaConfigReaderReadResult_field_def fun_eq_iff)

definition valid_oaConfigReaderReadResult :: "oaConfigReaderReadResult \<Rightarrow> bool" where
  "valid_oaConfigReaderReadResult v \<longleftrightarrow>
     valid_Snapshot (oaConfigReaderReadResult.Value v)"

lemma solid_OAConfigReaderReadResult_json [simp]: "solid (print d (OAConfigReaderReadResult_json v))"
  unfolding OAConfigReaderReadResult_json_def by (rule solid_object)

lemma reads_oaConfigReaderReadResult:
  "valid_oaConfigReaderReadResult v \<Longrightarrow> reads 4 decodeOAConfigReaderReadResult (print d (OAConfigReaderReadResult_json v)) v"
  unfolding decodeOAConfigReaderReadResult_def [abs_def] OAConfigReaderReadResult_json_def
  by (cases v, hypsubst,
      intro reads_record [where n = 3 and N = 4 and seen = 1] fields_Nil
        fields_once [OF oaConfigReaderReadResult_switch(1)])
    (simp_all add: reads_weaken [OF reads_Snapshot]
      lit_valid valid_oaConfigReaderReadResult_def oaConfigReaderReadResult_zero_def del: print.simps(3,5))

subsection \<open>oaConfigEditorReadUserResult\<close>

lemma oaConfigEditorReadUserResult_switch:
  "on_key oaConfigEditorReadUserResult_field (lit ''value'') 1 decodeUserSnapshot (\<lambda>x v. v\<lparr>oaConfigEditorReadUserResult.Value := x\<rparr>)"
  by (simp_all add: on_key_def oaConfigEditorReadUserResult_field_def fun_eq_iff)

definition valid_oaConfigEditorReadUserResult :: "oaConfigEditorReadUserResult \<Rightarrow> bool" where
  "valid_oaConfigEditorReadUserResult v \<longleftrightarrow>
     valid_UserSnapshot (oaConfigEditorReadUserResult.Value v)"

lemma solid_OAConfigEditorReadUserResult_json [simp]: "solid (print d (OAConfigEditorReadUserResult_json v))"
  unfolding OAConfigEditorReadUserResult_json_def by (rule solid_object)

lemma reads_oaConfigEditorReadUserResult:
  "valid_oaConfigEditorReadUserResult v \<Longrightarrow> reads 4 decodeOAConfigEditorReadUserResult (print d (OAConfigEditorReadUserResult_json v)) v"
  unfolding decodeOAConfigEditorReadUserResult_def [abs_def] OAConfigEditorReadUserResult_json_def
  by (cases v, hypsubst,
      intro reads_record [where n = 3 and N = 4 and seen = 1] fields_Nil
        fields_once [OF oaConfigEditorReadUserResult_switch(1)])
    (simp_all add: reads_weaken [OF reads_UserSnapshot]
      lit_valid valid_oaConfigEditorReadUserResult_def oaConfigEditorReadUserResult_zero_def del: print.simps(3,5))

subsection \<open>oaConfigEditorReplaceUserResult\<close>

lemma oaConfigEditorReplaceUserResult_switch:
  "on_key oaConfigEditorReplaceUserResult_field (lit ''value'') 1 decodeUserReplaceResult (\<lambda>x v. v\<lparr>oaConfigEditorReplaceUserResult.Value := x\<rparr>)"
  by (simp_all add: on_key_def oaConfigEditorReplaceUserResult_field_def fun_eq_iff)

definition valid_oaConfigEditorReplaceUserResult :: "oaConfigEditorReplaceUserResult \<Rightarrow> bool" where
  "valid_oaConfigEditorReplaceUserResult v \<longleftrightarrow>
     valid_UserReplaceResult (oaConfigEditorReplaceUserResult.Value v)"

lemma solid_OAConfigEditorReplaceUserResult_json [simp]: "solid (print d (OAConfigEditorReplaceUserResult_json v))"
  unfolding OAConfigEditorReplaceUserResult_json_def by (rule solid_object)

lemma reads_oaConfigEditorReplaceUserResult:
  "valid_oaConfigEditorReplaceUserResult v \<Longrightarrow> reads 5 decodeOAConfigEditorReplaceUserResult (print d (OAConfigEditorReplaceUserResult_json v)) v"
  unfolding decodeOAConfigEditorReplaceUserResult_def [abs_def] OAConfigEditorReplaceUserResult_json_def
  by (cases v, hypsubst,
      intro reads_record [where n = 4 and N = 5 and seen = 1] fields_Nil
        fields_once [OF oaConfigEditorReplaceUserResult_switch(1)])
    (simp_all add: reads_weaken [OF reads_UserReplaceResult]
      lit_valid valid_oaConfigEditorReplaceUserResult_def oaConfigEditorReplaceUserResult_zero_def del: print.simps(3,5))

subsection \<open>oaConfigObserverObserveResult\<close>

lemma oaConfigObserverObserveResult_switch:
  "on_key oaConfigObserverObserveResult_field (lit ''value'') 1 decodeConfigObservation (\<lambda>x v. v\<lparr>oaConfigObserverObserveResult.Value := x\<rparr>)"
  by (simp_all add: on_key_def oaConfigObserverObserveResult_field_def fun_eq_iff)

definition valid_oaConfigObserverObserveResult :: "oaConfigObserverObserveResult \<Rightarrow> bool" where
  "valid_oaConfigObserverObserveResult v \<longleftrightarrow>
     valid_ConfigObservation (oaConfigObserverObserveResult.Value v)"

lemma solid_OAConfigObserverObserveResult_json [simp]: "solid (print d (OAConfigObserverObserveResult_json v))"
  unfolding OAConfigObserverObserveResult_json_def by (rule solid_object)

lemma reads_oaConfigObserverObserveResult:
  "valid_oaConfigObserverObserveResult v \<Longrightarrow> reads 5 decodeOAConfigObserverObserveResult (print d (OAConfigObserverObserveResult_json v)) v"
  unfolding decodeOAConfigObserverObserveResult_def [abs_def] OAConfigObserverObserveResult_json_def
  by (cases v, hypsubst,
      intro reads_record [where n = 4 and N = 5 and seen = 1] fields_Nil
        fields_once [OF oaConfigObserverObserveResult_switch(1)])
    (simp_all add: reads_weaken [OF reads_ConfigObservation]
      lit_valid valid_oaConfigObserverObserveResult_def oaConfigObserverObserveResult_zero_def del: print.simps(3,5))

end
