(* ===== verification/Codec.thy ===== *)
theory Codec
  imports Records
begin

section \<open>The codec contract\<close>

text \<open>
  What every caller in \<open>go/abstraction/config/rec.go\<close> relies on, as the locale \<open>codec\<close>: a valid
  record is written without a refusal, and the decoder started on the bytes written, at a depth that
  leaves the record's nesting to spare, returns the record and stops at the end. A record that
  travels inside a frame as an opaque value is a \<open>payload_codec\<close>: the frame's reader skips it whole.
  Every record of the file is an interpretation. The second half shows the converse of the
  validity hypothesis: a decoder only ever returns valid records.
\<close>

locale codec =
  fixes enc :: "bytes \<Rightarrow> 'v \<Rightarrow> int \<Rightarrow> Refusal + bytes"
    and dec :: "reader \<Rightarrow> 'v parsed"
    and doc :: "'v \<Rightarrow> json"
    and valid :: "'v \<Rightarrow> bool"
    and nest :: nat
  assumes writes: "valid v \<Longrightarrow> enc out v d = Inr (out @ print d (doc v))"
    and reads_back: "valid v \<Longrightarrow> reads nest dec (print d (doc v)) v"
    and starts: "solid (print d (doc v))"
begin

lemma written: "valid v \<Longrightarrow> enc [] v d = Inr w \<Longrightarrow> w = print d (doc v)"
  by (simp add: writes)

lemma decodes:
  assumes "valid v" and "enc [] v d = Inr w" and "k + int nest \<le> depthLimit" and "delimited t"
  shows "dec (ws \<lparr>rbuf = w @ t, rpos = 0, rdepth = k\<rparr>)
    = Inr (v, \<lparr>rbuf = w @ t, rpos = length w, rdepth = k\<rparr>)"
proof -
  let ?r = "\<lparr>rbuf = w @ t, rpos = 0, rdepth = k\<rparr>"
  have w: "w = print d (doc v)" using assms(1,2) by (rule written)
  have r: "rest ?r = print d (doc v) @ t" by (simp add: rest_def w)
  then have "ws ?r = ?r" by (rule ws_solid) (rule starts)
  then show ?thesis
    using readsD [OF reads_back [OF assms(1)] r] assms(3,4) by (simp add: adv_def w)
qed

lemma decodes_all:
  assumes "valid v" and "enc [] v d = Inr w" and "k + int nest \<le> depthLimit"
  shows "dec (ws \<lparr>rbuf = w, rpos = 0, rdepth = k\<rparr>)
      = Inr (v, \<lparr>rbuf = w, rpos = length w, rdepth = k\<rparr>)"
    and "ws \<lparr>rbuf = w, rpos = length w, rdepth = k\<rparr> = \<lparr>rbuf = w, rpos = length w, rdepth = k\<rparr>"
  using decodes [OF assms, of "[]"] by (simp_all add: delimited_def ws_stop rest_def)

end

locale payload_codec = codec enc dec doc valid nest
  for enc :: "bytes \<Rightarrow> 'v \<Rightarrow> int \<Rightarrow> Refusal + bytes" and dec doc valid nest +
  assumes skips: "valid v \<Longrightarrow> doc_ok nest (doc v)"
    and shallow: "nest \<le> 63"
begin

lemma raw: "valid v \<Longrightarrow> enc [] v d = Inr w \<Longrightarrow> valid_raw w"
  using written [of v d w] valid_rawDoc [OF skips shallow, of v d] by simp

end

subsection \<open>Every record is a codec\<close>

lemma fields_ok_map: "\<forall>k \<in> set ks. validUTF8 k \<and> validUTF8 (mget m k) \<Longrightarrow>
    fields_ok n (map (\<lambda>k. (k, JString (mget m k))) ks)"
  by (induction ks) auto

lemma fields_ok_strmap: "valid_map m \<Longrightarrow> fields_ok n (strmap_fields m)"
  unfolding strmap_fields_def
  by (rule fields_ok_map) (auto simp: valid_map_def mget_def fmlookup_dom'_iff dest!: fmpredD)

lemma fields_ok_append: "fields_ok n (fs @ gs) = (fields_ok n fs \<and> fields_ok n gs)"
  by (induction fs) auto

lemma doc_ok_RunOverrides: "valid_RunOverrides v \<Longrightarrow> 1 \<le> n \<Longrightarrow> doc_ok n (RunOverrides_json v)"
  by (simp add: RunOverrides_json_def valid_RunOverrides_def lit_valid )

interpretation RunOverrides_codec: payload_codec "\<lambda>out v d. Inr (encRunOverrides out v d)" decodeRunOverrides
    RunOverrides_json valid_RunOverrides 1
  by unfold_locales (simp_all add: encRunOverrides_append reads_RunOverrides doc_ok_RunOverrides del: print.simps One_nat_def)

lemma doc_ok_Origin: "valid_Origin v \<Longrightarrow> 1 \<le> n \<Longrightarrow> doc_ok n (Origin_json v)"
  by (simp add: Origin_json_def valid_Origin_def lit_valid )

interpretation Origin_codec: payload_codec "\<lambda>out v d. Inr (encOrigin out v d)" decodeOrigin
    Origin_json valid_Origin 1
  by unfold_locales (simp_all add: encOrigin_append reads_Origin doc_ok_Origin del: print.simps One_nat_def)

lemma doc_ok_Origins: "valid_Origins v \<Longrightarrow> 2 \<le> n \<Longrightarrow> doc_ok n (Origins_json v)"
  by (simp add: Origins_json_def valid_Origins_def lit_valid doc_ok_Origin)

interpretation Origins_codec: payload_codec "\<lambda>out v d. Inr (encOrigins out v d)" decodeOrigins
    Origins_json valid_Origins 2
  by unfold_locales (simp_all add: encOrigins_append reads_Origins doc_ok_Origins del: print.simps One_nat_def)

lemma doc_ok_Snapshot: "valid_Snapshot v \<Longrightarrow> 3 \<le> n \<Longrightarrow> doc_ok n (Snapshot_json v)"
  by (simp add: Snapshot_json_def valid_Snapshot_def lit_valid doc_ok_Origins fields_ok_strmap)

interpretation Snapshot_codec: payload_codec "\<lambda>out v d. Inr (encSnapshot out v d)" decodeSnapshot
    Snapshot_json valid_Snapshot 3
  by unfold_locales (simp_all add: encSnapshot_append reads_Snapshot doc_ok_Snapshot del: print.simps One_nat_def)

lemma doc_ok_UserSettings: "valid_UserSettings v \<Longrightarrow> 2 \<le> n \<Longrightarrow> doc_ok n (UserSettings_json v)"
  by (simp add: UserSettings_json_def valid_UserSettings_def lit_valid fields_ok_strmap)

interpretation UserSettings_codec: payload_codec "\<lambda>out v d. Inr (encUserSettings out v d)" decodeUserSettings
    UserSettings_json valid_UserSettings 2
  by unfold_locales (simp_all add: encUserSettings_append reads_UserSettings doc_ok_UserSettings del: print.simps One_nat_def)

lemma doc_ok_UserSnapshot: "valid_UserSnapshot v \<Longrightarrow> 3 \<le> n \<Longrightarrow> doc_ok n (UserSnapshot_json v)"
  by (simp add: UserSnapshot_json_def valid_UserSnapshot_def lit_valid doc_ok_UserSettings)

interpretation UserSnapshot_codec: payload_codec "\<lambda>out v d. Inr (encUserSnapshot out v d)" decodeUserSnapshot
    UserSnapshot_json valid_UserSnapshot 3
  by unfold_locales (simp_all add: encUserSnapshot_append reads_UserSnapshot doc_ok_UserSnapshot del: print.simps One_nat_def)

lemma doc_ok_UserReplaceResult: "valid_UserReplaceResult v \<Longrightarrow> 4 \<le> n \<Longrightarrow> doc_ok n (UserReplaceResult_json v)"
  by (simp add: UserReplaceResult_json_def valid_UserReplaceResult_def lit_valid doc_ok_UserSnapshot UserReplaceOutcome_String_valid)

lemma UserReplaceResult_writes: "valid_UserReplaceResult v \<Longrightarrow> encUserReplaceResult out v d = Inr (out @ print d (UserReplaceResult_json v))"
  by (simp add: encUserReplaceResult_append valid_UserReplaceResult_def del: print.simps)

interpretation UserReplaceResult_codec: payload_codec encUserReplaceResult decodeUserReplaceResult
    UserReplaceResult_json valid_UserReplaceResult 4
  by unfold_locales (simp_all add: UserReplaceResult_writes reads_UserReplaceResult doc_ok_UserReplaceResult del: print.simps One_nat_def)

lemma doc_ok_ConfigObservation: "valid_ConfigObservation v \<Longrightarrow> 4 \<le> n \<Longrightarrow> doc_ok n (ConfigObservation_json v)"
  by (cases "ConfigObservation.Snapshot v") (simp_all add: ConfigObservation_json_def valid_ConfigObservation_def lit_valid doc_ok_Snapshot ConfigObservationOutcome_String_valid fields_ok_append)

lemma ConfigObservation_writes: "valid_ConfigObservation v \<Longrightarrow> encConfigObservation out v d = Inr (out @ print d (ConfigObservation_json v))"
  by (simp add: encConfigObservation_append valid_ConfigObservation_def del: print.simps)

interpretation ConfigObservation_codec: payload_codec encConfigObservation decodeConfigObservation
    ConfigObservation_json valid_ConfigObservation 4
  by unfold_locales (simp_all add: ConfigObservation_writes reads_ConfigObservation doc_ok_ConfigObservation del: print.simps One_nat_def)

lemma doc_ok_oaConfigReaderReadArguments: "valid_oaConfigReaderReadArguments v \<Longrightarrow> 2 \<le> n \<Longrightarrow> doc_ok n (OAConfigReaderReadArguments_json v)"
  by (simp add: OAConfigReaderReadArguments_json_def valid_oaConfigReaderReadArguments_def lit_valid doc_ok_RunOverrides)

interpretation oaConfigReaderReadArguments_codec: payload_codec "\<lambda>out v d. Inr (encOAConfigReaderReadArguments out v d)" decodeOAConfigReaderReadArguments
    OAConfigReaderReadArguments_json valid_oaConfigReaderReadArguments 2
  by unfold_locales (simp_all add: encOAConfigReaderReadArguments_append reads_oaConfigReaderReadArguments doc_ok_oaConfigReaderReadArguments del: print.simps One_nat_def)

lemma oaConfigEditorReadUserArguments_writes: "encOAConfigEditorReadUserArguments out v d = out @ print d (OAConfigEditorReadUserArguments_json v)"
  by (rule encOAConfigEditorReadUserArguments_append)

lemma solid_OAConfigEditorReadUserArguments_json [simp]: "solid (print d (OAConfigEditorReadUserArguments_json v))"
  unfolding OAConfigEditorReadUserArguments_json_def by (rule solid_object)

lemma reads_oaConfigEditorReadUserArguments:
  "reads 1 decodeOAConfigEditorReadUserArguments (print d (OAConfigEditorReadUserArguments_json v)) v"
  unfolding reads_def
proof (intro allI impI)
  fix r t
  assume r: "rest r = print d (OAConfigEditorReadUserArguments_json v) @ t" and d: "rdepth r + int 1 \<le> depthLimit"
  let ?r = "r\<lparr>rdepth := rdepth r + 1\<rparr>"
  have r0: "rest r = ch CHR ''{'' # ch CHR ''}'' # t" using r by (simp add: OAConfigEditorReadUserArguments_json_def lit_Cons)
  then have r1: "rest (adv 1 ?r) = ch CHR ''}'' # t" by simp
  have "ws (adv 1 ?r) = adv 1 ?r" using r1 not_space_close by (intro ws_stop) simp
  then show "decodeOAConfigEditorReadUserArguments r = Inr (v, adv (length (print d (OAConfigEditorReadUserArguments_json v))) r)"
    using rest_at(1) [OF r0] rest_at(1) [OF r1] d
    by (simp add: decodeOAConfigEditorReadUserArguments_def enter_ok Let_def numeral_2_eq_2 OAConfigEditorReadUserArguments_json_def)
qed

lemma doc_ok_oaConfigEditorReadUserArguments: "1 \<le> n \<Longrightarrow> doc_ok n (OAConfigEditorReadUserArguments_json v)"
  by (simp add: OAConfigEditorReadUserArguments_json_def)

interpretation oaConfigEditorReadUserArguments_codec: payload_codec "\<lambda>out v d. Inr (encOAConfigEditorReadUserArguments out v d)" decodeOAConfigEditorReadUserArguments
    OAConfigEditorReadUserArguments_json "\<lambda>v. True" 1
  by unfold_locales (simp_all add: encOAConfigEditorReadUserArguments_append reads_oaConfigEditorReadUserArguments doc_ok_oaConfigEditorReadUserArguments
      del: print.simps One_nat_def)

lemma doc_ok_oaConfigEditorReplaceUserArguments: "valid_oaConfigEditorReplaceUserArguments v \<Longrightarrow> 3 \<le> n \<Longrightarrow> doc_ok n (OAConfigEditorReplaceUserArguments_json v)"
  by (simp add: OAConfigEditorReplaceUserArguments_json_def valid_oaConfigEditorReplaceUserArguments_def lit_valid doc_ok_UserSettings)

interpretation oaConfigEditorReplaceUserArguments_codec: payload_codec "\<lambda>out v d. Inr (encOAConfigEditorReplaceUserArguments out v d)" decodeOAConfigEditorReplaceUserArguments
    OAConfigEditorReplaceUserArguments_json valid_oaConfigEditorReplaceUserArguments 3
  by unfold_locales (simp_all add: encOAConfigEditorReplaceUserArguments_append reads_oaConfigEditorReplaceUserArguments doc_ok_oaConfigEditorReplaceUserArguments del: print.simps One_nat_def)

lemma doc_ok_oaConfigObserverObserveArguments: "valid_oaConfigObserverObserveArguments v \<Longrightarrow> 2 \<le> n \<Longrightarrow> doc_ok n (OAConfigObserverObserveArguments_json v)"
  by (simp add: OAConfigObserverObserveArguments_json_def valid_oaConfigObserverObserveArguments_def lit_valid doc_ok_RunOverrides)

interpretation oaConfigObserverObserveArguments_codec: payload_codec "\<lambda>out v d. Inr (encOAConfigObserverObserveArguments out v d)" decodeOAConfigObserverObserveArguments
    OAConfigObserverObserveArguments_json valid_oaConfigObserverObserveArguments 2
  by unfold_locales (simp_all add: encOAConfigObserverObserveArguments_append reads_oaConfigObserverObserveArguments doc_ok_oaConfigObserverObserveArguments del: print.simps One_nat_def)

interpretation oaServiceFrame_codec: codec "\<lambda>out v d. Inr (encOAServiceFrame out v d)" decodeOAServiceFrame
    OAServiceFrame_json valid_oaServiceFrame 64
  by unfold_locales (simp_all add: encOAServiceFrame_append reads_oaServiceFrame del: print.simps One_nat_def)

interpretation oaServiceReply_codec: codec "\<lambda>out v d. Inr (encOAServiceReply out v d)" decodeOAServiceReply
    OAServiceReply_json valid_oaServiceReply 64
  by unfold_locales (simp_all add: encOAServiceReply_append reads_oaServiceReply del: print.simps One_nat_def)

lemma doc_ok_oaServiceError: "valid_oaServiceError v \<Longrightarrow> 1 \<le> n \<Longrightarrow> doc_ok n (OAServiceError_json v)"
  by (simp add: OAServiceError_json_def valid_oaServiceError_def lit_valid )

interpretation oaServiceError_codec: payload_codec "\<lambda>out v d. Inr (encOAServiceError out v d)" decodeOAServiceError
    OAServiceError_json valid_oaServiceError 1
  by unfold_locales (simp_all add: encOAServiceError_append reads_oaServiceError doc_ok_oaServiceError del: print.simps One_nat_def)

lemma doc_ok_oaConfigReaderReadResult: "valid_oaConfigReaderReadResult v \<Longrightarrow> 4 \<le> n \<Longrightarrow> doc_ok n (OAConfigReaderReadResult_json v)"
  by (simp add: OAConfigReaderReadResult_json_def valid_oaConfigReaderReadResult_def lit_valid doc_ok_Snapshot)

interpretation oaConfigReaderReadResult_codec: payload_codec "\<lambda>out v d. Inr (encOAConfigReaderReadResult out v d)" decodeOAConfigReaderReadResult
    OAConfigReaderReadResult_json valid_oaConfigReaderReadResult 4
  by unfold_locales (simp_all add: encOAConfigReaderReadResult_append reads_oaConfigReaderReadResult doc_ok_oaConfigReaderReadResult del: print.simps One_nat_def)

lemma doc_ok_oaConfigEditorReadUserResult: "valid_oaConfigEditorReadUserResult v \<Longrightarrow> 4 \<le> n \<Longrightarrow> doc_ok n (OAConfigEditorReadUserResult_json v)"
  by (simp add: OAConfigEditorReadUserResult_json_def valid_oaConfigEditorReadUserResult_def lit_valid doc_ok_UserSnapshot)

interpretation oaConfigEditorReadUserResult_codec: payload_codec "\<lambda>out v d. Inr (encOAConfigEditorReadUserResult out v d)" decodeOAConfigEditorReadUserResult
    OAConfigEditorReadUserResult_json valid_oaConfigEditorReadUserResult 4
  by unfold_locales (simp_all add: encOAConfigEditorReadUserResult_append reads_oaConfigEditorReadUserResult doc_ok_oaConfigEditorReadUserResult del: print.simps One_nat_def)

lemma doc_ok_oaConfigEditorReplaceUserResult: "valid_oaConfigEditorReplaceUserResult v \<Longrightarrow> 5 \<le> n \<Longrightarrow> doc_ok n (OAConfigEditorReplaceUserResult_json v)"
  by (simp add: OAConfigEditorReplaceUserResult_json_def valid_oaConfigEditorReplaceUserResult_def lit_valid doc_ok_UserReplaceResult)

lemma oaConfigEditorReplaceUserResult_writes: "valid_oaConfigEditorReplaceUserResult v \<Longrightarrow> encOAConfigEditorReplaceUserResult out v d = Inr (out @ print d (OAConfigEditorReplaceUserResult_json v))"
  by (simp add: encOAConfigEditorReplaceUserResult_append valid_oaConfigEditorReplaceUserResult_def valid_UserReplaceResult_def del: print.simps)

interpretation oaConfigEditorReplaceUserResult_codec: payload_codec encOAConfigEditorReplaceUserResult decodeOAConfigEditorReplaceUserResult
    OAConfigEditorReplaceUserResult_json valid_oaConfigEditorReplaceUserResult 5
  by unfold_locales (simp_all add: oaConfigEditorReplaceUserResult_writes reads_oaConfigEditorReplaceUserResult doc_ok_oaConfigEditorReplaceUserResult del: print.simps One_nat_def)

lemma doc_ok_oaConfigObserverObserveResult: "valid_oaConfigObserverObserveResult v \<Longrightarrow> 5 \<le> n \<Longrightarrow> doc_ok n (OAConfigObserverObserveResult_json v)"
  by (simp add: OAConfigObserverObserveResult_json_def valid_oaConfigObserverObserveResult_def lit_valid doc_ok_ConfigObservation)

lemma oaConfigObserverObserveResult_writes: "valid_oaConfigObserverObserveResult v \<Longrightarrow> encOAConfigObserverObserveResult out v d = Inr (out @ print d (OAConfigObserverObserveResult_json v))"
  by (simp add: encOAConfigObserverObserveResult_append valid_oaConfigObserverObserveResult_def valid_ConfigObservation_def del: print.simps)

interpretation oaConfigObserverObserveResult_codec: payload_codec encOAConfigObserverObserveResult decodeOAConfigObserverObserveResult
    OAConfigObserverObserveResult_json valid_oaConfigObserverObserveResult 5
  by unfold_locales (simp_all add: oaConfigObserverObserveResult_writes reads_oaConfigObserverObserveResult doc_ok_oaConfigObserverObserveResult del: print.simps One_nat_def)

subsection \<open>Decoders only return valid records\<close>

definition yields :: "(reader \<Rightarrow> 'a parsed) \<Rightarrow> ('a \<Rightarrow> bool) \<Rightarrow> bool" where
  "yields scan P \<longleftrightarrow> (\<forall>r x r'. scan r = Inr (x, r') \<longrightarrow> P x)"

text \<open>A body that keeps an invariant of the state, whatever the name and the text.\<close>

definition keeps :: "(bytes \<Rightarrow> 's \<Rightarrow> reader \<Rightarrow> 's parsed) \<Rightarrow> ('s \<Rightarrow> bool) \<Rightarrow> bool" where
  "keeps body Q \<longleftrightarrow> (\<forall>k s r s' r'. validUTF8 k \<longrightarrow> Q s \<longrightarrow> body k s r = Inr (s', r') \<longrightarrow> Q s')"

lemma objectLoop_keeps:
  "keeps body Q \<Longrightarrow> Q s \<Longrightarrow> objectLoop body s r = Inr (s', r') \<Longrightarrow> Q s'"
proof (induction body s r rule: objectLoop.induct)
  case (1 body s r)
  obtain k r2 where k: "str (ws r) = Inr (k, r2)"
    using "1.prems"(3) by (auto simp: objectLoop.simps [of body s r] Let_def split: if_splits sum.splits)
  then obtain s1 r4 where b: "body k s (ws (adv 1 (ws r2))) = Inr (s1, r4)"
    using "1.prems"(3) by (auto simp: objectLoop.simps [of body s r] Let_def split: if_splits sum.splits)
  then have s1: "Q s1"
    using "1.prems"(1,2) str_valid [OF k] unfolding keeps_def by blast
  from k b "1.prems"(3) have at: "at (ws r) = ch CHR 0x22" "at (ws r2) = ch CHR '':''"
    by (auto simp: objectLoop.simps [of body s r] Let_def split: if_splits)
  show ?case
  proof (cases "at (ws r4) = ch CHR '','' \<and> unread (adv 1 (ws r4)) < unread r")
    case True
    then have "objectLoop body s1 (adv 1 (ws r4)) = Inr (s', r')"
      using "1.prems"(3) k b at by (simp add: objectLoop.simps [of body s r] Let_def)
    then show ?thesis
      using "1.IH" [OF refl _ k refl refl _ b refl refl] True at "1.prems"(1) s1 by simp
  next
    case False
    then have "s' = s1"
      using "1.prems"(3) k b at by (auto simp: objectLoop.simps [of body s r] Let_def split: if_splits)
    with s1 show ?thesis by simp
  qed
qed

lemma decodeObject_keeps:
  "keeps body Q \<Longrightarrow> Q s \<Longrightarrow> yields (decodeObject body s) Q"
  by (auto simp: yields_def decodeObject_def Let_def dest: objectLoop_keeps split: if_splits sum.splits)

lemma decodeRecord_yields:
  "keeps body (\<lambda>(v, seen). P v) \<Longrightarrow> P v0 \<Longrightarrow> yields (decodeRecord body v0 need) P"
  using decodeObject_keeps [of body "\<lambda>(v, seen). P v" "(v0, 0)"]
  by (auto simp: yields_def decodeRecord_def split: if_splits sum.splits)

lemma decodeRecord_yields_seen:
  "keeps body (\<lambda>(v, seen). seen AND need = need \<longrightarrow> P v) \<Longrightarrow> need \<noteq> 0 \<Longrightarrow> yields (decodeRecord body v0 need) P"
  using decodeObject_keeps [of body "\<lambda>(v, seen). seen AND need = need \<longrightarrow> P v" "(v0, 0)"]
  by (auto simp: yields_def decodeRecord_def split: if_splits sum.splits)

lemma fieldOnceE:
  assumes "fieldOnce flag scan store (v, seen) r = Inr ((v', seen'), r')" and "yields scan P"
  obtains x where "P x" "v' = store x v" "seen' = seen OR flag"
  using assms by (auto simp: fieldOnce_def yields_def split: if_splits sum.splits)

lemma yieldsD: "yields scan P \<Longrightarrow> scan r = Inr (x, r') \<Longrightarrow> P x"
  by (auto simp: yields_def)

lemma yields_str: "yields str validUTF8"
  by (auto simp: yields_def dest: str_valid)

lemma yields_integer: "yields (\<lambda>r. integer r lo hi) (\<lambda>x. True)"
  by (simp add: yields_def)

lemma yields_wordOf: "yields (wordOf parse) (\<lambda>x. True)"
  by (simp add: yields_def)

lemma yields_strMap: "yields strMap valid_map"
  unfolding strMap_def [abs_def]
proof (rule decodeObject_keeps)
  show "keeps strMap_member valid_map"
    unfolding keeps_def
  proof (intro allI impI)
    fix k s r s' r' assume k: "validUTF8 k" and s: "valid_map s" "strMap_member k s r = Inr (s', r')"
    then obtain v where v: "str r = Inr (v, r')" "s' = fmupd k v s"
      by (auto simp: strMap_member_def split: sum.splits)
    with k s(1) yieldsD [OF yields_str v(1)] show "valid_map s'"
      by (auto simp: valid_map_def intro: fmpred_upd)
  qed
qed (simp add: valid_map_def)

lemma RunOverrides_field_keeps:
  "keeps RunOverrides_field (\<lambda>(v, seen). valid_RunOverrides v)"
  by (auto simp: keeps_def RunOverrides_field_def valid_RunOverrides_def split: if_splits
      elim!: fieldOnceE [OF _ yields_str])

lemma RunOverrides_zero_valid [simp]: "valid_RunOverrides RunOverrides_zero"
  by (simp add: valid_RunOverrides_def RunOverrides_zero_def valid_map_def)

lemma yields_RunOverrides: "yields decodeRunOverrides valid_RunOverrides"
  unfolding decodeRunOverrides_def [abs_def]
  by (rule decodeRecord_yields [OF RunOverrides_field_keeps RunOverrides_zero_valid])

lemma Origin_field_keeps:
  "keeps Origin_field (\<lambda>(v, seen). valid_Origin v)"
  by (auto simp: keeps_def Origin_field_def valid_Origin_def split: if_splits
      elim!: fieldOnceE [OF _ yields_str])

lemma Origin_zero_valid [simp]: "valid_Origin Origin_zero"
  by (simp add: valid_Origin_def Origin_zero_def valid_map_def)

lemma yields_Origin: "yields decodeOrigin valid_Origin"
  unfolding decodeOrigin_def [abs_def]
  by (rule decodeRecord_yields [OF Origin_field_keeps Origin_zero_valid])

lemma Origins_field_keeps:
  "keeps Origins_field (\<lambda>(v, seen). valid_Origins v)"
  by (auto simp: keeps_def Origins_field_def valid_Origins_def split: if_splits
      elim!: fieldOnceE [OF _ yields_Origin])

lemma Origins_zero_valid [simp]: "valid_Origins Origins_zero"
  by (simp add: valid_Origins_def Origins_zero_def valid_map_def)

lemma yields_Origins: "yields decodeOrigins valid_Origins"
  unfolding decodeOrigins_def [abs_def]
  by (rule decodeRecord_yields [OF Origins_field_keeps Origins_zero_valid])

lemma Snapshot_field_keeps:
  "keeps Snapshot_field (\<lambda>(v, seen). valid_Snapshot v)"
  by (auto simp: keeps_def Snapshot_field_def valid_Snapshot_def split: if_splits
      elim!: fieldOnceE [OF _ yields_str]
        fieldOnceE [OF _ yields_strMap]
        fieldOnceE [OF _ yields_Origins])

lemma Snapshot_zero_valid [simp]: "valid_Snapshot Snapshot_zero"
  by (simp add: valid_Snapshot_def Snapshot_zero_def valid_map_def)

lemma yields_Snapshot: "yields decodeSnapshot valid_Snapshot"
  unfolding decodeSnapshot_def [abs_def]
  by (rule decodeRecord_yields [OF Snapshot_field_keeps Snapshot_zero_valid])

lemma UserSettings_field_keeps:
  "keeps UserSettings_field (\<lambda>(v, seen). valid_UserSettings v)"
  by (auto simp: keeps_def UserSettings_field_def valid_UserSettings_def split: if_splits
      elim!: fieldOnceE [OF _ yields_str]
        fieldOnceE [OF _ yields_strMap])

lemma UserSettings_zero_valid [simp]: "valid_UserSettings UserSettings_zero"
  by (simp add: valid_UserSettings_def UserSettings_zero_def valid_map_def)

lemma yields_UserSettings: "yields decodeUserSettings valid_UserSettings"
  unfolding decodeUserSettings_def [abs_def]
  by (rule decodeRecord_yields [OF UserSettings_field_keeps UserSettings_zero_valid])

lemma UserSnapshot_field_keeps:
  "keeps UserSnapshot_field (\<lambda>(v, seen). valid_UserSnapshot v)"
  by (auto simp: keeps_def UserSnapshot_field_def valid_UserSnapshot_def split: if_splits
      elim!: fieldOnceE [OF _ yields_UserSettings]
        fieldOnceE [OF _ yields_str])

lemma UserSnapshot_zero_valid [simp]: "valid_UserSnapshot UserSnapshot_zero"
  by (simp add: valid_UserSnapshot_def UserSnapshot_zero_def valid_map_def)

lemma yields_UserSnapshot: "yields decodeUserSnapshot valid_UserSnapshot"
  unfolding decodeUserSnapshot_def [abs_def]
  by (rule decodeRecord_yields [OF UserSnapshot_field_keeps UserSnapshot_zero_valid])

definition partial_UserReplaceResult :: "UserReplaceResult \<Rightarrow> bool" where
  "partial_UserReplaceResult v \<longleftrightarrow> valid_UserSnapshot (UserReplaceResult.Snapshot v)"

lemma UserReplaceResult_field_keeps:
  "keeps UserReplaceResult_field (\<lambda>(v, seen). partial_UserReplaceResult v)"
  by (auto simp: keeps_def UserReplaceResult_field_def partial_UserReplaceResult_def split: if_splits
      elim!: fieldOnceE [OF _ yields_wordOf]
        fieldOnceE [OF _ yields_UserSnapshot])

lemma UserReplaceResult_zero_valid [simp]: "partial_UserReplaceResult UserReplaceResult_zero"
  by (simp add: partial_UserReplaceResult_def UserReplaceResult_zero_def valid_map_def)

lemma yields_UserReplaceResult: "yields decodeUserReplaceResult valid_UserReplaceResult"
  using decodeRecord_yields [OF UserReplaceResult_field_keeps UserReplaceResult_zero_valid]
  by (auto simp: yields_def decodeUserReplaceResult_def partial_UserReplaceResult_def valid_UserReplaceResult_def split: sum.splits if_splits)

definition partial_ConfigObservation :: "ConfigObservation \<Rightarrow> bool" where
  "partial_ConfigObservation v \<longleftrightarrow> validUTF8 (ConfigObservation.Cursor v) \<and> pred_option valid_Snapshot (ConfigObservation.Snapshot v)"

lemma ConfigObservation_field_keeps:
  "keeps ConfigObservation_field (\<lambda>(v, seen). partial_ConfigObservation v)"
  by (auto simp: keeps_def ConfigObservation_field_def partial_ConfigObservation_def split: if_splits
      elim!: fieldOnceE [OF _ yields_wordOf]
        fieldOnceE [OF _ yields_str]
        fieldOnceE [OF _ yields_Snapshot])

lemma ConfigObservation_zero_valid [simp]: "partial_ConfigObservation ConfigObservation_zero"
  by (simp add: partial_ConfigObservation_def ConfigObservation_zero_def valid_map_def)

lemma yields_ConfigObservation: "yields decodeConfigObservation valid_ConfigObservation"
  using decodeRecord_yields [OF ConfigObservation_field_keeps ConfigObservation_zero_valid]
  by (auto simp: yields_def decodeConfigObservation_def partial_ConfigObservation_def valid_ConfigObservation_def split: sum.splits if_splits)

lemma oaConfigReaderReadArguments_field_keeps:
  "keeps oaConfigReaderReadArguments_field (\<lambda>(v, seen). valid_oaConfigReaderReadArguments v)"
  by (auto simp: keeps_def oaConfigReaderReadArguments_field_def valid_oaConfigReaderReadArguments_def split: if_splits
      elim!: fieldOnceE [OF _ yields_RunOverrides])

lemma oaConfigReaderReadArguments_zero_valid [simp]: "valid_oaConfigReaderReadArguments oaConfigReaderReadArguments_zero"
  by (simp add: valid_oaConfigReaderReadArguments_def oaConfigReaderReadArguments_zero_def valid_map_def)

lemma yields_oaConfigReaderReadArguments: "yields decodeOAConfigReaderReadArguments valid_oaConfigReaderReadArguments"
  unfolding decodeOAConfigReaderReadArguments_def [abs_def]
  by (rule decodeRecord_yields [OF oaConfigReaderReadArguments_field_keeps oaConfigReaderReadArguments_zero_valid])

lemma oaConfigEditorReplaceUserArguments_field_keeps:
  "keeps oaConfigEditorReplaceUserArguments_field (\<lambda>(v, seen). valid_oaConfigEditorReplaceUserArguments v)"
  by (auto simp: keeps_def oaConfigEditorReplaceUserArguments_field_def valid_oaConfigEditorReplaceUserArguments_def split: if_splits
      elim!: fieldOnceE [OF _ yields_str]
        fieldOnceE [OF _ yields_UserSettings])

lemma oaConfigEditorReplaceUserArguments_zero_valid [simp]: "valid_oaConfigEditorReplaceUserArguments oaConfigEditorReplaceUserArguments_zero"
  by (simp add: valid_oaConfigEditorReplaceUserArguments_def oaConfigEditorReplaceUserArguments_zero_def valid_map_def)

lemma yields_oaConfigEditorReplaceUserArguments: "yields decodeOAConfigEditorReplaceUserArguments valid_oaConfigEditorReplaceUserArguments"
  unfolding decodeOAConfigEditorReplaceUserArguments_def [abs_def]
  by (rule decodeRecord_yields [OF oaConfigEditorReplaceUserArguments_field_keeps oaConfigEditorReplaceUserArguments_zero_valid])

lemma oaConfigObserverObserveArguments_field_keeps:
  "keeps oaConfigObserverObserveArguments_field (\<lambda>(v, seen). valid_oaConfigObserverObserveArguments v)"
  by (auto simp: keeps_def oaConfigObserverObserveArguments_field_def valid_oaConfigObserverObserveArguments_def split: if_splits
      elim!: fieldOnceE [OF _ yields_RunOverrides]
        fieldOnceE [OF _ yields_str]
        fieldOnceE [OF _ yields_integer])

lemma oaConfigObserverObserveArguments_zero_valid [simp]: "valid_oaConfigObserverObserveArguments oaConfigObserverObserveArguments_zero"
  by (simp add: valid_oaConfigObserverObserveArguments_def oaConfigObserverObserveArguments_zero_def valid_map_def)

lemma yields_oaConfigObserverObserveArguments: "yields decodeOAConfigObserverObserveArguments valid_oaConfigObserverObserveArguments"
  unfolding decodeOAConfigObserverObserveArguments_def [abs_def]
  by (rule decodeRecord_yields [OF oaConfigObserverObserveArguments_field_keeps oaConfigObserverObserveArguments_zero_valid])

lemma oaServiceError_field_keeps:
  "keeps oaServiceError_field (\<lambda>(v, seen). valid_oaServiceError v)"
  by (auto simp: keeps_def oaServiceError_field_def valid_oaServiceError_def split: if_splits
      elim!: fieldOnceE [OF _ yields_str])

lemma oaServiceError_zero_valid [simp]: "valid_oaServiceError oaServiceError_zero"
  by (simp add: valid_oaServiceError_def oaServiceError_zero_def valid_map_def)

lemma yields_oaServiceError: "yields decodeOAServiceError valid_oaServiceError"
  unfolding decodeOAServiceError_def [abs_def]
  by (rule decodeRecord_yields [OF oaServiceError_field_keeps oaServiceError_zero_valid])

lemma oaConfigReaderReadResult_field_keeps:
  "keeps oaConfigReaderReadResult_field (\<lambda>(v, seen). valid_oaConfigReaderReadResult v)"
  by (auto simp: keeps_def oaConfigReaderReadResult_field_def valid_oaConfigReaderReadResult_def split: if_splits
      elim!: fieldOnceE [OF _ yields_Snapshot])

lemma oaConfigReaderReadResult_zero_valid [simp]: "valid_oaConfigReaderReadResult oaConfigReaderReadResult_zero"
  by (simp add: valid_oaConfigReaderReadResult_def oaConfigReaderReadResult_zero_def valid_map_def)

lemma yields_oaConfigReaderReadResult: "yields decodeOAConfigReaderReadResult valid_oaConfigReaderReadResult"
  unfolding decodeOAConfigReaderReadResult_def [abs_def]
  by (rule decodeRecord_yields [OF oaConfigReaderReadResult_field_keeps oaConfigReaderReadResult_zero_valid])

lemma oaConfigEditorReadUserResult_field_keeps:
  "keeps oaConfigEditorReadUserResult_field (\<lambda>(v, seen). valid_oaConfigEditorReadUserResult v)"
  by (auto simp: keeps_def oaConfigEditorReadUserResult_field_def valid_oaConfigEditorReadUserResult_def split: if_splits
      elim!: fieldOnceE [OF _ yields_UserSnapshot])

lemma oaConfigEditorReadUserResult_zero_valid [simp]: "valid_oaConfigEditorReadUserResult oaConfigEditorReadUserResult_zero"
  by (simp add: valid_oaConfigEditorReadUserResult_def oaConfigEditorReadUserResult_zero_def valid_map_def)

lemma yields_oaConfigEditorReadUserResult: "yields decodeOAConfigEditorReadUserResult valid_oaConfigEditorReadUserResult"
  unfolding decodeOAConfigEditorReadUserResult_def [abs_def]
  by (rule decodeRecord_yields [OF oaConfigEditorReadUserResult_field_keeps oaConfigEditorReadUserResult_zero_valid])

lemma oaConfigEditorReplaceUserResult_field_keeps:
  "keeps oaConfigEditorReplaceUserResult_field (\<lambda>(v, seen). seen AND 1 = 1 \<longrightarrow> valid_oaConfigEditorReplaceUserResult v)"
  by (auto simp: keeps_def oaConfigEditorReplaceUserResult_field_def valid_oaConfigEditorReplaceUserResult_def split: if_splits
      elim!: fieldOnceE [OF _ yields_UserReplaceResult])

lemma yields_oaConfigEditorReplaceUserResult: "yields decodeOAConfigEditorReplaceUserResult valid_oaConfigEditorReplaceUserResult"
  unfolding decodeOAConfigEditorReplaceUserResult_def [abs_def]
  by (rule decodeRecord_yields_seen [OF oaConfigEditorReplaceUserResult_field_keeps]) simp

lemma oaConfigObserverObserveResult_field_keeps:
  "keeps oaConfigObserverObserveResult_field (\<lambda>(v, seen). seen AND 1 = 1 \<longrightarrow> valid_oaConfigObserverObserveResult v)"
  by (auto simp: keeps_def oaConfigObserverObserveResult_field_def valid_oaConfigObserverObserveResult_def split: if_splits
      elim!: fieldOnceE [OF _ yields_ConfigObservation])

lemma yields_oaConfigObserverObserveResult: "yields decodeOAConfigObserverObserveResult valid_oaConfigObserverObserveResult"
  unfolding decodeOAConfigObserverObserveResult_def [abs_def]
  by (rule decodeRecord_yields_seen [OF oaConfigObserverObserveResult_field_keeps]) simp

end
