(* ===== verification/Dispatch.thy ===== *)
theory Dispatch
  imports Codec
begin

section \<open>Frames, dispatchers and clients\<close>

text \<open>
  Models the service half of \<open>go/abstraction/config/rec.go\<close>: the request and reply frames
  (\<open>servicePayload\<close>, \<open>serviceReply\<close>, \<open>serviceResponse\<close>), the endpoint (\<open>DescribeEndpoint\<close>,
  \<open>ServeEndpoint\<close>), the three dispatchers and the three clients. A handler is a function of its
  arguments and of a state \<open>'w\<close> it may change; what a Go handler can do is a value of \<open>handled\<close>,
  a panic included. A Go \<open>error\<close> is a value of \<open>goerror\<close>, one constructor per type the code
  switches on, and \<open>ErrOther\<close> for every other error with its text.
\<close>

datatype goerror =
    ErrRefusal Refusal
  | ErrDispatch bytes
  | ErrService bytes bytes
  | ErrOther bytes

datatype 'a handled = Returns 'a | Fails goerror | PanicsRefusal Refusal | Panics

subsection \<open>Whole buffers\<close>

text \<open>The five lines every caller of a decoder repeats: a reader on the bytes, white space, the record,
  white space, and nothing behind it.\<close>

definition decodeWhole :: "(reader \<Rightarrow> 'a parsed) \<Rightarrow> int \<Rightarrow> bytes \<Rightarrow> Refusal + 'a" where
  "decodeWhole dec depth buf =
     (let r = ws \<lparr>rbuf = buf, rpos = 0, rdepth = depth\<rparr> in
      case dec r of Inl e \<Rightarrow> Inl e | Inr (v, r) \<Rightarrow>
        (let r = ws r in
         if rpos r \<noteq> length (rbuf r) then Inl (refuse r ''trailing_bytes'') else Inr v))"

subsection \<open>Frames\<close>

definition servicePayload :: "bytes \<Rightarrow> goerror + oaServiceFrame" where
  "servicePayload frame =
     (case decodeWhole decodeOAServiceFrame 0 frame of
        Inl e \<Rightarrow> Inl (ErrRefusal e)
      | Inr v \<Rightarrow>
          if oaServiceFrame.Version v \<noteq> 1 then Inl (ErrDispatch (lit ''unknown_version'')) else Inr v)"

definition ServiceName :: "bytes \<Rightarrow> goerror + bytes" where
  "ServiceName frame =
     (case servicePayload frame of Inl e \<Rightarrow> Inl e | Inr v \<Rightarrow> Inr (oaServiceFrame.Service v))"

text \<open>\<open>ServiceError.Error\<close>.\<close>

definition ServiceError_Error :: "bytes \<Rightarrow> bytes \<Rightarrow> bytes" where
  "ServiceError_Error code message = (if message \<noteq> [] then message else code)"

definition serviceResponse :: "bytes \<Rightarrow> bytes \<Rightarrow> bytes \<Rightarrow> goerror + bytes" where
  "serviceResponse frame service method =
     (case decodeWhole decodeOAServiceReply 0 frame of
        Inl e \<Rightarrow> Inl (ErrRefusal e)
      | Inr v \<Rightarrow>
          if oaServiceReply.Version v \<noteq> 1 then Inl (ErrDispatch (lit ''unknown_version''))
          else if oaServiceReply.Service v \<noteq> service \<or> oaServiceReply.Method v \<noteq> method
          then Inl (ErrDispatch (lit ''mismatched_response''))
          else if \<not> oaServiceReply.Ok v then
            (case decodeWhole decodeOAServiceError 1 (oaServiceReply.Payload v) of
               Inl e \<Rightarrow> Inl (ErrRefusal e)
             | Inr e \<Rightarrow>
                 if oaServiceError.Code e = [] then Inl (ErrDispatch (lit ''invalid_error''))
                 else Inl (ErrService (oaServiceError.Code e) (oaServiceError.Message e)))
          else Inr (oaServiceReply.Payload v))"

text \<open>The error record of \<open>serviceReply\<close>: the \<open>switch x := err.(type)\<close>.\<close>

fun errorRecord :: "goerror \<Rightarrow> oaServiceError" where
  "errorRecord (ErrService code message) =
     \<lparr>oaServiceError.Code = (if code \<noteq> [] then code else lit ''handler_error''), Message = message\<rparr>"
| "errorRecord (ErrDispatch word) = \<lparr>oaServiceError.Code = word, Message = []\<rparr>"
| "errorRecord (ErrRefusal e) = \<lparr>oaServiceError.Code = Word e, Message = []\<rparr>"
| "errorRecord (ErrOther text) =
     \<lparr>oaServiceError.Code = lit ''handler_error'', Message = lit ''handler failed''\<rparr>"

definition serviceReply :: "oaServiceFrame \<Rightarrow> bytes \<Rightarrow> goerror option \<Rightarrow> goerror + bytes" where
  "serviceReply v payload err =
     (let reply = \<lparr>oaServiceReply.Version = 1, Service = oaServiceFrame.Service v,
            Method = oaServiceFrame.Method v, Ok = (err = None), Payload = payload\<rparr>;
          reply = (case err of None \<Rightarrow> reply
            | Some e \<Rightarrow> reply\<lparr>oaServiceReply.Payload := encOAServiceError [] (errorRecord e) 1\<rparr>);
          frame = encOAServiceReply [] reply 0
      in case decodeOAServiceReply (ws \<lparr>rbuf = frame, rpos = 0, rdepth = 0\<rparr>) of
           Inl e \<Rightarrow> Inl (ErrRefusal e)
         | Inr _ \<Rightarrow> Inr frame)"

subsection \<open>The endpoint\<close>

definition EndpointContract :: bytes where
  "EndpointContract = lit ''abstraction.facade/endpoint@1''"

text \<open>A described service: what \<open>DescribeService\<close> returns, and \<open>DescribeServiceMetadata\<close> where the
  service has it.\<close>

record DescribedService =
  contract :: bytes
  ready :: bool
  why :: bytes
  metadata :: "(bytes list \<times> bytes gomap) option"

text \<open>The check of \<open>DescribeEndpoint\<close> that the arguments are an empty object.\<close>

definition emptyArguments :: "bytes \<Rightarrow> bool" where
  "emptyArguments buf =
     (let r = ws \<lparr>rbuf = buf, rpos = 0, rdepth = 0\<rparr> in
      if rpos r < length (rbuf r) \<and> rbuf r ! rpos r = ch CHR ''{'' then
        (let r = ws (adv 1 r) in
         if rpos r < length (rbuf r) \<and> rbuf r ! rpos r = ch CHR ''}'' then
           (let r = ws (adv 1 r) in rpos r = length (rbuf r))
         else False)
      else False)"

text \<open>The items of a list separated by commas, as the three loops write them.\<close>

fun commaSeparated :: "(bytes \<Rightarrow> 'a \<Rightarrow> bytes) \<Rightarrow> bytes \<Rightarrow> nat \<Rightarrow> 'a list \<Rightarrow> bytes" where
  "commaSeparated item out i [] = out"
| "commaSeparated item out i (x # xs) =
     commaSeparated item (item (if 0 < i then out @ [ch CHR '','']  else out) x) (i + 1) xs"

definition describeService :: "bytes \<Rightarrow> DescribedService \<Rightarrow> bytes" where
  "describeService out service =
     (let why = (if ready service then [] else why service);
          readiness = (if ready service then lit ''ready'' else lit ''not_ready'');
          (guarantees, capabilities) =
            (case metadata service of Some m \<Rightarrow> m | None \<Rightarrow> ([], fmempty));
          out = out @ lit ''{'' @ quoted (lit ''contract'') @ lit '':'';
          out = esc out (contract service);
          out = out @ lit '','' @ quoted (lit ''readiness'') @ lit '':'' @ [ch CHR 0x22] @ readiness
            @ [ch CHR 0x22] @ lit '','' @ quoted (lit ''why'') @ lit '':'';
          out = esc out why;
          out = out @ lit '','' @ quoted (lit ''guarantees'') @ lit '':['';
          out = commaSeparated esc out 0 guarantees;
          out = out @ lit ''],'' @ quoted (lit ''capabilities'') @ lit '':{'';
          out = commaSeparated (\<lambda>out key. esc (esc out key @ [ch CHR '':'']) (mget capabilities key))
            out 0 (sortedKeys capabilities)
      in out @ lit ''}}'')"

definition DescribeEndpoint ::
    "bytes \<Rightarrow> bytes \<Rightarrow> bytes \<Rightarrow> DescribedService list \<Rightarrow> goerror + bytes" where
  "DescribeEndpoint frame program version services =
     (case servicePayload frame of Inl e \<Rightarrow> Inl e | Inr v \<Rightarrow>
      if oaServiceFrame.Service v \<noteq> EndpointContract
      then serviceReply v [] (Some (ErrDispatch (lit ''unknown_service'')))
      else if oaServiceFrame.Method v \<noteq> lit ''Describe''
      then serviceReply v [] (Some (ErrDispatch (lit ''unknown_method'')))
      else if \<not> emptyArguments (oaServiceFrame.Arguments v)
      then serviceReply v [] (Some (ErrRefusal (Refusal (lit ''unknown_field'') 0)))
      else
        (let out = lit ''{'' @ quoted (lit ''value'') @ lit '':{'' @ quoted (lit ''outcome'') @ lit '':''
               @ quoted (lit ''described'') @ lit '','' @ quoted (lit ''program'') @ lit '':'';
             out = esc out program;
             out = out @ lit '','' @ quoted (lit ''version'') @ lit '':'';
             out = esc out version;
             out = out @ lit '','' @ quoted (lit ''services'') @ lit '':['';
             out = commaSeparated describeService out 0 services
         in serviceReply v (out @ lit '']}}'') None))"

subsection \<open>Serving an endpoint\<close>

text \<open>A service \<open>ServeEndpoint\<close> routes to: its description, its wire name, and \<open>ExchangeFrame\<close>
  where it takes request-response frames.\<close>

type_synonym 'w exchange = "bytes \<Rightarrow> 'w \<Rightarrow> (goerror + bytes) \<times> 'w"

record 'w ServedService =
  described :: DescribedService
  ServiceContract :: bytes
  exchanger :: "'w exchange option"

fun route :: "oaServiceFrame \<Rightarrow> bytes \<Rightarrow> 'w ServedService list \<Rightarrow> 'w \<Rightarrow> (goerror + bytes) \<times> 'w" where
  "route v frame [] w = (serviceReply v [] (Some (ErrDispatch (lit ''unknown_service''))), w)"
| "route v frame (service # services) w =
     (if ServiceContract service \<noteq> oaServiceFrame.Service v then route v frame services w
      else (case exchanger service of
          Some exchange \<Rightarrow> exchange frame w
        | None \<Rightarrow> (serviceReply v [] (Some (ErrDispatch (lit ''wrong_mode''))), w)))"

definition ServeEndpoint :: "bytes \<Rightarrow> bytes \<Rightarrow> 'w ServedService list \<Rightarrow> 'w exchange" where
  "ServeEndpoint program version services frame w =
     (case servicePayload frame of Inl e \<Rightarrow> (Inl e, w) | Inr v \<Rightarrow>
      if oaServiceFrame.Service v = EndpointContract
      then (DescribeEndpoint frame program version (map described services), w)
      else route v frame services w)"

subsection \<open>Dispatchers\<close>

text \<open>What a handler reports beside its methods: \<open>Ready\<close> and \<open>DescribeMetadata\<close> where it has them.\<close>

record HandlerInfo =
  Ready :: "(bool \<times> bytes) option"
  DescribeMetadata :: "(bytes list \<times> bytes gomap) option"

definition dispatcherService :: "bytes \<Rightarrow> HandlerInfo \<Rightarrow> DescribedService" where
  "dispatcherService name h =
     \<lparr>contract = name,
      ready = (case Ready h of None \<Rightarrow> True | Some (r, _) \<Rightarrow> r),
      why = (case Ready h of None \<Rightarrow> [] | Some (r, y) \<Rightarrow> if r then [] else y),
      metadata = Some (case DescribeMetadata h of None \<Rightarrow> ([], fmempty) | Some m \<Rightarrow> m)\<rparr>"

definition invalidResult :: goerror where
  "invalidResult = ErrService (lit ''invalid_result'') []"

text \<open>The body of the \<open>invoke\<close> methods: run the handler, encode what it returned, and check that it
  decodes. A panic, of the handler or of the encoder, becomes an error.\<close>

definition invoke ::
    "(bytes \<Rightarrow> 'r \<Rightarrow> int \<Rightarrow> Refusal + bytes) \<Rightarrow> (reader \<Rightarrow> 'r parsed) \<Rightarrow>
      'r handled \<times> 'w \<Rightarrow> (goerror + bytes) \<times> 'w" where
  "invoke enc dec result =
     (case result of (h, w) \<Rightarrow>
       (case h of
          Fails e \<Rightarrow> Inl e
        | PanicsRefusal _ \<Rightarrow> Inl invalidResult
        | Panics \<Rightarrow> Inl (ErrService (lit ''handler_error'') (lit ''handler failed''))
        | Returns value \<Rightarrow>
            (case enc [] value 1 of
               Inl _ \<Rightarrow> Inl invalidResult
             | Inr payload \<Rightarrow>
                 (case decodeWhole dec 1 payload of
                    Inl _ \<Rightarrow> Inl invalidResult
                  | Inr _ \<Rightarrow> Inr payload)), w))"

text \<open>The body of a \<open>case\<close> of \<open>switch v.Method\<close>: decode the arguments, invoke, reply.\<close>

definition answer ::
    "(reader \<Rightarrow> 'a parsed) \<Rightarrow> ('a \<Rightarrow> 'w \<Rightarrow> (goerror + bytes) \<times> 'w) \<Rightarrow> oaServiceFrame \<Rightarrow> 'w \<Rightarrow>
      (goerror + bytes) \<times> 'w" where
  "answer decArgs invoked v w =
     (case decodeWhole decArgs 1 (oaServiceFrame.Arguments v) of
        Inl e \<Rightarrow> (serviceReply v [] (Some (ErrRefusal e)), w)
      | Inr args \<Rightarrow>
          (case invoked args w of
             (Inl e, w) \<Rightarrow> (serviceReply v [] (Some e), w)
           | (Inr payload, w) \<Rightarrow> (serviceReply v payload None, w)))"

text \<open>The one-way entrance, \<open>WriteFrame\<close>: no method of the three services takes it.\<close>

definition writeFrame :: "bytes \<Rightarrow> bytes list \<Rightarrow> bytes \<Rightarrow> goerror" where
  "writeFrame name methods frame =
     (case servicePayload frame of Inl e \<Rightarrow> e | Inr v \<Rightarrow>
      if oaServiceFrame.Service v \<noteq> name then ErrDispatch (lit ''unknown_service'')
      else if oaServiceFrame.Method v \<in> set methods then ErrDispatch (lit ''wrong_mode'')
      else ErrDispatch (lit ''unknown_method''))"

text \<open>The entrance of \<open>ExchangeFrame\<close>, up to \<open>switch v.Method\<close>.\<close>

definition exchangeFrame ::
    "bytes \<Rightarrow> HandlerInfo \<Rightarrow> (oaServiceFrame \<Rightarrow> 'w \<Rightarrow> (goerror + bytes) \<times> 'w) \<Rightarrow> 'w exchange" where
  "exchangeFrame name info switch frame w =
     (case servicePayload frame of Inl e \<Rightarrow> (Inl e, w) | Inr v \<Rightarrow>
      if oaServiceFrame.Service v = EndpointContract
      then (DescribeEndpoint frame [] [] [dispatcherService name info], w)
      else if oaServiceFrame.Service v \<noteq> name
      then (serviceReply v [] (Some (ErrDispatch (lit ''unknown_service''))), w)
      else switch v w)"

definition unknownMethod :: "oaServiceFrame \<Rightarrow> 'w \<Rightarrow> (goerror + bytes) \<times> 'w" where
  "unknownMethod v w = (serviceReply v [] (Some (ErrDispatch (lit ''unknown_method''))), w)"

paragraph \<open>The reader\<close>

definition readerName :: bytes where
  "readerName = lit ''abstraction.config/reader@1''"

record 'w ConfigReader =
  Read :: "RunOverrides \<Rightarrow> 'w \<Rightarrow> Snapshot handled \<times> 'w"
  ReaderInfo :: HandlerInfo

definition invokeRead ::
    "'w ConfigReader \<Rightarrow> oaConfigReaderReadArguments \<Rightarrow> 'w \<Rightarrow> (goerror + bytes) \<times> 'w" where
  "invokeRead d args w =
     invoke (\<lambda>out v depth. Inr (encOAConfigReaderReadResult out v depth)) decodeOAConfigReaderReadResult
       (apfst (map_handled (\<lambda>result. \<lparr>oaConfigReaderReadResult.Value = result\<rparr>))
         (Read d (oaConfigReaderReadArguments.Overrides args) w))"

definition ConfigReader_ExchangeFrame :: "'w ConfigReader \<Rightarrow> 'w exchange" where
  "ConfigReader_ExchangeFrame d =
     exchangeFrame readerName (ReaderInfo d)
       (\<lambda>v. if oaServiceFrame.Method v = lit ''Read''
            then answer decodeOAConfigReaderReadArguments (invokeRead d) v
            else unknownMethod v)"

definition ConfigReader_WriteFrame :: "bytes \<Rightarrow> goerror" where
  "ConfigReader_WriteFrame frame = writeFrame readerName [lit ''Read''] frame"

paragraph \<open>The editor\<close>

definition editorName :: bytes where
  "editorName = lit ''abstraction.config/editor@1''"

record 'w ConfigEditor =
  ReadUser :: "'w \<Rightarrow> UserSnapshot handled \<times> 'w"
  ReplaceUser :: "bytes \<Rightarrow> UserSettings \<Rightarrow> 'w \<Rightarrow> UserReplaceResult handled \<times> 'w"
  EditorInfo :: HandlerInfo

definition invokeReadUser ::
    "'w ConfigEditor \<Rightarrow> oaConfigEditorReadUserArguments \<Rightarrow> 'w \<Rightarrow> (goerror + bytes) \<times> 'w" where
  "invokeReadUser d args w =
     invoke (\<lambda>out v depth. Inr (encOAConfigEditorReadUserResult out v depth)) decodeOAConfigEditorReadUserResult
       (apfst (map_handled (\<lambda>result. \<lparr>oaConfigEditorReadUserResult.Value = result\<rparr>)) (ReadUser d w))"

definition invokeReplaceUser ::
    "'w ConfigEditor \<Rightarrow> oaConfigEditorReplaceUserArguments \<Rightarrow> 'w \<Rightarrow> (goerror + bytes) \<times> 'w" where
  "invokeReplaceUser d args w =
     invoke encOAConfigEditorReplaceUserResult decodeOAConfigEditorReplaceUserResult
       (apfst (map_handled (\<lambda>result. \<lparr>oaConfigEditorReplaceUserResult.Value = result\<rparr>))
         (ReplaceUser d (oaConfigEditorReplaceUserArguments.ExpectedRevision args)
           (oaConfigEditorReplaceUserArguments.Values args) w))"

definition ConfigEditor_ExchangeFrame :: "'w ConfigEditor \<Rightarrow> 'w exchange" where
  "ConfigEditor_ExchangeFrame d =
     exchangeFrame editorName (EditorInfo d)
       (\<lambda>v. if oaServiceFrame.Method v = lit ''ReadUser''
            then answer decodeOAConfigEditorReadUserArguments (invokeReadUser d) v
            else if oaServiceFrame.Method v = lit ''ReplaceUser''
            then answer decodeOAConfigEditorReplaceUserArguments (invokeReplaceUser d) v
            else unknownMethod v)"

definition ConfigEditor_WriteFrame :: "bytes \<Rightarrow> goerror" where
  "ConfigEditor_WriteFrame frame = writeFrame editorName [lit ''ReadUser'', lit ''ReplaceUser''] frame"

paragraph \<open>The observer\<close>

definition observerName :: bytes where
  "observerName = lit ''abstraction.config/observer@1''"

record 'w ConfigObserver =
  Observe :: "RunOverrides \<Rightarrow> bytes \<Rightarrow> u64 \<Rightarrow> 'w \<Rightarrow> ConfigObservation handled \<times> 'w"
  ObserverInfo :: HandlerInfo

definition invokeObserve ::
    "'w ConfigObserver \<Rightarrow> oaConfigObserverObserveArguments \<Rightarrow> 'w \<Rightarrow> (goerror + bytes) \<times> 'w" where
  "invokeObserve d args w =
     invoke encOAConfigObserverObserveResult decodeOAConfigObserverObserveResult
       (apfst (map_handled (\<lambda>result. \<lparr>oaConfigObserverObserveResult.Value = result\<rparr>))
         (Observe d (oaConfigObserverObserveArguments.Overrides args)
           (oaConfigObserverObserveArguments.Cursor args) (oaConfigObserverObserveArguments.WaitMs args) w))"

definition ConfigObserver_ExchangeFrame :: "'w ConfigObserver \<Rightarrow> 'w exchange" where
  "ConfigObserver_ExchangeFrame d =
     exchangeFrame observerName (ObserverInfo d)
       (\<lambda>v. if oaServiceFrame.Method v = lit ''Observe''
            then answer decodeOAConfigObserverObserveArguments (invokeObserve d) v
            else unknownMethod v)"

definition ConfigObserver_WriteFrame :: "bytes \<Rightarrow> goerror" where
  "ConfigObserver_WriteFrame frame = writeFrame observerName [lit ''Observe''] frame"

subsection \<open>Clients\<close>

text \<open>
  The body of the client methods. The \<open>recover\<close> of the code turns a \<open>Refusal\<close> that an encoder
  panics with into an error; no encoder of an argument record panics, and a transport's own panic
  is passed on, so it is not part of the model. \<open>transport\<close> is \<open>ExchangeFrame\<close>.
\<close>

definition callService ::
    "bytes \<Rightarrow> String.string \<Rightarrow> bytes \<Rightarrow> (reader \<Rightarrow> 'r parsed) \<Rightarrow> 'w exchange \<Rightarrow> 'w \<Rightarrow> (goerror + 'r) \<times> 'w" where
  "callService name method arguments decResult transport w =
     (let v = \<lparr>oaServiceFrame.Version = 1, Service = name, Method = lit method, Arguments = arguments\<rparr>;
          frame = encOAServiceFrame [] v 0 in
      case servicePayload frame of Inl e \<Rightarrow> (Inl e, w) | Inr _ \<Rightarrow>
      (case transport frame w of (Inl e, w) \<Rightarrow> (Inl e, w) | (Inr response, w) \<Rightarrow>
       (case serviceResponse response (oaServiceFrame.Service v) (oaServiceFrame.Method v) of
          Inl e \<Rightarrow> (Inl e, w)
        | Inr payload \<Rightarrow>
            (case decodeWhole decResult 1 payload of
               Inl e \<Rightarrow> (Inl (ErrRefusal e), w)
             | Inr decoded \<Rightarrow> (Inr decoded, w)))))"

definition ConfigReaderClient_Read ::
    "'w exchange \<Rightarrow> RunOverrides \<Rightarrow> 'w \<Rightarrow> (goerror + Snapshot) \<times> 'w" where
  "ConfigReaderClient_Read transport overrides w =
     apfst (map_sum id oaConfigReaderReadResult.Value)
       (callService readerName ''Read''
         (encOAConfigReaderReadArguments [] \<lparr>oaConfigReaderReadArguments.Overrides = overrides\<rparr> 1)
         decodeOAConfigReaderReadResult transport w)"

definition ConfigEditorClient_ReadUser :: "'w exchange \<Rightarrow> 'w \<Rightarrow> (goerror + UserSnapshot) \<times> 'w" where
  "ConfigEditorClient_ReadUser transport w =
     apfst (map_sum id oaConfigEditorReadUserResult.Value)
       (callService editorName ''ReadUser'' (encOAConfigEditorReadUserArguments [] () 1)
         decodeOAConfigEditorReadUserResult transport w)"

definition ConfigEditorClient_ReplaceUser ::
    "'w exchange \<Rightarrow> bytes \<Rightarrow> UserSettings \<Rightarrow> 'w \<Rightarrow> (goerror + UserReplaceResult) \<times> 'w" where
  "ConfigEditorClient_ReplaceUser transport expectedRevision values w =
     apfst (map_sum id oaConfigEditorReplaceUserResult.Value)
       (callService editorName ''ReplaceUser''
         (encOAConfigEditorReplaceUserArguments []
           \<lparr>oaConfigEditorReplaceUserArguments.ExpectedRevision = expectedRevision, Values = values\<rparr> 1)
         decodeOAConfigEditorReplaceUserResult transport w)"

definition ConfigObserverClient_Observe ::
    "'w exchange \<Rightarrow> RunOverrides \<Rightarrow> bytes \<Rightarrow> u64 \<Rightarrow> 'w \<Rightarrow> (goerror + ConfigObservation) \<times> 'w" where
  "ConfigObserverClient_Observe transport overrides cursor waitMs w =
     apfst (map_sum id oaConfigObserverObserveResult.Value)
       (callService observerName ''Observe''
         (encOAConfigObserverObserveArguments []
           \<lparr>oaConfigObserverObserveArguments.Overrides = overrides, Cursor = cursor, WaitMs = waitMs\<rparr> 1)
         decodeOAConfigObserverObserveResult transport w)"

end
