(* ===== verification/Rpc.thy ===== *)
theory Rpc
  imports Dispatch
begin

section \<open>A call is the handler\<close>

text \<open>
  The contract between a client and a dispatcher of \<open>go/abstraction/config/rec.go\<close>: the frame a
  client writes is the frame the dispatcher reads, and the reply it gets carries the handler's
  result, or the handler's error in its wire form. The locale \<open>rpc\<close> states it once for a method
  with its argument and result codecs; the four methods of the three services are interpretations.
\<close>

context codec
begin

lemma whole:
  assumes "valid v" and "enc [] v d = Inr w" and "k + int nest \<le> depthLimit"
  shows "decodeWhole dec k w = Inr v"
  using decodes_all [OF assms] by (simp add: decodeWhole_def Let_def)

end

subsection \<open>Frames read back\<close>

lemma valid_words [simp]: "validUTF8 EndpointContract" "validUTF8 readerName" "validUTF8 editorName"
    "validUTF8 observerName"
  by (simp_all add: EndpointContract_def readerName_def editorName_def observerName_def lit_valid)

lemma servicePayload_frame:
  assumes "valid_oaServiceFrame v" and "oaServiceFrame.Version v = 1"
  shows "servicePayload (encOAServiceFrame [] v 0) = Inr v"
  using oaServiceFrame_codec.whole [OF assms(1), of 0 _ 0] assms(2)
  by (simp add: servicePayload_def depthLimit_def)

lemma decode_reply:
  assumes "valid_oaServiceReply v"
  shows "decodeWhole decodeOAServiceReply 0 (encOAServiceReply [] v 0) = Inr v"
    and "decodeOAServiceReply (ws \<lparr>rbuf = encOAServiceReply [] v 0, rpos = 0, rdepth = 0\<rparr>)
      = Inr (v, \<lparr>rbuf = encOAServiceReply [] v 0, rpos = length (encOAServiceReply [] v 0), rdepth = 0\<rparr>)"
  using oaServiceReply_codec.whole [OF assms, of 0 _ 0] oaServiceReply_codec.decodes_all(1) [OF assms, of 0 _ 0]
  by (simp_all add: depthLimit_def)

text \<open>The reply to a frame: the payload of a success, the error record of a failure.\<close>

lemma serviceReply_payload:
  assumes "validUTF8 (oaServiceFrame.Service v)" "validUTF8 (oaServiceFrame.Method v)" "valid_raw payload"
  shows "\<exists>frame. serviceReply v payload None = Inr frame \<and>
    serviceResponse frame (oaServiceFrame.Service v) (oaServiceFrame.Method v) = Inr payload"
proof -
  let ?reply = "\<lparr>oaServiceReply.Version = 1, Service = oaServiceFrame.Service v,
      Method = oaServiceFrame.Method v, Ok = True, Payload = payload\<rparr>"
  have "valid_oaServiceReply ?reply" using assms by (simp add: valid_oaServiceReply_def)
  from decode_reply [OF this] show ?thesis
    by (simp add: serviceReply_def serviceResponse_def Let_def)
qed

lemma serviceReply_error:
  assumes "validUTF8 (oaServiceFrame.Service v)" "validUTF8 (oaServiceFrame.Method v)"
    and "valid_oaServiceError (errorRecord e)" "oaServiceError.Code (errorRecord e) \<noteq> []"
  shows "\<exists>frame. serviceReply v payload (Some e) = Inr frame \<and>
    serviceResponse frame (oaServiceFrame.Service v) (oaServiceFrame.Method v) =
      Inl (ErrService (oaServiceError.Code (errorRecord e)) (oaServiceError.Message (errorRecord e)))"
proof -
  let ?p = "encOAServiceError [] (errorRecord e) 1"
  let ?reply = "\<lparr>oaServiceReply.Version = 1, Service = oaServiceFrame.Service v,
      Method = oaServiceFrame.Method v, Ok = False, Payload = ?p\<rparr>"
  have "valid_raw ?p" using oaServiceError_codec.raw [OF assms(3), of 1] by simp
  then have "valid_oaServiceReply ?reply" using assms(1,2) by (simp add: valid_oaServiceReply_def)
  note r = decode_reply [OF this]
  have "decodeWhole decodeOAServiceError 1 ?p = Inr (errorRecord e)"
    using oaServiceError_codec.whole [OF assms(3), of 1 _ 1] by (simp add: depthLimit_def)
  with r assms(4) show ?thesis
    by (simp add: serviceReply_def serviceResponse_def Let_def)
qed

text \<open>What a client returns came out of the decoder.\<close>

lemma callService_decoded:
  "callService name word arguments dec transport w = (Inr x, w') \<Longrightarrow> yields dec P \<Longrightarrow> P x"
  by (auto simp: callService_def decodeWhole_def Let_def yields_def split: sum.splits prod.splits if_splits)

lemma apfst_map_sum_Inr: "apfst (map_sum id f) p = (Inr s, w') \<Longrightarrow> \<exists>x. p = (Inr x, w') \<and> s = f x"
  by (cases p, cases "fst p") auto

text \<open>What a call does to the handler's state.\<close>

lemma snd_invoke [simp]: "snd (invoke enc dec p) = snd p"
  by (simp add: invoke_def split: prod.split)

lemma snd_answer: "snd (answer dec f v w) =
    (case decodeWhole dec 1 (oaServiceFrame.Arguments v) of Inl e \<Rightarrow> w | Inr args \<Rightarrow> snd (f args w))"
  by (auto simp: answer_def split: sum.split prod.split)

subsection \<open>One method\<close>

locale rpc =
  args: payload_codec encA decA docA validA nestA +
  result: payload_codec encR decR docR validR nestR
  for encA :: "bytes \<Rightarrow> 'a \<Rightarrow> int \<Rightarrow> Refusal + bytes" and decA docA validA nestA
    and encR :: "bytes \<Rightarrow> 'r \<Rightarrow> int \<Rightarrow> Refusal + bytes" and decR docR validR nestR +
  fixes name :: bytes and word :: String.string
    and handler :: "'a \<Rightarrow> 'w \<Rightarrow> 'r handled \<times> 'w" and exchange :: "'w exchange"
  assumes utf8_name: "validUTF8 name" and utf8_method: "validUTF8 (lit word)"
    and routes: "servicePayload frame = Inr v \<Longrightarrow> oaServiceFrame.Service v = name \<Longrightarrow>
      oaServiceFrame.Method v = lit word \<Longrightarrow>
      exchange frame w = answer decA (\<lambda>args w. invoke encR decR (handler args w)) v w"
begin

lemma nests: "1 + int nestA \<le> depthLimit" "1 + int nestR \<le> depthLimit"
  using args.shallow result.shallow by (simp_all add: depthLimit_def)

text \<open>The client's frame reaches the handler with the arguments it was called with.\<close>

lemma reaches_handler:
  assumes "validA a" and "encA [] a 1 = Inr arguments"
  obtains v where "v = \<lparr>oaServiceFrame.Version = 1, Service = name, Method = lit word, Arguments = arguments\<rparr>"
    and "servicePayload (encOAServiceFrame [] v 0) = Inr v"
    and "exchange (encOAServiceFrame [] v 0) w =
      (case invoke encR decR (handler a w) of
         (Inl e, w) \<Rightarrow> (serviceReply v [] (Some e), w)
       | (Inr payload, w) \<Rightarrow> (serviceReply v payload None, w))"
proof -
  let ?v = "\<lparr>oaServiceFrame.Version = 1, Service = name, Method = lit word, Arguments = arguments\<rparr>"
  have "valid_oaServiceFrame ?v"
    using utf8_name utf8_method args.raw [OF assms] by (simp add: valid_oaServiceFrame_def)
  then have p: "servicePayload (encOAServiceFrame [] ?v 0) = Inr ?v" by (rule servicePayload_frame) simp
  have "decodeWhole decA 1 arguments = Inr a" by (rule args.whole [OF assms nests(1)])
  then show thesis
    using that [of ?v] p routes [OF p] by (simp add: answer_def)
qed

text \<open>An endpoint hands the frame to the first service of the name.\<close>

lemma call_routed:
  assumes a: "validA a" "encA [] a 1 = Inr arguments" and "name \<noteq> EndpointContract"
    and "ServiceContract s = name" and "exchanger s = Some transport"
    and "\<forall>s' \<in> set before. ServiceContract s' \<noteq> name"
  shows "callService name word arguments decR (ServeEndpoint program version (before @ s # others)) w =
    callService name word arguments decR transport w"
proof -
  obtain v where v: "v = \<lparr>oaServiceFrame.Version = 1, Service = name, Method = lit word, Arguments = arguments\<rparr>"
    "servicePayload (encOAServiceFrame [] v 0) = Inr v"
    using reaches_handler [OF a] by blast
  have "route v frame (before @ s # others) w = transport frame w" for frame
    using assms(6) by (induction before) (simp_all add: v(1) assms(4,5))
  with v assms(3) show ?thesis by (simp add: callService_def Let_def ServeEndpoint_def)
qed

lemma call_returns:
  assumes a: "validA a" "encA [] a 1 = Inr arguments" and h: "handler a w = (Returns x, w')" and x: "validR x"
  shows "callService name word arguments decR exchange w = (Inr x, w')"
proof -
  obtain payload where p: "encR [] x 1 = Inr payload" using result.writes [OF x] by blast
  have whole: "decodeWhole decR 1 payload = Inr x" by (rule result.whole [OF x p nests(2)])
  from h p whole have "invoke encR decR (handler a w) = (Inr payload, w')" by (simp add: invoke_def)
  with reaches_handler [OF a, of w] obtain v where
    v: "v = \<lparr>oaServiceFrame.Version = 1, Service = name, Method = lit word, Arguments = arguments\<rparr>"
    "servicePayload (encOAServiceFrame [] v 0) = Inr v"
    "exchange (encOAServiceFrame [] v 0) w = (serviceReply v payload None, w')" by auto
  obtain frame where "serviceReply v payload None = Inr frame"
    "serviceResponse frame name (lit word) = Inr payload"
    using serviceReply_payload [of v payload] utf8_name utf8_method result.raw [OF x p] v(1) by auto
  with v whole show ?thesis by (simp add: callService_def)
qed

lemma call_fails:
  assumes a: "validA a" "encA [] a 1 = Inr arguments"
    and h: "invoke encR decR (handler a w) = (Inl e, w')"
    and e: "valid_oaServiceError (errorRecord e)" "oaServiceError.Code (errorRecord e) \<noteq> []"
  shows "callService name word arguments decR exchange w =
    (Inl (ErrService (oaServiceError.Code (errorRecord e)) (oaServiceError.Message (errorRecord e))), w')"
proof -
  from h reaches_handler [OF a, of w] obtain v where
    v: "v = \<lparr>oaServiceFrame.Version = 1, Service = name, Method = lit word, Arguments = arguments\<rparr>"
    "servicePayload (encOAServiceFrame [] v 0) = Inr v"
    "exchange (encOAServiceFrame [] v 0) w = (serviceReply v [] (Some e), w')" by auto
  obtain frame where "serviceReply v [] (Some e) = Inr frame"
    "serviceResponse frame name (lit word) =
      Inl (ErrService (oaServiceError.Code (errorRecord e)) (oaServiceError.Message (errorRecord e)))"
    using serviceReply_error [of v e "[]"] utf8_name utf8_method e v(1) by auto
  with v show ?thesis by (simp add: callService_def)
qed

end

subsection \<open>The four methods\<close>

lemmas exchange_defs = exchangeFrame_def ConfigReader_ExchangeFrame_def ConfigEditor_ExchangeFrame_def
  ConfigObserver_ExchangeFrame_def invokeRead_def [abs_def] invokeReadUser_def [abs_def]
  invokeReplaceUser_def [abs_def] invokeObserve_def [abs_def]

lemma names_differ [simp]: "readerName \<noteq> EndpointContract" "editorName \<noteq> EndpointContract"
    "observerName \<noteq> EndpointContract"
  by (simp_all add: EndpointContract_def readerName_def editorName_def observerName_def)

interpretation Read_rpc: rpc "\<lambda>out v d. Inr (encOAConfigReaderReadArguments out v d)"
    decodeOAConfigReaderReadArguments OAConfigReaderReadArguments_json valid_oaConfigReaderReadArguments 2
    "\<lambda>out v d. Inr (encOAConfigReaderReadResult out v d)"
    decodeOAConfigReaderReadResult OAConfigReaderReadResult_json valid_oaConfigReaderReadResult 4
    readerName "''Read''"
    "\<lambda>args w. apfst (map_handled (\<lambda>result. \<lparr>oaConfigReaderReadResult.Value = result\<rparr>))
       (Read d (oaConfigReaderReadArguments.Overrides args) w)"
    "ConfigReader_ExchangeFrame d" for d :: "'w ConfigReader"
  by unfold_locales (simp_all add: exchange_defs lit_valid)

interpretation ReadUser_rpc: rpc "\<lambda>out v d. Inr (encOAConfigEditorReadUserArguments out v d)"
    decodeOAConfigEditorReadUserArguments OAConfigEditorReadUserArguments_json "\<lambda>v. True" 1
    "\<lambda>out v d. Inr (encOAConfigEditorReadUserResult out v d)"
    decodeOAConfigEditorReadUserResult OAConfigEditorReadUserResult_json valid_oaConfigEditorReadUserResult 4
    editorName "''ReadUser''"
    "\<lambda>args w. apfst (map_handled (\<lambda>result. \<lparr>oaConfigEditorReadUserResult.Value = result\<rparr>)) (ReadUser d w)"
    "ConfigEditor_ExchangeFrame d" for d :: "'w ConfigEditor"
  by unfold_locales (simp_all add: exchange_defs lit_valid)

interpretation ReplaceUser_rpc: rpc "\<lambda>out v d. Inr (encOAConfigEditorReplaceUserArguments out v d)"
    decodeOAConfigEditorReplaceUserArguments OAConfigEditorReplaceUserArguments_json
    valid_oaConfigEditorReplaceUserArguments 3
    encOAConfigEditorReplaceUserResult
    decodeOAConfigEditorReplaceUserResult OAConfigEditorReplaceUserResult_json
    valid_oaConfigEditorReplaceUserResult 5
    editorName "''ReplaceUser''"
    "\<lambda>args w. apfst (map_handled (\<lambda>result. \<lparr>oaConfigEditorReplaceUserResult.Value = result\<rparr>))
       (ReplaceUser d (oaConfigEditorReplaceUserArguments.ExpectedRevision args)
         (oaConfigEditorReplaceUserArguments.Values args) w)"
    "ConfigEditor_ExchangeFrame d" for d :: "'w ConfigEditor"
  by unfold_locales (simp_all add: exchange_defs lit_valid)

interpretation Observe_rpc: rpc "\<lambda>out v d. Inr (encOAConfigObserverObserveArguments out v d)"
    decodeOAConfigObserverObserveArguments OAConfigObserverObserveArguments_json
    valid_oaConfigObserverObserveArguments 2
    encOAConfigObserverObserveResult
    decodeOAConfigObserverObserveResult OAConfigObserverObserveResult_json
    valid_oaConfigObserverObserveResult 5
    observerName "''Observe''"
    "\<lambda>args w. apfst (map_handled (\<lambda>result. \<lparr>oaConfigObserverObserveResult.Value = result\<rparr>))
       (Observe d (oaConfigObserverObserveArguments.Overrides args)
         (oaConfigObserverObserveArguments.Cursor args) (oaConfigObserverObserveArguments.WaitMs args) w)"
    "ConfigObserver_ExchangeFrame d" for d :: "'w ConfigObserver"
  by unfold_locales (simp_all add: exchange_defs lit_valid)

end
