(* ===== verification/CodecSpec.thy ===== *)
theory CodecSpec
  imports Codec
begin

section \<open>What the codec promises\<close>

text \<open>
  The properties of the codec of \<open>go/abstraction/config/rec.go\<close> on its own definitions: round
  trips, totality and the refusal vocabulary, and the canonical form.
\<close>

lemma Decode_written:
  assumes "valid_Snapshot v"
  shows "Decode (Encode v) = Inr v"
proof -
  let ?w = "print 0 (Snapshot_json v)"
  have d: "delimited [ch CHR 0x0A]" by (simp add: delimited_def)
  have "decodeSnapshot (ws \<lparr>rbuf = ?w @ [ch CHR 0x0A], rpos = 0, rdepth = 0\<rparr>)
      = Inr (v, \<lparr>rbuf = ?w @ [ch CHR 0x0A], rpos = length ?w, rdepth = 0\<rparr>)"
    using Snapshot_codec.decodes [OF assms _ _ d, of 0 ?w 0]
    by (simp add: encSnapshot_append depthLimit_def)
  moreover have "ws \<lparr>rbuf = ?w @ [ch CHR 0x0A], rpos = length ?w, rdepth = 0\<rparr>
      = \<lparr>rbuf = ?w @ [ch CHR 0x0A], rpos = length ?w + 1, rdepth = 0\<rparr>"
    using ws_skip [of "\<lparr>rbuf = ?w @ [ch CHR 0x0A], rpos = length ?w, rdepth = 0\<rparr>" "[ch CHR 0x0A]" "[]"]
    by (simp add: rest_def adv_def space_def)
  ultimately show ?thesis by (simp add: Decode_def Encode_print Let_def)
qed

text \<open>C1: A snapshot whose strings are UTF-8 survives the wire: \<open>Decode\<close> of what \<open>Encode\<close> wrote is the
  snapshot, whatever bytes its strings hold and however many keys its map has.\<close>

theorem Decode_Encode:
  assumes "valid_Snapshot v"
  shows "Decode (Encode v) = Inr v"
  using assms by (rule Decode_written)

definition sampleSnapshot :: Snapshot where
  "sampleSnapshot = Snapshot_zero\<lparr>Snapshot.Store := [0x5C, 0x22, 0x01, 0xC3, 0xA9],
     Snapshot.Off := fmap_of_list [(lit ''b'', lit ''x''), (lit ''a'', [])], Snapshot.Stamp := lit ''9''\<rparr>"

lemma validUTF8_sample: "validUTF8 [0x5C, 0x22, 0x01, 0xC3, 0xA9]"
  by code_simp

lemma valid_sampleSnapshot: "valid_Snapshot sampleSnapshot"
  using Snapshot_zero_valid validUTF8_sample
  by (simp add: valid_Snapshot_def sampleSnapshot_def lit_valid)

lemma Decode_Encode_witness:
  "Decode (Encode sampleSnapshot) = Inr sampleSnapshot \<and> Snapshot.Store sampleSnapshot \<noteq> []"
  using Decode_Encode [OF valid_sampleSnapshot] by (simp add: sampleSnapshot_def)

text \<open>C22: \<open>Decode\<close> is total and its refusals are in order: whatever the input, it returns a valid
  snapshot, or a refusal with a word of the declared vocabulary (of a rank that is not negative) at
  an offset inside the input or at its end.\<close>

theorem Decode_outcome:
  "case Decode inp of
     Inr v \<Rightarrow> valid_Snapshot v
   | Inl e \<Rightarrow> Word e \<in> set refusals \<and> 0 \<le> refusalRank (Word e) \<and> Offset e \<le> length inp"
proof -
  let ?r = "\<lparr>rbuf = inp, rpos = 0, rdepth = 0\<rparr>"
  have rank: "0 \<le> rank_loop ws i w" if "0 \<le> i" "w \<in> set ws" for ws i w
    using that by (induction ws i w rule: rank_loop.induct) auto
  have fine: "Word e \<in> set refusals \<and> 0 \<le> refusalRank (Word e) \<and> Offset e \<le> length inp"
    if "refused (ws ?r) e" for e
    using refused_moves [OF moves_ws [of ?r] that] rank [of 0 "Word e" refusals]
    by (auto simp: refused_def refusalRank_def)
  show ?thesis
  proof (cases "decodeSnapshot (ws ?r)")
    case (Inl e)
    with fine [OF decodeSnapshot_scan.declared [OF Inl]] show ?thesis by (simp add: Decode_def)
  next
    case (Inr vr)
    then obtain v r where v: "decodeSnapshot (ws ?r) = Inr (v, r)" by (cases vr) simp
    have "refused (ws ?r) (refuse (ws r) ''trailing_bytes'')"
      using moves_trans [OF decodeSnapshot_scan.forward [OF v] moves_ws] by (simp add: refused_refuse)
    from fine [OF this] yieldsD [OF yields_Snapshot v] v show ?thesis
      by (simp add: Decode_def Let_def)
  qed
qed

text \<open>A document with spaces, an escape and its members in another order.\<close>

definition sampleDocument :: bytes where
  "sampleDocument =
     (let q = [0x22 :: byte]; key = (\<lambda>k. q @ lit k @ q @ lit '':'');
          origin = lit ''{'' @ key ''path'' @ q @ q @ lit '','' @ key ''rung'' @ q @ lit ''default'' @ q @ lit ''}''
      in lit ''  {'' @ key ''stamp'' @ q @ lit ''7'' @ q @ lit '' ,'' @ key ''off'' @ lit ''{}, ''
        @ key ''nas_store'' @ q @ [0x5C] @ lit ''u0041'' @ q @ lit '',''
        @ key ''store'' @ q @ q @ lit '','' @ key ''log_sink'' @ q @ q @ lit '','' @ key ''log_service'' @ q @ q
        @ lit '','' @ key ''origins'' @ lit ''{''
        @ key ''off'' @ origin @ lit '','' @ key ''store'' @ origin @ lit '','' @ key ''nas_store'' @ origin
        @ lit '','' @ key ''log_sink'' @ origin @ lit '','' @ key ''log_service'' @ origin @ lit ''}} '')"

lemma Decode_sampleDocument:
  "case Decode sampleDocument of Inr v \<Rightarrow> Snapshot.NasStore v = lit ''A'' | Inl e \<Rightarrow> False"
  by code_simp

text \<open>A string survives its quotation: the scanner reads back exactly the bytes that \<open>esc\<close> wrote, for every
  UTF-8 text, control bytes, quotes and backslashes included, and stops at the closing quote.\<close>

theorem str_esc:
  assumes "validUTF8 s"
  shows "str \<lparr>rbuf = esc [] s, rpos = 0, rdepth = k\<rparr>
    = Inr (s, \<lparr>rbuf = esc [] s, rpos = length (esc [] s), rdepth = k\<rparr>)"
  using str_quoted [of "\<lparr>rbuf = quoted s, rpos = 0, rdepth = k\<rparr>" s "[]"] assms
  by (simp add: esc_append rest_def adv_def)

lemma str_esc_witness:
  "str \<lparr>rbuf = esc [] [0x22, 0x07, 0xC3, 0xA9], rpos = 0, rdepth = 0\<rparr>
    = Inr ([0x22, 0x07, 0xC3, 0xA9], \<lparr>rbuf = esc [] [0x22, 0x07, 0xC3, 0xA9],
        rpos = length (esc [] [0x22, 0x07, 0xC3, 0xA9]), rdepth = 0\<rparr>)"
  by (rule str_esc) code_simp

text \<open>Every 64-bit integer survives its decimal spelling, the least one included, although its
  magnitude is not a positive \<open>int64\<close>: \<open>integer\<close> with the full range reads what \<open>num\<close> wrote.\<close>

theorem integer_num:
  "integer \<lparr>rbuf = num [] n, rpos = 0, rdepth = 0\<rparr> (- 9223372036854775808) 9223372036854775807
    = Inr (n, \<lparr>rbuf = num [] n, rpos = length (num [] n), rdepth = 0\<rparr>)"
  using readsD [OF reads_int64 [of 0 n], of "\<lparr>rbuf = num [] n, rpos = 0, rdepth = 0\<rparr>" "[]"]
  by (simp add: rest_def adv_def delimited_def depthLimit_def)

text \<open>An opaque value is carried byte for byte: a request frame whose arguments are any document the
  encoders can write, at any indentation, reads back with the arguments exactly as they were written.\<close>

theorem frame_keeps_arguments:
  assumes "validUTF8 service" "validUTF8 method" "doc_ok 63 j"
  shows "decodeOAServiceFrame \<lparr>rbuf = encOAServiceFrame []
      \<lparr>oaServiceFrame.Version = v, Service = service, Method = method, Arguments = print d j\<rparr> 0,
      rpos = 0, rdepth = 0\<rparr>
    = Inr (\<lparr>oaServiceFrame.Version = v, Service = service, Method = method, Arguments = print d j\<rparr>,
      \<lparr>rbuf = encOAServiceFrame []
        \<lparr>oaServiceFrame.Version = v, Service = service, Method = method, Arguments = print d j\<rparr> 0,
        rpos = length (encOAServiceFrame []
          \<lparr>oaServiceFrame.Version = v, Service = service, Method = method, Arguments = print d j\<rparr> 0),
        rdepth = 0\<rparr>)"
proof -
  let ?f = "\<lparr>oaServiceFrame.Version = v, Service = service, Method = method, Arguments = print d j\<rparr>"
  let ?w = "print 0 (OAServiceFrame_json ?f)"
  have f: "valid_oaServiceFrame ?f"
    using assms valid_rawDoc [OF assms(3)] by (simp add: valid_oaServiceFrame_def)
  show ?thesis
    using readsD [OF reads_oaServiceFrame [OF f], of "\<lparr>rbuf = ?w, rpos = 0, rdepth = 0\<rparr>" 0 "[]"]
    by (simp add: encOAServiceFrame_append rest_def adv_def delimited_def depthLimit_def)
qed

lemma frame_keeps_arguments_witness:
  "\<exists>r. decodeOAServiceFrame \<lparr>rbuf = encOAServiceFrame []
      \<lparr>oaServiceFrame.Version = 1, Service = lit ''s'', Method = lit ''m'',
        Arguments = print 3 (JObject [(lit ''k'', JNumber 5)])\<rparr> 0, rpos = 0, rdepth = 0\<rparr>
    = Inr (\<lparr>oaServiceFrame.Version = 1, Service = lit ''s'', Method = lit ''m'',
        Arguments = print 3 (JObject [(lit ''k'', JNumber 5)])\<rparr>, r)"
  using frame_keeps_arguments [of "lit ''s''" "lit ''m''" "JObject [(lit ''k'', JNumber 5)]" 1 3]
  by (simp add: lit_valid del: print.simps)

text \<open>\<open>skipValue\<close> on an object is the record decoders' own member loop with \<open>skipValue\<close> for a body:
  an opaque object is judged by the same syntax, at the same depth, as a record.\<close>

theorem skipContainer_is_decodeObject:
  assumes "at r = ch CHR ''{''"
  shows "skipContainer r = decodeObject (\<lambda>k s r. skipValue r) () r"
  using assms by (rule skipContainer_decodeObject)

lemma skipContainer_is_decodeObject_witness:
  "skipContainer \<lparr>rbuf = lit ''{}'', rpos = 0, rdepth = 0\<rparr>
    = decodeObject (\<lambda>k s r. skipValue r) () \<lparr>rbuf = lit ''{}'', rpos = 0, rdepth = 0\<rparr>"
  by (rule skipContainer_is_decodeObject) (simp add: at_def lit_Cons)

end
