(* ===== verification/RpcSpec.thy ===== *)
theory RpcSpec
  imports Rpc CodecSpec
begin

section \<open>What a call promises\<close>

text \<open>
  The properties of the service half of \<open>go/abstraction/config/rec.go\<close>: a client connected to a
  dispatcher is the handler, errors and panics included, a frame can only change the handler's
  state through a method it really names, and routing does not change a call.
\<close>

definition plainInfo :: HandlerInfo where
  "plainInfo = \<lparr>Ready = None, DescribeMetadata = None\<rparr>"

definition sampleReader :: "nat ConfigReader" where
  "sampleReader = \<lparr>Read = (\<lambda>v w. if RunOverrides.Store v = [] then (Panics, w + 1)
       else (Returns (sampleSnapshot\<lparr>Snapshot.Store := RunOverrides.Store v\<rparr>), w + 1)),
     ReaderInfo = plainInfo\<rparr>"

definition sampleOverrides :: RunOverrides where
  "sampleOverrides = RunOverrides_zero\<lparr>RunOverrides.Store := lit ''s''\<rparr>"

lemma valid_sampleOverrides: "valid_RunOverrides sampleOverrides" "valid_RunOverrides RunOverrides_zero"
  by (simp_all add: sampleOverrides_def valid_RunOverrides_def RunOverrides_zero_def lit_valid)

text \<open>C7: Reading through the wire is reading: a client of a reader's dispatcher gets exactly the snapshot the
  handler returned, and the handler runs once, on the overrides the client was called with.\<close>

theorem Read_call:
  assumes "valid_RunOverrides overrides" and "Read d overrides w = (Returns s, w')" and "valid_Snapshot s"
  shows "ConfigReaderClient_Read (ConfigReader_ExchangeFrame d) overrides w = (Inr s, w')"
  using Read_rpc.call_returns [of "\<lparr>oaConfigReaderReadArguments.Overrides = overrides\<rparr>" _ d w
      "\<lparr>oaConfigReaderReadResult.Value = s\<rparr>" w'] assms
  by (simp add: ConfigReaderClient_Read_def valid_oaConfigReaderReadArguments_def
      valid_oaConfigReaderReadResult_def)

lemma Read_call_witness:
  "ConfigReaderClient_Read (ConfigReader_ExchangeFrame sampleReader) sampleOverrides 4
    = (Inr (sampleSnapshot\<lparr>Snapshot.Store := lit ''s''\<rparr>), 5)"
proof (rule Read_call)
  show "Read sampleReader sampleOverrides 4 = (Returns (sampleSnapshot\<lparr>Snapshot.Store := lit ''s''\<rparr>), 5)"
    by (simp add: sampleReader_def sampleOverrides_def)
  show "valid_Snapshot (sampleSnapshot\<lparr>Snapshot.Store := lit ''s''\<rparr>)"
    using valid_sampleSnapshot by (simp add: valid_Snapshot_def lit_valid)
qed (rule valid_sampleOverrides)

text \<open>What a handler that did not return stands for: its error, or the error its panic becomes.\<close>

fun handler_error :: "'r handled \<Rightarrow> goerror option" where
  "handler_error (Returns r) = None"
| "handler_error (Fails e) = Some e"
| "handler_error (PanicsRefusal e) = Some invalidResult"
| "handler_error Panics = Some (ErrService (lit ''handler_error'') (lit ''handler failed''))"

lemma handler_error_map [simp]: "handler_error (map_handled f h) = handler_error h"
  by (cases h) simp_all

lemma invoke_error: "handler_error h = Some e \<Longrightarrow> invoke enc dec (h, w) = (Inl e, w)"
  by (cases h) (simp_all add: invoke_def)

text \<open>C15: A handler's failure arrives: when the handler returns an error or panics, the client gets the
  service error with the code and message the error stands for on the wire, and what the
  handler did to its state stays done.\<close>

theorem Read_failure:
  assumes "valid_RunOverrides overrides" and "Read d overrides w = (h, w')" and "handler_error h = Some e"
    and "valid_oaServiceError (errorRecord e)" and "oaServiceError.Code (errorRecord e) \<noteq> []"
  shows "ConfigReaderClient_Read (ConfigReader_ExchangeFrame d) overrides w
    = (Inl (ErrService (oaServiceError.Code (errorRecord e)) (oaServiceError.Message (errorRecord e))), w')"
  using Read_rpc.call_fails [of "\<lparr>oaConfigReaderReadArguments.Overrides = overrides\<rparr>" _ d w e w'] assms
  by (simp add: ConfigReaderClient_Read_def valid_oaConfigReaderReadArguments_def invoke_error)

lemma Read_failure_witness:
  "ConfigReaderClient_Read (ConfigReader_ExchangeFrame sampleReader) RunOverrides_zero 4
    = (Inl (ErrService (lit ''handler_error'') (lit ''handler failed'')), 5)"
  using Read_failure [of RunOverrides_zero sampleReader 4 Panics 5] valid_sampleOverrides
  by (simp add: sampleReader_def RunOverrides_zero_def valid_oaServiceError_def lit_valid)

text \<open>A client only ever returns a valid snapshot, whatever the transport answers: bytes of any origin
  either become an error or a snapshot whose strings are UTF-8.\<close>

theorem Read_trusts_nothing:
  assumes "ConfigReaderClient_Read transport overrides w = (Inr s, w')"
  shows "valid_Snapshot s"
proof -
  obtain x where "callService readerName ''Read''
      (encOAConfigReaderReadArguments [] \<lparr>oaConfigReaderReadArguments.Overrides = overrides\<rparr> 1)
      decodeOAConfigReaderReadResult transport w = (Inr x, w')"
    and s: "s = oaConfigReaderReadResult.Value x"
    using assms by (auto simp: ConfigReaderClient_Read_def dest!: apfst_map_sum_Inr)
  from callService_decoded [OF this(1) yields_oaConfigReaderReadResult] s show ?thesis
    by (simp add: valid_oaConfigReaderReadResult_def)
qed

lemma Read_trusts_nothing_witness: "valid_Snapshot (sampleSnapshot\<lparr>Snapshot.Store := lit ''s''\<rparr>)"
proof (rule Read_trusts_nothing)
  have "Read sampleReader sampleOverrides 4 = (Returns (sampleSnapshot\<lparr>Snapshot.Store := lit ''s''\<rparr>), 5)"
    by (simp add: sampleReader_def sampleOverrides_def)
  then show "ConfigReaderClient_Read (ConfigReader_ExchangeFrame sampleReader) sampleOverrides 4
      = (Inr (sampleSnapshot\<lparr>Snapshot.Store := lit ''s''\<rparr>), 5)"
    using Read_rpc.call_returns [of "\<lparr>oaConfigReaderReadArguments.Overrides = sampleOverrides\<rparr>" _ sampleReader 4
        "\<lparr>oaConfigReaderReadResult.Value = sampleSnapshot\<lparr>Snapshot.Store := lit ''s''\<rparr>\<rparr>" 5]
      valid_sampleOverrides valid_sampleSnapshot
    by (simp add: ConfigReaderClient_Read_def valid_oaConfigReaderReadArguments_def
        valid_oaConfigReaderReadResult_def valid_Snapshot_def lit_valid)
qed

paragraph \<open>The editor\<close>

definition sampleSettings :: UserSettings where
  "sampleSettings = UserSettings_zero\<lparr>UserSettings.Store := lit ''s'',
     UserSettings.Off := fmap_of_list [(lit ''b'', lit ''x'')]\<rparr>"

lemma valid_sampleSettings: "valid_UserSettings sampleSettings"
  by (simp add: sampleSettings_def valid_UserSettings_def UserSettings_zero_def lit_valid)

text \<open>An editor whose state is the settings it holds; a revision \<open>x\<close> provokes an outcome that is no
  member of the vocabulary.\<close>

definition sampleResult :: "bytes \<Rightarrow> UserSettings \<Rightarrow> UserReplaceResult" where
  "sampleResult revision values =
     \<lparr>UserReplaceResult.Outcome = (if revision = lit ''x'' then 9 else UserReplaceOutcomeApplied),
      UserReplaceResult.Snapshot = \<lparr>UserSnapshot.Values = values, Revision = revision\<rparr>\<rparr>"

definition sampleEditor :: "UserSettings ConfigEditor" where
  "sampleEditor = \<lparr>ReadUser = (\<lambda>w. (Returns \<lparr>UserSnapshot.Values = w, Revision = []\<rparr>, w)),
     ReplaceUser = (\<lambda>revision values w. (Returns (sampleResult revision values), values)),
     EditorInfo = plainInfo\<rparr>"

text \<open>Replacing through the wire is replacing: the handler gets the revision and the settings the client was
  called with, and the client gets the handler's outcome and snapshot.\<close>

theorem ReplaceUser_call:
  assumes "validUTF8 revision" and "valid_UserSettings values"
    and "ReplaceUser d revision values w = (Returns x, w')" and "valid_UserReplaceResult x"
  shows "ConfigEditorClient_ReplaceUser (ConfigEditor_ExchangeFrame d) revision values w = (Inr x, w')"
  using ReplaceUser_rpc.call_returns [of "\<lparr>oaConfigEditorReplaceUserArguments.ExpectedRevision = revision,
      Values = values\<rparr>" _ d w "\<lparr>oaConfigEditorReplaceUserResult.Value = x\<rparr>" w'] assms
  by (simp add: ConfigEditorClient_ReplaceUser_def valid_oaConfigEditorReplaceUserArguments_def
      valid_oaConfigEditorReplaceUserResult_def)

lemma ReplaceUser_call_witness:
  "ConfigEditorClient_ReplaceUser (ConfigEditor_ExchangeFrame sampleEditor) [] sampleSettings UserSettings_zero
    = (Inr (sampleResult [] sampleSettings), sampleSettings)"
proof (rule ReplaceUser_call)
  show "valid_UserReplaceResult (sampleResult [] sampleSettings)"
    using valid_sampleSettings
    by (simp add: valid_UserReplaceResult_def sampleResult_def valid_UserSnapshot_def
        UserReplaceOutcome_Known_iff UserReplaceOutcomeValues_def)
qed (simp_all add: valid_sampleSettings sampleEditor_def)

text \<open>C26: An outcome outside the vocabulary never reaches the wire: the encoder's panic is caught, the client
  gets \<open>invalid_result\<close>, and the replacement the handler already made stays made.\<close>

theorem ReplaceUser_unknown_outcome:
  assumes "validUTF8 revision" and "valid_UserSettings values"
    and "ReplaceUser d revision values w = (Returns x, w')"
    and "\<not> UserReplaceOutcome_Known (UserReplaceResult.Outcome x)"
  shows "ConfigEditorClient_ReplaceUser (ConfigEditor_ExchangeFrame d) revision values w
    = (Inl (ErrService (lit ''invalid_result'') []), w')"
proof -
  let ?a = "\<lparr>oaConfigEditorReplaceUserArguments.ExpectedRevision = revision, Values = values\<rparr>"
  have "invoke encOAConfigEditorReplaceUserResult decodeOAConfigEditorReplaceUserResult
      (apfst (map_handled (\<lambda>result. \<lparr>oaConfigEditorReplaceUserResult.Value = result\<rparr>))
        (ReplaceUser d revision values w)) = (Inl invalidResult, w')"
    using assms(3,4) by (simp add: invoke_def encOAConfigEditorReplaceUserResult_append)
  then show ?thesis
    using ReplaceUser_rpc.call_fails [of ?a _ d w invalidResult w'] assms(1,2)
    by (simp add: ConfigEditorClient_ReplaceUser_def valid_oaConfigEditorReplaceUserArguments_def
        invalidResult_def valid_oaServiceError_def lit_valid)
qed

lemma ReplaceUser_unknown_outcome_witness:
  "ConfigEditorClient_ReplaceUser (ConfigEditor_ExchangeFrame sampleEditor) (lit ''x'') sampleSettings UserSettings_zero
    = (Inl (ErrService (lit ''invalid_result'') []), sampleSettings)"
  by (rule ReplaceUser_unknown_outcome [where x = "sampleResult (lit ''x'') sampleSettings"])
    (simp_all add: lit_valid valid_sampleSettings sampleEditor_def sampleResult_def
      UserReplaceOutcome_Known_iff UserReplaceOutcomeValues_def UserReplaceOutcome_tags)

text \<open>C38: Routing does not change a call: a reader reached through \<open>ServeEndpoint\<close>, among any other services,
  answers as if the client were connected to it, when it is the first one of its name.\<close>

theorem ServeEndpoint_transparent:
  assumes "valid_RunOverrides overrides" and "ServiceContract s = readerName" and "exchanger s = Some transport"
    and "\<forall>s' \<in> set before. ServiceContract s' \<noteq> readerName"
  shows "ConfigReaderClient_Read (ServeEndpoint program version (before @ s # others)) overrides w
    = ConfigReaderClient_Read transport overrides w"
  using Read_rpc.call_routed [of "\<lparr>oaConfigReaderReadArguments.Overrides = overrides\<rparr>" _ s transport before
      program version others w] assms
  by (simp add: ConfigReaderClient_Read_def valid_oaConfigReaderReadArguments_def)

lemma ServeEndpoint_transparent_witness:
  "ConfigReaderClient_Read (ServeEndpoint [] [] [
      \<lparr>described = dispatcherService readerName plainInfo, ServiceContract = readerName,
       exchanger = Some (ConfigReader_ExchangeFrame sampleReader)\<rparr>]) sampleOverrides 4
    = ConfigReaderClient_Read (ConfigReader_ExchangeFrame sampleReader) sampleOverrides 4"
  using ServeEndpoint_transparent [of sampleOverrides
      "\<lparr>described = dispatcherService readerName plainInfo, ServiceContract = readerName,
        exchanger = Some (ConfigReader_ExchangeFrame sampleReader)\<rparr>" _ "[]" "[]" "[]" "[]" 4] valid_sampleOverrides
  by simp

paragraph \<open>The observer\<close>

text \<open>Observing through the wire is observing, for every cursor and every 64-bit wait, negative ones
  included.\<close>

theorem Observe_call:
  assumes "valid_RunOverrides overrides" and "validUTF8 cursor"
    and "Observe d overrides cursor waitMs w = (Returns x, w')" and "valid_ConfigObservation x"
  shows "ConfigObserverClient_Observe (ConfigObserver_ExchangeFrame d) overrides cursor waitMs w = (Inr x, w')"
  using Observe_rpc.call_returns [of "\<lparr>oaConfigObserverObserveArguments.Overrides = overrides,
      Cursor = cursor, WaitMs = waitMs\<rparr>" _ d w "\<lparr>oaConfigObserverObserveResult.Value = x\<rparr>" w'] assms
  by (simp add: ConfigObserverClient_Observe_def valid_oaConfigObserverObserveArguments_def
      valid_oaConfigObserverObserveResult_def)

definition sampleObserver :: "nat ConfigObserver" where
  "sampleObserver = \<lparr>Observe = (\<lambda>v cursor waitMs w.
       (Returns \<lparr>ConfigObservation.Outcome = ConfigObservationOutcomeUnchanged, Cursor = cursor, Snapshot = None\<rparr>,
        w + 1)), ObserverInfo = plainInfo\<rparr>"

lemma Observe_call_witness:
  "ConfigObserverClient_Observe (ConfigObserver_ExchangeFrame sampleObserver) RunOverrides_zero (lit ''c'') (- 5) 1
    = (Inr \<lparr>ConfigObservation.Outcome = ConfigObservationOutcomeUnchanged, Cursor = lit ''c'', Snapshot = None\<rparr>, 2)"
  by (rule Observe_call)
    (simp_all add: valid_sampleOverrides lit_valid sampleObserver_def valid_ConfigObservation_def
      ConfigObservationOutcome_Known_iff ConfigObservationOutcomeValues_def ConfigObservationOutcome_tags)

end
