(* ===== verification/GoText.thy ===== *)
theory GoText
  imports Emit Reader
begin

section \<open>Go's text primitives\<close>

text \<open>
  What the hand-written code uses of \<open>unicode/utf8\<close>, \<open>bytes.TrimSpace\<close> and \<open>encoding/hex\<close>: the size
  of the first rune of a byte string as \<open>utf8.DecodeRune\<close> reports it, white space in Unicode's sense,
  and hexadecimal text. The lemmas show that a rune's encoding is one rune, that every byte string
  of encodings is cut into them, and that hexadecimal text determines its bytes.
\<close>

subsection \<open>Runes\<close>

text \<open>\<open>runeSize b\<close> is the size \<open>utf8.DecodeRune\<close> gives, with \<open>0\<close> for \<open>(RuneError, 1)\<close>, no valid encoding.\<close>

definition leadSize :: "byte \<Rightarrow> nat" where
  "leadSize c = (if c < 0x80 then 1 else case utf8_lead c of Some (n, _) \<Rightarrow> n | None \<Rightarrow> 0)"

definition runeSize :: "bytes \<Rightarrow> nat" where
  "runeSize b =
     (case b of [] \<Rightarrow> 0 | c # _ \<Rightarrow>
       (let n = leadSize c in if 0 < n \<and> n \<le> length b \<and> validUTF8 (take n b) then n else 0))"

text \<open>\<open>utf8.RuneError\<close>, encoded.\<close>

definition replacement :: bytes where
  "replacement = [0xEF, 0xBF, 0xBD]"

lemma leadSize_utf8:
  assumes "scalar k"
  shows "leadSize (hd (utf8 k)) = length (utf8 k)"
proof (cases "k < 0x80")
  case True
  then have "nb k < 0x80" by (simp add: byte_less_80 unat_nb)
  with True show ?thesis by (simp add: utf8_def leadSize_def)
next
  case False
  with assms show ?thesis by (auto simp: leadSize_def elim!: utf8_complete [of k])
qed

lemma utf8_single: "scalar k \<Longrightarrow> validUTF8 (utf8 k)"
  using utf8_text_Cons [of k "[]"] by (simp add: validUTF8_iff)

lemma runeSize_utf8: "scalar k \<Longrightarrow> runeSize (utf8 k @ t) = length (utf8 k)"
  using leadSize_utf8 [of k] utf8_single [of k]
  by (cases "utf8 k") (simp_all add: runeSize_def Let_def)

lemma runeSize_le: "runeSize b \<le> length b"
  by (auto simp: runeSize_def Let_def split: list.split)

lemma runeSize_pos:
  assumes "0 < runeSize b"
  obtains k where "scalar k" "b = utf8 k @ drop (runeSize b) b" "length (utf8 k) = runeSize b"
proof -
  let ?n = "runeSize b"
  obtain c cs where b: "b = c # cs" using assms by (cases b) (simp_all add: runeSize_def)
  then have n: "?n = leadSize c" "?n \<le> length b" "validUTF8 (take ?n b)"
    using assms by (auto simp: runeSize_def Let_def split: if_splits)
  then have "take ?n b \<noteq> []" using assms b by (cases ?n) simp_all
  with n(3) obtain k t where k: "scalar k" "take ?n b = utf8 k @ t"
    by (auto simp: validUTF8_iff elim: utf8_text_cases)
  have "hd (utf8 k) = c" using k(2) b assms
    by (metis hd_append2 hd_take list.sel(1) utf8_nonempty)
  then have l: "length (utf8 k) = ?n" using leadSize_utf8 [OF k(1)] n(1) by simp
  moreover have "length (take ?n b) = ?n" using n(2) by simp
  ultimately have "t = []" using k(2) by simp
  then have "b = utf8 k @ drop ?n b" using k(2) by (metis append_Nil2 append_take_drop_id)
  with that k(1) l show thesis by blast
qed

text \<open>Cutting a valid string into runes, as every loop over runes does.\<close>

lemma rune_induct [consumes 1, case_names Nil rune]:
  assumes "validUTF8 s" and "P []"
    and "\<And>k t. scalar k \<Longrightarrow> validUTF8 t \<Longrightarrow> P t \<Longrightarrow> P (utf8 k @ t)"
  shows "P s"
proof -
  obtain cs where "\<forall>c \<in> set cs. scalar c" "s = concat (map utf8 cs)"
    using assms(1) by (auto simp: validUTF8_iff utf8_text_def)
  moreover have "\<forall>c \<in> set cs. scalar c \<Longrightarrow> P (concat (map utf8 cs)) \<and> utf8_text (concat (map utf8 cs))" for cs
    using assms(2,3) by (induction cs) (auto simp: validUTF8_iff utf8_text_Cons)
  ultimately show ?thesis by blast
qed

lemma utf8_byte: "c < 0x80 \<Longrightarrow> scalar (unat c) \<and> utf8 (unat c) = [c]"
  by (simp add: scalar_def utf8_def nb_unat byte_less_80)

text \<open>The first byte of a rune is its only one, or no byte of it is ASCII.\<close>

lemma utf8_ascii: "scalar k \<Longrightarrow> c \<in> set (utf8 k) \<Longrightarrow> c < 0x80 \<Longrightarrow> utf8 k = [c]"
proof -
  assume k: "scalar k" "c \<in> set (utf8 k)" "c < 0x80"
  have high: "\<not> nb n < 0x80" if "128 \<le> n" "n < 256" for n
    using that by (simp add: byte_less_80 unat_nb)
  have "k < 0x110000" using k(1) by (simp add: scalar_def)
  then have "k div 262144 < 8" "k div 4096 < 272" by simp_all
  with k show ?thesis
    by (auto simp: utf8_def high split: if_splits)
qed

end
