(* ===== verification/GoJson.thy ===== *)
theory GoJson
  imports GoText Reads
begin

section \<open>JSON as \<open>encoding/json\<close> reads and writes it\<close>

text \<open>
  Go's own JSON, which \<open>go/config.go\<close> and \<open>go/user_editor.go\<close> use for the files: \<open>goParse\<close> is a
  complete document as \<open>json.Unmarshal\<close> scans it (RFC 8259 with at most 10000 open containers, invalid
  UTF-8 and lone surrogates read as U+FFFD), \<open>goWrite\<close> the text of \<open>json.Marshal\<close> and
  \<open>json.MarshalIndent\<close>, which differ in their white space only. It is another dialect than the wire's:
  the reader of \<open>rec.go\<close> refuses what this one repairs, and \<open>goEscape\<close> also escapes \<open><\<close>, \<open>>\<close>, \<open>&\<close>,
  U+2028 and U+2029. The lemmas show that \<open>goParse\<close> reads back every document \<open>goWrite\<close> writes with
  valid strings, in either layout.
\<close>

subsection \<open>Values\<close>

datatype gojson =
    Vnull
  | Vbool bool
  | Vnum bytes
  | Vstr bytes
  | Varr "gojson list"
  | Vobj "(bytes \<times> gojson) list"

subsection \<open>Writing strings\<close>

definition htmlSafe :: "byte \<Rightarrow> bool" where
  "htmlSafe c \<longleftrightarrow> 0x20 \<le> c \<and> c \<noteq> ch CHR 0x22 \<and> c \<noteq> ch CHR 0x5C \<and> c \<noteq> ch CHR ''<'' \<and> c \<noteq> ch CHR ''>''
     \<and> c \<noteq> ch CHR ''&''"

definition goEscapeByte :: "byte \<Rightarrow> bytes" where
  "goEscapeByte c =
     (if htmlSafe c then [c]
      else ch CHR 0x5C #
        (if c = ch CHR 0x5C \<or> c = ch CHR 0x22 then [c]
         else if c = 0x08 then [ch CHR ''b'']
         else if c = 0x0C then [ch CHR ''f'']
         else if c = ch CHR 0x0A then [ch CHR ''n'']
         else if c = ch CHR 0x0D then [ch CHR ''r'']
         else if c = ch CHR 0x09 then [ch CHR ''t'']
         else [ch CHR ''u'', ch CHR ''0'', ch CHR ''0'', hexdigits ! unat (drop_bit 4 c), hexdigits ! unat (c AND 0xF)]))"

text \<open>One rune of two or more bytes: U+2028 and U+2029 are escaped too.\<close>

definition goEscapeRune :: "bytes \<Rightarrow> bytes" where
  "goEscapeRune r =
     (if r = [0xE2, 0x80, 0xA8] then ch CHR 0x5C # lit ''u2028''
      else if r = [0xE2, 0x80, 0xA9] then ch CHR 0x5C # lit ''u2029''
      else r)"

function goEscape :: "bytes \<Rightarrow> bytes" where
  "goEscape s =
     (case s of [] \<Rightarrow> [] | c # cs \<Rightarrow>
      if c < 0x80 then goEscapeByte c @ goEscape cs
      else (let n = runeSize s in
        if n = 0 then ch CHR 0x5C # lit ''ufffd'' @ goEscape cs
        else goEscapeRune (take n s) @ goEscape (drop n s)))"
  by pat_completeness auto
termination by (relation "measure length") auto

declare goEscape.simps [simp del]

definition goQuoted :: "bytes \<Rightarrow> bytes" where
  "goQuoted s = ch CHR 0x22 # goEscape s @ [ch CHR 0x22]"

subsection \<open>Writing documents\<close>

text \<open>The two layouts: what stands at the start of a member or element at a depth, and behind a colon.\<close>

record layout =
  line :: "nat \<Rightarrow> bytes"
  colon :: bytes

definition compact :: layout where
  "compact = \<lparr>line = (\<lambda>d. []), colon = []\<rparr>"

definition indented :: layout where
  "indented = \<lparr>line = (\<lambda>d. ch CHR 0x0A # replicate (2 * d) (ch CHR '' '')), colon = [ch CHR '' '']\<rparr>"

fun goWrite :: "layout \<Rightarrow> nat \<Rightarrow> gojson \<Rightarrow> bytes"
  and goWriteItems :: "layout \<Rightarrow> nat \<Rightarrow> gojson list \<Rightarrow> bytes"
  and goWriteMembers :: "layout \<Rightarrow> nat \<Rightarrow> (bytes \<times> gojson) list \<Rightarrow> bytes" where
  "goWrite l d Vnull = lit ''null''"
| "goWrite l d (Vbool b) = (if b then lit ''true'' else lit ''false'')"
| "goWrite l d (Vnum n) = n"
| "goWrite l d (Vstr s) = goQuoted s"
| "goWrite l d (Varr vs) =
     ch CHR ''['' # (if vs = [] then [] else goWriteItems l (d + 1) vs @ line l d) @ [ch CHR '']'']"
| "goWrite l d (Vobj ms) =
     ch CHR ''{'' # (if ms = [] then [] else goWriteMembers l (d + 1) ms @ line l d) @ [ch CHR ''}'']"
| "goWriteItems l d [] = []"
| "goWriteItems l d (v # vs) =
     line l d @ goWrite l d v @ (if vs = [] then [] else ch CHR '','' # goWriteItems l d vs)"
| "goWriteMembers l d [] = []"
| "goWriteMembers l d ((k, v) # ms) =
     line l d @ goQuoted k @ ch CHR '':'' # colon l @ goWrite l d v
       @ (if ms = [] then [] else ch CHR '','' # goWriteMembers l d ms)"

subsection \<open>Reading strings\<close>

text \<open>\<open>surrogatePair u s\<close> is the code point when \<open>s\<close> continues the high surrogate \<open>u\<close>.\<close>

definition surrogatePair :: "u32 \<Rightarrow> bytes \<Rightarrow> u32 option" where
  "surrogatePair u s =
     (if 6 \<le> length s \<and> s ! 0 = ch CHR 0x5C \<and> s ! 1 = ch CHR ''u'' then
        (case hex_loop (take 4 (drop 2 s)) 0 of
           Some lo \<Rightarrow> if 0xD800 \<le> u \<and> u < 0xDC00 \<and> 0xDC00 \<le> lo \<and> lo < 0xE000
             then Some (0x10000 + push_bit 10 (u - 0xD800) + (lo - 0xDC00)) else None
         | None \<Rightarrow> None)
      else None)"

text \<open>One character of a literal: the bytes it stands for, and what follows it.\<close>

definition goChar :: "bytes \<Rightarrow> (bytes \<times> bytes) option" where
  "goChar s =
     (case s of [] \<Rightarrow> None | c # cs \<Rightarrow>
      if c = ch CHR 0x5C then
        (case cs of [] \<Rightarrow> None | e # es \<Rightarrow>
          (case escape_byte e of
             Some b \<Rightarrow> Some ([b], es)
           | None \<Rightarrow>
               if e \<noteq> ch CHR ''u'' \<or> length es < 4 then None
               else (case hex_loop (take 4 es) 0 of
                   None \<Rightarrow> None
                 | Some u \<Rightarrow>
                     if 0xD800 \<le> u \<and> u < 0xE000 then
                       (case surrogatePair u (drop 4 es) of
                          Some r \<Rightarrow> Some (appendRune [] r, drop 10 es)
                        | None \<Rightarrow> Some (replacement, drop 4 es))
                     else Some (appendRune [] u, drop 4 es))))
      else if c < 0x20 then None
      else if c < 0x80 then Some ([c], cs)
      else if runeSize s = 0 then Some (replacement, cs)
      else Some (take (runeSize s) s, drop (runeSize s) s))"

lemma goChar_shorter: "goChar s = Some (x, t) \<Longrightarrow> length t < length s"
  by (auto simp: goChar_def split: list.splits if_splits option.splits)

text \<open>A string behind its opening quote, and what follows its closing quote.\<close>

function goStr :: "bytes \<Rightarrow> bytes \<Rightarrow> (bytes \<times> bytes) option" where
  "goStr out s =
     (if s \<noteq> [] \<and> hd s = ch CHR 0x22 then Some (out, tl s)
      else (case goChar s of None \<Rightarrow> None | Some (x, t) \<Rightarrow> goStr (out @ x) t))"
  by pat_completeness auto
termination by (relation "measure (\<lambda>(out, s). length s)") (auto dest: goChar_shorter)

declare goStr.simps [simp del]

lemma goStr_shorter: "goStr out s = Some (x, t) \<Longrightarrow> length t < length s"
proof (induction out s rule: goStr.induct)
  case (1 out s)
  show ?case
  proof (cases "s \<noteq> [] \<and> hd s = ch CHR 0x22")
    case True
    then have "t = tl s" using "1.prems" by (simp add: goStr.simps [of out s])
    with True show ?thesis by (cases s) simp_all
  next
    case False
    with "1.prems" obtain y u where y: "goChar s = Some (y, u)" "goStr (out @ y) u = Some (x, t)"
      by (auto simp: goStr.simps [of out s] split: option.splits)
    from "1.IH" [OF False y(1) refl y(2)] goChar_shorter [OF y(1)] show ?thesis by simp
  qed
qed

subsection \<open>Reading documents\<close>

definition skipSpace :: "bytes \<Rightarrow> bytes" where
  "skipSpace s = dropWhile space s"

text \<open>A number, kept as it is spelled.\<close>

definition goDigits :: "bytes \<Rightarrow> (bytes \<times> bytes) option" where
  "goDigits s = (if takeWhile digit s = [] then None else Some (takeWhile digit s, dropWhile digit s))"

definition goInteger :: "bytes \<Rightarrow> (bytes \<times> bytes) option" where
  "goInteger s =
     (case s of [] \<Rightarrow> None | c # cs \<Rightarrow> if c = ch CHR ''0'' then Some ([c], cs) else goDigits s)"

definition goFraction :: "bytes \<Rightarrow> (bytes \<times> bytes) option" where
  "goFraction s =
     (case s of [] \<Rightarrow> Some ([], s) | c # cs \<Rightarrow>
      if c = ch CHR ''.'' then map_option (apfst (Cons c)) (goDigits cs) else Some ([], s))"

definition goExponent :: "bytes \<Rightarrow> (bytes \<times> bytes) option" where
  "goExponent s =
     (case s of [] \<Rightarrow> Some ([], s) | c # cs \<Rightarrow>
      if c = ch CHR ''e'' \<or> c = ch CHR ''E'' then
        (case cs of [] \<Rightarrow> None | g # gs \<Rightarrow>
          if g = ch CHR ''+'' \<or> g = ch CHR ''-'' then map_option (apfst (\<lambda>x. c # g # x)) (goDigits gs)
          else map_option (apfst (Cons c)) (goDigits cs))
      else Some ([], s))"

definition goNumber :: "bytes \<Rightarrow> (bytes \<times> bytes) option" where
  "goNumber s =
     (let (m, s) = (if s \<noteq> [] \<and> hd s = ch CHR ''-'' then ([hd s], tl s) else ([], s)) in
      case goInteger s of None \<Rightarrow> None | Some (n, s) \<Rightarrow>
      case goFraction s of None \<Rightarrow> None | Some (f, s) \<Rightarrow>
      case goExponent s of None \<Rightarrow> None | Some (e, s) \<Rightarrow> Some (m @ n @ f @ e, s))"

text \<open>The containers that may be open at once (\<open>maxNestingDepth\<close>).\<close>

definition goDepth :: nat where
  "goDepth = 10000"

definition goWord :: "String.string \<Rightarrow> gojson \<Rightarrow> bytes \<Rightarrow> (gojson \<times> bytes) option" where
  "goWord w v s = (if take (length w) s = lit w then Some (v, drop (length w) s) else None)"

text \<open>
  \<open>goValue d s\<close> reads the value at the start of \<open>s\<close> inside \<open>d\<close> open containers. The two loops
  compare what is left with what they started from; \<open>goValue_shorter\<close> shows the comparison holds.
\<close>

function goValue :: "nat \<Rightarrow> bytes \<Rightarrow> (gojson \<times> bytes) option"
  and goItems :: "nat \<Rightarrow> gojson list \<Rightarrow> bytes \<Rightarrow> (gojson \<times> bytes) option"
  and goMembers :: "nat \<Rightarrow> (bytes \<times> gojson) list \<Rightarrow> bytes \<Rightarrow> (gojson \<times> bytes) option" where
  "goValue d s =
     (case s of [] \<Rightarrow> None | c # cs \<Rightarrow>
      if c = ch CHR ''{'' then
        (if goDepth \<le> d then None
         else (case skipSpace cs of [] \<Rightarrow> None | e # es \<Rightarrow>
           if e = ch CHR ''}'' then Some (Vobj [], es) else goMembers (d + 1) [] (e # es)))
      else if c = ch CHR ''['' then
        (if goDepth \<le> d then None
         else (case skipSpace cs of [] \<Rightarrow> None | e # es \<Rightarrow>
           if e = ch CHR '']'' then Some (Varr [], es) else goItems (d + 1) [] (e # es)))
      else if c = ch CHR 0x22 then map_option (apfst Vstr) (goStr [] cs)
      else if c = ch CHR ''t'' then goWord ''true'' (Vbool True) s
      else if c = ch CHR ''f'' then goWord ''false'' (Vbool False) s
      else if c = ch CHR ''n'' then goWord ''null'' Vnull s
      else map_option (apfst Vnum) (goNumber s))"
| "goItems d vs s =
     (case goValue d s of None \<Rightarrow> None | Some (v, t) \<Rightarrow>
      (case skipSpace t of [] \<Rightarrow> None | c # cs \<Rightarrow>
       if c = ch CHR '','' then
         (if length cs < length s then goItems d (vs @ [v]) (skipSpace cs) else None)
       else if c = ch CHR '']'' then Some (Varr (vs @ [v]), cs)
       else None))"
| "goMembers d ms s =
     (if s = [] \<or> hd s \<noteq> ch CHR 0x22 then None
      else (case goStr [] (tl s) of None \<Rightarrow> None | Some (k, t) \<Rightarrow>
        (case skipSpace t of [] \<Rightarrow> None | c # cs \<Rightarrow>
         if c \<noteq> ch CHR '':'' then None
         else (case goValue d (skipSpace cs) of None \<Rightarrow> None | Some (v, u) \<Rightarrow>
           (case skipSpace u of [] \<Rightarrow> None | c # cs \<Rightarrow>
            if c = ch CHR '','' then
              (if length cs < length s then goMembers d (ms @ [(k, v)]) (skipSpace cs) else None)
            else if c = ch CHR ''}'' then Some (Vobj (ms @ [(k, v)]), cs)
            else None)))))"
  by pat_completeness auto

lemma length_skipSpace: "length (skipSpace s) \<le> length s"
  by (simp add: skipSpace_def length_dropWhile_le)

lemma skipSpace_shorter: "skipSpace s = c # cs \<Longrightarrow> length cs < length s"
  using length_skipSpace [of s] by simp

termination goValue
proof (relation "measures
    [\<lambda>x. case x of Inl (d, s) \<Rightarrow> length s | Inr (Inl (d, vs, s)) \<Rightarrow> length s | Inr (Inr (d, ms, s)) \<Rightarrow> length s,
     \<lambda>x. case x of Inl (d, s) \<Rightarrow> 0 | Inr y \<Rightarrow> 1]", goal_cases)
  case (6 d ms s kt k t c cs)
  then have "length t < length (tl s)" by (auto dest: goStr_shorter)
  moreover have "length (skipSpace cs) < length t"
    using 6 length_skipSpace [of cs] by (auto dest!: skipSpace_shorter)
  ultimately have "length (skipSpace cs) < length s" by simp
  then show ?case by simp
qed (auto dest!: skipSpace_shorter intro: le_less_trans [OF length_skipSpace])

declare goValue.simps [simp del] goItems.simps [simp del] goMembers.simps [simp del]

definition goParse :: "bytes \<Rightarrow> gojson option" where
  "goParse s =
     (case goValue 0 (skipSpace s) of None \<Rightarrow> None
      | Some (v, t) \<Rightarrow> if skipSpace t = [] then Some v else None)"

subsection \<open>Reading what was written\<close>

lemma goStr_char:
  assumes "goChar s = Some (x, t)" and "s \<noteq> []" and "hd s \<noteq> ch CHR 0x22"
  shows "goStr out s = goStr (out @ x) t"
  using assms by (simp add: goStr.simps [of out s])

lemma hexdigits_plain:
  "n < 16 \<Longrightarrow> hexdigits ! n < 0x80 \<and> hexdigits ! n \<noteq> ch CHR 0x22 \<and> hexdigits ! n \<noteq> ch CHR 0x5C"
proof -
  assume "n < 16"
  moreover have "\<forall>n \<in> set [0..<16]. hexdigits ! n < 0x80 \<and> hexdigits ! n \<noteq> ch CHR 0x22 \<and> hexdigits ! n \<noteq> ch CHR 0x5C"
    by code_simp
  ultimately show ?thesis by simp
qed

definition plain_text :: "bytes \<Rightarrow> bool" where
  "plain_text s \<longleftrightarrow> (\<forall>b \<in> set s. b < 0x80 \<and> b \<noteq> ch CHR 0x22 \<and> b \<noteq> ch CHR 0x5C)"

lemma control_text_plain: "plain_text (control_text c)"
proof -
  have "unat (drop_bit 4 c) < 16" using unsigned_less [of c, where ?'a = nat] by (simp add: unat_drop)
  moreover have "unat (c AND 0xF) < 16" using unat_and_mask [of c 4] by (simp add: mask_eq_exp_minus_1)
  ultimately show ?thesis
    using hexdigits_plain by (simp add: plain_text_def control_text_def)
qed

lemma goEscapeByte_cases:
  assumes "c < 0x80"
  obtains (plain) "goEscapeByte c = [c]" "c \<noteq> ch CHR 0x22" "c \<noteq> ch CHR 0x5C" "\<not> c < 0x20"
    | (short) e where "goEscapeByte c = [ch CHR 0x5C, e]" "escape_byte e = Some c" "e \<noteq> ch CHR ''u''" "e < 0x80"
    | (code) "goEscapeByte c = ch CHR 0x5C # ch CHR ''u'' # control_text c"
        "hex_loop (control_text c) 0 = Some (ucast c)" "c < 0x40"
proof (cases "htmlSafe c")
  case True
  then show thesis using plain by (auto simp: htmlSafe_def goEscapeByte_def)
next
  case False
  have code: thesis if "c \<notin> {ch CHR 0x22, ch CHR 0x5C, 0x08, 0x0C, 0x0A, 0x0D, 0x09}" "c < 0x40"
      "hex_loop (control_text c) 0 = Some (ucast c)"
    by (rule code) (use False that in \<open>simp_all add: goEscapeByte_def control_text_def del: hex_loop.simps\<close>)
  have three: "hex_loop (control_text 60) 0 = Some 60" "hex_loop (control_text 62) 0 = Some 62"
    "hex_loop (control_text 38) 0 = Some 38"
    by code_simp+
  consider "c = ch CHR 0x22" | "c = ch CHR 0x5C" | "c \<in> {0x08, 0x0C, 0x0A, 0x0D, 0x09}"
    | "c \<in> {ch CHR ''<'', ch CHR ''>'', ch CHR ''&''}"
    | "c < 0x20" "c \<notin> {0x08, 0x0C, 0x0A, 0x0D, 0x09}"
    using False by (auto simp: htmlSafe_def not_le)
  then show thesis
  proof cases
    case 3
    then show thesis
      using False short [of "ch CHR ''b''"] short [of "ch CHR ''f''"] short [of "ch CHR ''n''"]
        short [of "ch CHR ''r''"] short [of "ch CHR ''t''"]
      by (auto simp: goEscapeByte_def escape_byte_def)
  next
    case 4
    then show thesis by (elim insertE emptyE; hypsubst; intro code) (simp_all add: three del: hex_loop.simps)
  next
    case 5
    then have "c < 0x40" using less_trans [of c "0x20" "0x40"] by simp
    with 5 control_escape [of c] show thesis by (intro code) (auto simp: control_text_def)
  qed (use False short [of c] in \<open>auto simp: goEscapeByte_def escape_byte_def\<close>)
qed

subsection \<open>Strings read back\<close>

text \<open>The written form of one rune.\<close>

definition goPiece :: "nat \<Rightarrow> bytes" where
  "goPiece k = (if k < 0x80 then goEscapeByte (nb k) else goEscapeRune (utf8 k))"

lemma goEscape_Nil [simp]: "goEscape [] = []"
  by (simp add: goEscape.simps)

lemma utf8_low: "k < 0x80 \<Longrightarrow> utf8 k = [nb k]"
  by (simp add: utf8_def)

lemma utf8_high:
  assumes "scalar k" and "\<not> k < 0x80"
  obtains c cs where "utf8 k = c # cs" "\<not> c < 0x80"
  using utf8_complete [of k] assms by (metis not_le)

lemma goEscape_rune: "scalar k \<Longrightarrow> goEscape (utf8 k @ s) = goPiece k @ goEscape s"
proof (cases "k < 0x80")
  case True
  then show ?thesis
    by (simp add: goEscape.simps [of "nb k # s"] goPiece_def utf8_low byte_less_80 unat_nb)
next
  case False
  assume k: "scalar k"
  obtain c cs where c: "utf8 k = c # cs" "\<not> c < 0x80" using utf8_high [OF k False] .
  have "runeSize (c # cs @ s) = length (utf8 k)" using runeSize_utf8 [OF k, of s] c by simp
  with c False show ?thesis
    by (simp add: goEscape.simps [of "c # cs @ s"] goPiece_def Let_def)
qed

lemma goChar_backslash:
  "escape_byte e = Some b \<Longrightarrow> goChar (ch CHR 0x5C # e # t) = Some ([b], t)"
  by (simp add: goChar_def)

lemma escape_u_none: "escape_byte (ch CHR ''u'') = None"
  by code_simp

lemma goChar_code:
  assumes "length h = 4" and "hex_loop h 0 = Some u" and "\<not> (0xD800 \<le> u \<and> u < 0xE000)"
  shows "goChar (ch CHR 0x5C # ch CHR ''u'' # h @ t) = Some (appendRune [] u, t)"
proof -
  have "goChar (ch CHR 0x5C # ch CHR ''u'' # h @ t) =
      (if 0xD800 \<le> u \<and> u < 0xE000 then
         (case surrogatePair u t of Some r \<Rightarrow> Some (appendRune [] r, drop 10 (h @ t)) | None \<Rightarrow> Some (replacement, t))
       else Some (appendRune [] u, t))"
    using assms(1,2) escape_u_none by (simp add: goChar_def del: hex_loop.simps split: option.split)
  with assms(3) show ?thesis by (simp only: if_False)
qed

lemma goChar_byte:
  assumes "c < 0x80"
  shows "goChar (goEscapeByte c @ t) = Some ([c], t)" and "hd (goEscapeByte c @ t) \<noteq> ch CHR 0x22"
    and "goEscapeByte c \<noteq> []"
proof -
  have "goChar (goEscapeByte c @ t) = Some ([c], t) \<and> hd (goEscapeByte c @ t) \<noteq> ch CHR 0x22
      \<and> goEscapeByte c \<noteq> []"
    using assms
  proof (cases rule: goEscapeByte_cases)
    case plain
    with assms show ?thesis by (simp add: goChar_def)
  next
    case (short e)
    then show ?thesis using goChar_backslash [of e c t] by simp
  next
    case code
    have "c < 0x20 \<or> \<not> c < 0x20" by simp
    have u: "unat (ucast c :: u32) = unat c" by (rule unat_byte_u32)
    have "unat c < 64" using code(3) by (simp add: word_less_nat_alt)
    then have "\<not> (0xD800 \<le> (ucast c :: u32) \<and> ucast c < (0xE000 :: u32))"
      by (simp add: word_le_nat_alt u)
    moreover have "appendRune [] (ucast c) = [c]"
      using appendRune_utf8 [of "ucast c" "[]"] \<open>unat c < 64\<close> by (simp add: u utf8_low)
    ultimately show ?thesis
      using goChar_code [of "control_text c" "ucast c" t] code by (simp add: control_text_def)
  qed
  then show "goChar (goEscapeByte c @ t) = Some ([c], t)" and "hd (goEscapeByte c @ t) \<noteq> ch CHR 0x22"
    and "goEscapeByte c \<noteq> []" by blast+
qed

lemma goEscapeRune_cases:
  obtains (ls) "goEscapeRune r = ch CHR 0x5C # ch CHR ''u'' # lit ''2028''" "r = [0xE2, 0x80, 0xA8]"
    | (ps) "goEscapeRune r = ch CHR 0x5C # ch CHR ''u'' # lit ''2029''" "r = [0xE2, 0x80, 0xA9]"
    | (plain) "goEscapeRune r = r"
  using that by (cases "r = [0xE2, 0x80, 0xA8]"; cases "r = [0xE2, 0x80, 0xA9]") (simp_all add: goEscapeRune_def lit_Cons)

lemma separators:
  "hex_loop (lit ''2028'') 0 = Some 0x2028" "appendRune [] 0x2028 = [0xE2, 0x80, 0xA8]"
  "hex_loop (lit ''2029'') 0 = Some 0x2029" "appendRune [] 0x2029 = [0xE2, 0x80, 0xA9]"
  by code_simp+

lemma goChar_piece:
  assumes "scalar k"
  shows "goChar (goPiece k @ t) = Some (utf8 k, t)" and "hd (goPiece k @ t) \<noteq> ch CHR 0x22"
    and "goPiece k \<noteq> []"
proof -
  have "goChar (goPiece k @ t) = Some (utf8 k, t) \<and> hd (goPiece k @ t) \<noteq> ch CHR 0x22 \<and> goPiece k \<noteq> []"
  proof (cases "k < 0x80")
    case True
    then have "nb k < 0x80" by (simp add: byte_less_80 unat_nb)
    with True goChar_byte(1,2) [of "nb k" t] goChar_byte(3) [of "nb k"] show ?thesis by (simp add: goPiece_def utf8_low del: hd_append2)
  next
    case False
    obtain c cs where c: "utf8 k = c # cs" "\<not> c < 0x80" using utf8_high [OF assms False] .
    show ?thesis
    proof (cases rule: goEscapeRune_cases [of "utf8 k"])
      case ls
      with False separators goChar_code [where h = "lit ''2028''" and u = "0x2028" and t = t] show ?thesis
        by (simp add: goPiece_def)
    next
      case ps
      with False separators goChar_code [where h = "lit ''2029''" and u = "0x2029" and t = t] show ?thesis
        by (simp add: goPiece_def)
    next
      case plain
      have "c \<noteq> ch CHR 0x22" "c \<noteq> ch CHR 0x5C" "\<not> c < 0x20" using c(2) by (auto simp: byte_less_80 word_less_nat_alt)
      moreover have "runeSize (c # cs @ t) = length (utf8 k)" using runeSize_utf8 [OF assms, of t] c by simp
      ultimately show ?thesis using c False plain by (simp add: goPiece_def goChar_def)
    qed
  qed
  then show "goChar (goPiece k @ t) = Some (utf8 k, t)" and "hd (goPiece k @ t) \<noteq> ch CHR 0x22"
    and "goPiece k \<noteq> []" by blast+
qed

lemma goStr_escaped:
  assumes "validUTF8 s"
  shows "goStr out (goEscape s @ ch CHR 0x22 # t) = Some (out @ s, t)"
  using assms
proof (induction s arbitrary: out rule: rune_induct)
  case Nil
  show ?case by (simp add: goStr.simps [of out])
next
  case (rune k s)
  have "goStr out (goPiece k @ goEscape s @ ch CHR 0x22 # t) = goStr (out @ utf8 k) (goEscape s @ ch CHR 0x22 # t)"
    using rune(1) by (intro goStr_char goChar_piece) (simp_all add: goChar_piece)
  with rune show ?case by (simp add: goEscape_rune)
qed

subsection \<open>Documents read back\<close>

lemma goDigits_shorter: "goDigits s = Some (x, t) \<Longrightarrow> length t < length s"
  by (cases s) (auto simp: goDigits_def length_dropWhile_le le_imp_less_Suc split: if_splits)

lemma goInteger_shorter: "goInteger s = Some (x, t) \<Longrightarrow> length t < length s"
  by (auto simp: goInteger_def dest: goDigits_shorter split: list.splits if_splits)

lemma goFraction_shorter: "goFraction s = Some (x, t) \<Longrightarrow> length t \<le> length s"
  by (auto simp: goFraction_def dest!: goDigits_shorter split: list.splits if_splits)

lemma goExponent_shorter: "goExponent s = Some (x, t) \<Longrightarrow> length t \<le> length s"
  by (auto simp: goExponent_def dest!: goDigits_shorter split: list.splits if_splits)

lemma goNumber_shorter: "goNumber s = Some (x, t) \<Longrightarrow> length t < length s"
proof -
  assume g: "goNumber s = Some (x, t)"
  define u where "u = (if s \<noteq> [] \<and> hd s = ch CHR ''-'' then tl s else s)"
  obtain n s1 f s2 e where "goInteger u = Some (n, s1)" "goFraction s1 = Some (f, s2)" "goExponent s2 = Some (e, t)"
    using g unfolding goNumber_def u_def
    by (cases "s \<noteq> [] \<and> hd s = ch CHR ''-''") (simp_all only: if_True if_False Let_def prod.case split: option.splits prod.splits, auto)
  from goInteger_shorter [OF this(1)] goFraction_shorter [OF this(2)] goExponent_shorter [OF this(3)]
  have "length t < length u" by simp
  then show ?thesis by (auto simp: u_def split: if_splits)
qed

lemma goWord_shorter: "w \<noteq> [] \<Longrightarrow> goWord w v s = Some (x, t) \<Longrightarrow> length t < length s"
  by (cases s) (auto simp: goWord_def split: if_splits)

lemma map_apfst_Some: "map_option (apfst f) m = Some (x, t) \<longleftrightarrow> (\<exists>y. m = Some (y, t) \<and> x = f y)"
  by (cases m) auto

lemma goValue_shorter:
  "goValue d s = Some r1 \<Longrightarrow> length (snd r1) < length s"
  "goItems d vs s = Some r2 \<Longrightarrow> length (snd r2) < length s"
  "goMembers d ms s = Some r3 \<Longrightarrow> length (snd r3) < length s"
proof (induction d s and d vs s and d ms s arbitrary: r1 and r2 and r3
    rule: goValue_goItems_goMembers.induct)
  case (1 d s)
  show ?case
  proof (cases s)
    case Nil
    with 1 show ?thesis by (simp add: goValue.simps)
  next
    case (Cons c cs)
    note IH = 1(1,2) [OF Cons]
    have sp: "length (skipSpace cs) < length s" using Cons length_skipSpace [of cs] by simp
    show ?thesis
      using 1(3) Cons sp
      by (cases r1)
        (auto simp: goValue.simps [of d "c # cs"] map_apfst_Some split: if_splits list.splits
          dest!: goWord_shorter [rotated] goStr_shorter goNumber_shorter
          dest!: IH [simplified])
  qed
next
  case (2 d vs s)
  from 2(3) obtain v t c cs where v: "goValue d s = Some (v, t)" and t: "skipSpace t = c # cs"
    and c: "c = ch CHR '','' \<and> length cs < length s \<and> goItems d (vs @ [v]) (skipSpace cs) = Some r2
      \<or> r2 = (Varr (vs @ [v]), cs)"
    by (auto simp: goItems.simps [of d vs s] split: option.splits list.splits if_splits)
  have "length cs < length s" using 2(1) [OF v] skipSpace_shorter [OF t] by simp
  moreover have "length (snd r2) < length (skipSpace cs)"
    if "c = ch CHR '',''" "goItems d (vs @ [v]) (skipSpace cs) = Some r2"
    using 2(2) [OF v refl t that(1) _ that(2)] \<open>length cs < length s\<close> by simp
  ultimately show ?case using c length_skipSpace [of cs] by auto
next
  case (3 d ms s)
  from 3(3) obtain k t cs v u c ds where s: "\<not> (s = [] \<or> hd s \<noteq> ch CHR 0x22)" and k: "goStr [] (tl s) = Some (k, t)"
    and t: "skipSpace t = ch CHR '':'' # cs" and v: "goValue d (skipSpace cs) = Some (v, u)"
    and u: "skipSpace u = c # ds"
    and c: "c = ch CHR '','' \<and> length ds < length s \<and> goMembers d (ms @ [(k, v)]) (skipSpace ds) = Some r3
      \<or> r3 = (Vobj (ms @ [(k, v)]), ds)"
    by (auto simp: goMembers.simps [of d ms s] split: option.splits list.splits if_splits)
  have "length u < length (skipSpace cs)" using 3(1) [OF s k refl t _ v] by simp
  then have "length ds < length s"
    using skipSpace_shorter [OF u] skipSpace_shorter [OF t] goStr_shorter [OF k] length_skipSpace [of cs] by simp
  moreover have "length (snd r3) < length (skipSpace ds)"
    if "c = ch CHR '',''" "goMembers d (ms @ [(k, v)]) (skipSpace ds) = Some r3"
    using 3(2) [OF s k refl t _ v refl u that(1) _ that(2)] \<open>length ds < length s\<close> by simp
  ultimately show ?case using c length_skipSpace [of ds] by auto
qed

text \<open>So the two loops need no comparison.\<close>

lemma goItems_eq: "goItems d vs s =
    (case goValue d s of None \<Rightarrow> None | Some (v, t) \<Rightarrow>
     (case skipSpace t of [] \<Rightarrow> None | c # cs \<Rightarrow>
      if c = ch CHR '','' then goItems d (vs @ [v]) (skipSpace cs)
      else if c = ch CHR '']'' then Some (Varr (vs @ [v]), cs) else None))"
proof -
  have "length cs < length s" if "goValue d s = Some (v, t)" "skipSpace t = c # cs" for v t c cs
    using goValue_shorter(1) [OF that(1)] skipSpace_shorter [OF that(2)] by simp
  then show ?thesis by (simp add: goItems.simps [of d vs s] split: option.split list.split)
qed

lemma goMembers_eq: "goMembers d ms s =
    (if s = [] \<or> hd s \<noteq> ch CHR 0x22 then None
     else (case goStr [] (tl s) of None \<Rightarrow> None | Some (k, t) \<Rightarrow>
       (case skipSpace t of [] \<Rightarrow> None | c # cs \<Rightarrow>
        if c \<noteq> ch CHR '':'' then None
        else (case goValue d (skipSpace cs) of None \<Rightarrow> None | Some (v, u) \<Rightarrow>
          (case skipSpace u of [] \<Rightarrow> None | c # cs \<Rightarrow>
           if c = ch CHR '','' then goMembers d (ms @ [(k, v)]) (skipSpace cs)
           else if c = ch CHR ''}'' then Some (Vobj (ms @ [(k, v)]), cs) else None)))))"
proof -
  have "length es < length s"
    if "goStr [] (tl s) = Some (k, t)" "skipSpace t = c # cs" "goValue d (skipSpace cs) = Some (v, u)"
      "skipSpace u = e # es" for k t c cs v u e es
    using goStr_shorter [OF that(1)] skipSpace_shorter [OF that(2)] goValue_shorter(1) [OF that(3)]
      skipSpace_shorter [OF that(4)] length_skipSpace [of cs] by simp
  then show ?thesis by (simp add: goMembers.simps [of d ms s] split: option.split list.split)
qed

text \<open>Documents without numbers, of valid strings and at most \<open>n\<close> levels of containers.\<close>

fun writable :: "nat \<Rightarrow> gojson \<Rightarrow> bool" where
  "writable n Vnull = True"
| "writable n (Vbool b) = True"
| "writable n (Vnum w) = False"
| "writable n (Vstr s) = validUTF8 s"
| "writable n (Varr vs) = (0 < n \<and> (\<forall>v \<in> set vs. writable (n - 1) v))"
| "writable n (Vobj ms) = (0 < n \<and> (\<forall>m \<in> set ms. validUTF8 (fst m) \<and> writable (n - 1) (snd m)))"

definition layout_ok :: "layout \<Rightarrow> bool" where
  "layout_ok l \<longleftrightarrow> (\<forall>d. \<forall>c \<in> set (line l d). space c) \<and> (\<forall>c \<in> set (colon l). space c)"

lemma layouts_ok: "layout_ok compact" "layout_ok indented"
  by (simp_all add: layout_ok_def compact_def indented_def space_def)

lemma skipSpace_append: "\<forall>c \<in> set s. space c \<Longrightarrow> skipSpace (s @ t) = skipSpace t"
  by (simp add: skipSpace_def)

lemma skipSpace_line: "layout_ok l \<Longrightarrow> skipSpace (line l d @ t) = skipSpace t"
  "layout_ok l \<Longrightarrow> skipSpace (colon l @ t) = skipSpace t"
  by (simp_all add: layout_ok_def skipSpace_append)

lemma skipSpace_Cons: "\<not> space c \<Longrightarrow> skipSpace (c # t) = c # t"
  by (simp add: skipSpace_def)

text \<open>The quote, the brackets, the comma and the colon.\<close>

lemma not_space [simp]: "\<not> space 34" "\<not> space 123" "\<not> space 91" "\<not> space 125" "\<not> space 93"
  "\<not> space 44" "\<not> space 58"
  by code_simp+

lemma goWrite_start: "writable n v \<Longrightarrow> skipSpace (goWrite l d v @ t) = goWrite l d v @ t"
proof -
  have w: "\<not> space (hd (lit ''null''))" "\<not> space (hd (lit ''true''))" "\<not> space (hd (lit ''false''))"
    by code_simp+
  show "writable n v \<Longrightarrow> skipSpace (goWrite l d v @ t) = goWrite l d v @ t"
    using w by (cases v) (auto simp: goQuoted_def skipSpace_Cons lit_Cons)
qed

definition reads_back :: "layout \<Rightarrow> nat \<Rightarrow> gojson \<Rightarrow> bool" where
  "reads_back l d v \<longleftrightarrow> (\<forall>n e t. writable n v \<longrightarrow> n + e \<le> goDepth \<longrightarrow> goValue e (goWrite l d v @ t) = Some (v, t))"

lemma goWrite_words:
  "goValue e (lit ''null'' @ t) = Some (Vnull, t)" "goValue e (lit ''true'' @ t) = Some (Vbool True, t)"
  "goValue e (lit ''false'' @ t) = Some (Vbool False, t)"
  by (simp_all add: goValue.simps lit_Cons goWord_def)

lemma goWrite_string: "validUTF8 s \<Longrightarrow> goValue e (goQuoted s @ t) = Some (Vstr s, t)"
  using goStr_escaped [of s "[]" t] by (simp add: goQuoted_def goValue.simps [of e "34 # goEscape s @ 34 # t"])

lemma goValue_nothing: "goValue d [] = None" "goValue d (93 # s) = None"
  by (simp_all add: goValue.simps goNumber_def goInteger_def goDigits_def digit_def)

lemma goValue_array: "goItems (d + 1) [] (skipSpace s) = Some r \<Longrightarrow> d < goDepth \<Longrightarrow> goValue d (91 # s) = Some r"
  by (auto simp: goValue.simps [of d "91 # s"] goItems.simps [of _ _ "[]"] goItems.simps [of _ _ "93 # _"]
      goValue_nothing split: list.split)

lemma goValue_object: "goMembers (d + 1) [] (skipSpace s) = Some r \<Longrightarrow> d < goDepth \<Longrightarrow> goValue d (123 # s) = Some r"
  by (auto simp: goValue.simps [of d "123 # s"] goMembers.simps [of _ _ "[]"] goMembers.simps [of _ _ "125 # _"]
      split: list.split)

lemma goWrite_reads:
  "writable n v \<Longrightarrow> n + e \<le> goDepth \<Longrightarrow> goValue e (goWrite l d v @ t) = Some (v, t)"
  "vs \<noteq> [] \<Longrightarrow> \<forall>v \<in> set vs. writable n v \<Longrightarrow> n + e \<le> goDepth \<Longrightarrow>
   goItems e us (skipSpace (goWriteItems l d vs @ line l d' @ 93 # t)) = Some (Varr (us @ vs), t)"
  "ms \<noteq> [] \<Longrightarrow> \<forall>m \<in> set ms. validUTF8 (fst m) \<and> writable n (snd m) \<Longrightarrow> n + e \<le> goDepth \<Longrightarrow>
   goMembers e ks (skipSpace (goWriteMembers l d ms @ line l d' @ 125 # t)) = Some (Vobj (ks @ ms), t)"
  if "layout_ok l"
  using that
proof (induction l d v and l d vs and l d ms arbitrary: n e t and n e us d' t and n e ks d' t
    rule: goWrite_goWriteItems_goWriteMembers.induct)
  case (5 l d vs)
  show ?case
  proof (cases "vs = []")
    case True
    with 5 show ?thesis by (simp add: goValue.simps [of e "91 # 93 # t"] skipSpace_Cons)
  next
    case False
    with 5 have "goItems (e + 1) [] (skipSpace (goWriteItems l (d + 1) vs @ line l d @ 93 # t)) = Some (Varr ([] @ vs), t)"
      by (intro 5(1) [of "n - 1"]) auto
    from goValue_array [OF this] False 5 show ?thesis by simp
  qed
next
  case (6 l d ms)
  show ?case
  proof (cases "ms = []")
    case True
    with 6 show ?thesis by (simp add: goValue.simps [of e "123 # 125 # t"] skipSpace_Cons)
  next
    case False
    with 6 have "goMembers (e + 1) [] (skipSpace (goWriteMembers l (d + 1) ms @ line l d @ 125 # t)) = Some (Vobj ([] @ ms), t)"
      by (intro 6(1) [of "n - 1"]) auto
    from goValue_object [OF this] False 6 show ?thesis by simp
  qed
next
  case (8 l d v vs)
  let ?r = "if vs = [] then line l d' @ 93 # t else 44 # goWriteItems l d vs @ line l d' @ 93 # t"
  have "goWriteItems l d (v # vs) @ line l d' @ 93 # t = line l d @ goWrite l d v @ ?r" by simp
  then have s: "skipSpace (goWriteItems l d (v # vs) @ line l d' @ 93 # t) = goWrite l d v @ ?r"
    using 8 by (simp only: skipSpace_line) (rule goWrite_start [of n], simp)
  have v: "goValue e (goWrite l d v @ ?r) = Some (v, ?r)" using 8 by (intro 8(1)) auto
  show ?case
  proof (cases "vs = []")
    case True
    with v 8(6) show ?thesis
      unfolding s by (simp add: goItems_eq skipSpace_line skipSpace_Cons)
  next
    case False
    then have "goItems e (us @ [v]) (skipSpace (goWriteItems l d vs @ line l d' @ 93 # t)) = Some (Varr ((us @ [v]) @ vs), t)"
      using 8 by (intro 8(2)) auto
    with v False show ?thesis
      unfolding s by (simp add: goItems_eq [of e us] skipSpace_line skipSpace_Cons)
  qed
next
  case (10 l d k v ms)
  let ?r = "if ms = [] then line l d' @ 125 # t else 44 # goWriteMembers l d ms @ line l d' @ 125 # t"
  let ?k = "goEscape k @ 34 # 58 # colon l @ goWrite l d v @ ?r"
  have "goWriteMembers l d ((k, v) # ms) @ line l d' @ 125 # t = line l d @ 34 # ?k" by (simp add: goQuoted_def)
  then have s: "skipSpace (goWriteMembers l d ((k, v) # ms) @ line l d' @ 125 # t) = 34 # ?k"
    using 10 by (simp only: skipSpace_line) (simp add: skipSpace_Cons)
  have k: "goStr [] ?k = Some (k, 58 # colon l @ goWrite l d v @ ?r)"
    using 10(4) goStr_escaped [of k "[]" "58 # colon l @ goWrite l d v @ ?r"] by simp
  have c: "skipSpace (colon l @ goWrite l d v @ ?r) = goWrite l d v @ ?r"
    using 10 by (simp only: skipSpace_line) (rule goWrite_start [of n], simp)
  have v: "goValue e (goWrite l d v @ ?r) = Some (v, ?r)" using 10 by (intro 10(1)) auto
  show ?case
  proof (cases "ms = []")
    case True
    with v k c 10 show ?thesis
      unfolding s by (simp add: goMembers_eq skipSpace_line skipSpace_Cons)
  next
    case False
    then have "goMembers e (ks @ [(k, v)]) (skipSpace (goWriteMembers l d ms @ line l d' @ 125 # t))
        = Some (Vobj ((ks @ [(k, v)]) @ ms), t)"
      using 10 by (intro 10(2)) auto
    with v k c False show ?thesis
      unfolding s by (simp add: goMembers_eq [of e ks] skipSpace_line skipSpace_Cons)
  qed
qed (simp_all add: goWrite_words goWrite_string)

lemma goParse_write:
  assumes "layout_ok l" and "writable n v" and "n \<le> goDepth" and "\<forall>c \<in> set s. space c"
  shows "goParse (goWrite l d v @ s) = Some v"
  using assms goWrite_reads(1) [OF assms(1,2), of 0 d s] goWrite_start [of n v l d s]
  by (simp add: goParse_def skipSpace_append [where t = "[]", simplified] skipSpace_def)

subsection \<open>What was read is valid\<close>

lemma hexval_small: "hexval c = Some v \<Longrightarrow> unat v < 16"
  by (auto simp: hexval_def unat_byte_u32 word_le_nat_alt unat_sub_if' unat_word_ariths split: if_splits)

lemma hex_loop_small:
  "hex_loop cs u = Some w \<Longrightarrow> unat u < 16 ^ k \<Longrightarrow> k + length cs \<le> 4 \<Longrightarrow> unat w < 16 ^ (k + length cs)"
proof (induction cs u arbitrary: k rule: hex_loop.induct)
  case (2 c cs u)
  then obtain v where v: "hexval c = Some v" "hex_loop cs (push_bit 4 u OR v) = Some w" by (auto split: option.splits)
  have "(16::nat) ^ k \<le> 16 ^ 3" using 2(4) by (intro power_increasing) simp_all
  then have "unat u * 16 + unat v < 16 ^ Suc k" "unat u * 16 < 2 ^ 32" using 2(3) hexval_small [OF v(1)] by simp_all
  moreover have "unat (push_bit 4 u OR v) = unat u * 16 + unat v"
  proof -
    have "unat (push_bit 4 u) = unat u * 2 ^ 4" using \<open>unat u * 16 < 2 ^ 32\<close> by (intro unat_push) simp
    then have "unat (push_bit 4 u OR v) = push_bit 4 (unat u) OR unat v"
      by (simp only: unsigned_or_eq push_bit_eq_mult [where ?'a = nat])
    then show ?thesis using hexval_small [OF v(1)] by (simp add: or_shift_nat)
  qed
  ultimately show ?case using 2(1) [OF v, of "Suc k"] 2(4) by simp
qed simp

lemma validUTF8_rune: "scalar (unat r) \<Longrightarrow> validUTF8 (appendRune [] r)"
  by (simp add: appendRune_utf8 utf8_single scalar_def)

lemma escape_byte_valid: "escape_byte e = Some b \<Longrightarrow> validUTF8 [b]"
proof -
  assume "escape_byte e = Some b"
  then have "b < 0x80" by (auto simp: escape_byte_def split: if_splits)
  then show ?thesis using utf8_byte [of b] utf8_single [of "unat b"] by simp
qed

lemma surrogatePair_scalar: "surrogatePair u s = Some r \<Longrightarrow> scalar (unat r)"
proof -
  assume "surrogatePair u s = Some r"
  then obtain lo where lo: "0xD800 \<le> u" "u < 0xDC00" "0xDC00 \<le> lo" "lo < 0xE000"
    and r: "r = 0x10000 + push_bit 10 (u - 0xD800) + (lo - 0xDC00)"
    by (auto simp: surrogatePair_def split: if_splits option.splits)
  define a b where "a = unat u - 0xD800" and "b = unat lo - 0xDC00"
  have ab: "a < 1024" "b < 1024" and u: "unat (u - 0xD800) = a" "unat (lo - 0xDC00) = b"
    using lo by (simp_all add: a_def b_def word_le_nat_alt word_less_nat_alt unat_sub)
  have "unat (push_bit 10 (u - 0xD800)) = a * 1024" using unat_push [of "u - 0xD800" 10] ab by (simp add: u)
  moreover have "unat (0x10000 + x + y) = 0x10000 + unat x + unat y" if "unat x < 0x100000" "unat y < 0x400"
    for x y :: u32 using that by (simp add: unat_word_ariths)
  ultimately have "unat r = 0x10000 + a * 1024 + b" unfolding r using ab by (simp only: u)
  with ab show ?thesis by (simp add: scalar_def)
qed

lemma replacement_valid: "validUTF8 replacement"
  by code_simp

lemma goChar_valid: "goChar s = Some (x, t) \<Longrightarrow> validUTF8 x"
proof -
  assume g: "goChar s = Some (x, t)"
  have rune: "validUTF8 (take (runeSize s) s)" for s
    by (cases "runeSize s = 0") (auto simp: runeSize_def Let_def split: list.split if_splits)
  have code: "validUTF8 (appendRune [] u)"
    if "hex_loop (take 4 es) 0 = Some u" "\<not> length es < 4" "\<not> (0xD800 \<le> u \<and> u < 0xE000)" for es u
  proof -
    have "unat u < 65536" using hex_loop_small [OF that(1), of 0] that(2) by simp
    with that(3) show ?thesis by (intro validUTF8_rune) (auto simp: scalar_def word_le_nat_alt word_less_nat_alt)
  qed
  have byte: "validUTF8 [c]" if "c < 0x80" for c using utf8_byte [OF that] utf8_single [of "unat c"] by simp
  have one: "0 < runeSize [c] \<Longrightarrow> validUTF8 [c]" for c using rune [of "[c]"] by simp
  from g show ?thesis
    by (auto simp: goChar_def replacement_valid rune one code byte escape_byte_valid
        intro: validUTF8_rune surrogatePair_scalar split: list.splits if_splits option.splits)
qed

lemma goStr_valid: "goStr out s = Some (x, t) \<Longrightarrow> validUTF8 out \<Longrightarrow> validUTF8 x"
proof (induction out s rule: goStr.induct)
  case (1 out s)
  then show ?case
    using validUTF8_append goChar_valid
    by (auto simp: goStr.simps [of out s] split: if_splits option.splits prod.splits)
qed

fun valid_json :: "gojson \<Rightarrow> bool" where
  "valid_json (Vstr s) = validUTF8 s"
| "valid_json (Varr vs) = (\<forall>v \<in> set vs. valid_json v)"
| "valid_json (Vobj ms) = (\<forall>m \<in> set ms. validUTF8 (fst m) \<and> valid_json (snd m))"
| "valid_json v = True"

lemma goValue_valid:
  "goValue d s = Some r1 \<Longrightarrow> valid_json (fst r1)"
  "goItems d vs s = Some r2 \<Longrightarrow> \<forall>v \<in> set vs. valid_json v \<Longrightarrow> valid_json (fst r2)"
  "goMembers d ms s = Some r3 \<Longrightarrow> \<forall>m \<in> set ms. validUTF8 (fst m) \<and> valid_json (snd m) \<Longrightarrow> valid_json (fst r3)"
proof (induction d s and d vs s and d ms s arbitrary: r1 and r2 and r3
    rule: goValue_goItems_goMembers.induct)
  case (1 d s)
  show ?case
  proof (cases s)
    case Nil
    with 1 show ?thesis by (simp add: goValue.simps)
  next
    case (Cons c cs)
    note IH = 1(1,2) [OF Cons]
    show ?thesis
      using 1(3) Cons
      by (cases r1)
        (auto simp: goValue.simps [of d "c # cs"] map_apfst_Some goWord_def split: if_splits list.splits
          dest!: goStr_valid dest: IH [simplified])
  qed
next
  case (2 d vs s)
  then show ?case
    by (cases r2) (auto simp: goItems.simps [of d vs s] split: option.splits list.splits if_splits)
next
  case (3 d ms s)
  then show ?case
    by (cases r3) (auto simp: goMembers.simps [of d ms s] split: option.splits list.splits if_splits dest!: goStr_valid)
qed

lemma goParse_valid: "goParse s = Some v \<Longrightarrow> valid_json v"
  using goValue_valid(1) by (auto simp: goParse_def split: option.splits if_splits)

end
