(* ===== verification/Settings.thy ===== *)
theory Settings
  imports GoJson
begin

section \<open>One configuration\<close>

text \<open>
  The state of \<open>go/config.go\<close>: \<open>Config\<close> with the provenance of each key, the keys, the rungs and the
  environment names, and the methods on one key (\<open>Origin\<close>, \<open>from\<close>, \<open>text\<close>, \<open>set\<close>). A nil map and an
  empty map are the same finite map: the code asks only for the length, or writes through a
  non-nil copy.
\<close>

subsection \<open>State\<close>

record ConfigOrigin =
  Rung :: bytes
  Path :: bytes

record Config =
  NASStore :: bytes
  Store :: bytes
  LogSink :: bytes
  LogService :: bytes
  Off :: "bytes gomap"
  Origins :: "ConfigOrigin gomap"

definition Config_zero :: Config where
  "Config_zero = \<lparr>Config.NASStore = [], Store = [], LogSink = [], LogService = [], Off = fmempty,
     Origins = fmempty\<rparr>"

definition Machine :: bytes where "Machine = lit ''machine''"
definition User :: bytes where "User = lit ''user''"
definition Environment :: bytes where "Environment = lit ''environment''"
definition Default :: bytes where "Default = lit ''default''"

definition Keys :: "bytes list" where
  "Keys = [lit ''nas_store'', lit ''store'', lit ''log_sink'', lit ''log_service'', lit ''off'']"

definition EnvVars :: "bytes gomap" where
  "EnvVars = fmap_of_list
     [(lit ''nas_store'', lit ''ABSTRACTION_NAS_STORE''), (lit ''store'', lit ''ABSTRACTION_STORE''),
      (lit ''log_sink'', lit ''ABSTRACTION_LOG''), (lit ''log_service'', lit ''ABSTRACTION_LOG_SERVICE'')]"

definition Origin_String :: "ConfigOrigin \<Rightarrow> bytes" where
  "Origin_String r = (if ConfigOrigin.Path r = [] then ConfigOrigin.Rung r
     else ConfigOrigin.Rung r @ lit '' file '' @ ConfigOrigin.Path r)"

subsection \<open>One key\<close>

definition Config_Origin :: "Config \<Rightarrow> bytes \<Rightarrow> ConfigOrigin" where
  "Config_Origin c key =
     (case fmlookup (Config.Origins c) key of Some r \<Rightarrow> r
      | None \<Rightarrow> \<lparr>ConfigOrigin.Rung = Default, Path = []\<rparr>)"

definition Config_from :: "Config \<Rightarrow> bytes \<Rightarrow> bytes \<Rightarrow> bytes \<Rightarrow> Config" where
  "Config_from c key rung path =
     c\<lparr>Config.Origins := fmupd key \<lparr>ConfigOrigin.Rung = rung, Path = path\<rparr> (Config.Origins c)\<rparr>"

text \<open>\<open>text\<close> returns a pointer: what it points at (\<open>None\<close> for nil) and the assignment through it.\<close>

definition Config_text :: "Config \<Rightarrow> bytes \<Rightarrow> bytes option" where
  "Config_text c key =
     (if key = lit ''nas_store'' then Some (Config.NASStore c)
      else if key = lit ''store'' then Some (Config.Store c)
      else if key = lit ''log_sink'' then Some (Config.LogSink c)
      else if key = lit ''log_service'' then Some (Config.LogService c)
      else None)"

definition Config_assign :: "Config \<Rightarrow> bytes \<Rightarrow> bytes \<Rightarrow> Config" where
  "Config_assign c key v =
     (if key = lit ''nas_store'' then c\<lparr>Config.NASStore := v\<rparr>
      else if key = lit ''store'' then c\<lparr>Config.Store := v\<rparr>
      else if key = lit ''log_sink'' then c\<lparr>Config.LogSink := v\<rparr>
      else if key = lit ''log_service'' then c\<lparr>Config.LogService := v\<rparr>
      else c)"

definition Config_set :: "Config \<Rightarrow> bytes \<Rightarrow> bool" where
  "Config_set c key =
     (case Config_text c key of Some p \<Rightarrow> p \<noteq> [] | None \<Rightarrow> 0 < fcard (fmdom (Config.Off c)))"

end
