(* ===== verification/GoConfig.thy ===== *)
theory GoConfig
  imports Settings Roundtrip
begin

section \<open>A configuration as a file\<close>

text \<open>
  What \<open>encoding/json\<close> does with a \<open>Config\<close>, by the tags of \<open>go/config.go\<close>: \<open>Config_Marshal\<close> and
  \<open>Config_MarshalIndent\<close> write the keys that are not empty, in the order of the fields, and
  \<open>Config_Unmarshal\<close> reads an object member by member. A member's name matches a field exactly or by
  case folding (\<open>K\<close> and the long \<open>s\<close> of Unicode included), \<open>null\<close> leaves a string and empties \<open>off\<close>,
  other members are skipped, or refused by a decoder that disallows unknown fields. The error of a
  wrong type is reported after the whole value, and every caller drops the configuration with it,
  so the model answers \<open>None\<close>. \<open>Origins\<close> is not in the file (\<open>json:"-"\<close>).
\<close>

subsection \<open>Writing\<close>

definition textMember :: "String.string \<Rightarrow> bytes \<Rightarrow> (bytes \<times> gojson) list" where
  "textMember key v = (if v = [] then [] else [(lit key, Vstr v)])"

definition offMember :: "bytes gomap \<Rightarrow> (bytes \<times> gojson) list" where
  "offMember m =
     (if rangeKeys m = [] then [] else [(lit ''off'', Vobj (map (\<lambda>k. (k, Vstr (mget m k))) (rangeKeys m)))])"

definition Config_json :: "Config \<Rightarrow> gojson" where
  "Config_json c = Vobj
     (textMember ''nas_store'' (Config.NASStore c) @ textMember ''store'' (Config.Store c)
      @ textMember ''log_sink'' (Config.LogSink c) @ textMember ''log_service'' (Config.LogService c)
      @ offMember (Config.Off c))"

definition Config_Marshal :: "Config \<Rightarrow> bytes" where
  "Config_Marshal c = goWrite compact 0 (Config_json c)"

definition Config_MarshalIndent :: "Config \<Rightarrow> bytes" where
  "Config_MarshalIndent c = goWrite indented 0 (Config_json c)"

definition Config_Stamp :: "Config \<Rightarrow> bytes" where
  "Config_Stamp c = Config_Marshal c"

subsection \<open>Reading\<close>

text \<open>\<open>foldName\<close>: two names with one image differ in case only.\<close>

fun foldName :: "bytes \<Rightarrow> bytes" where
  "foldName [] = []"
| "foldName (c # s) =
     (if ch CHR ''a'' \<le> c \<and> c \<le> ch CHR ''z'' then (c - 0x20) # foldName s
      else if c = 0xC5 \<and> s \<noteq> [] \<and> hd s = 0xBF then ch CHR ''S'' # foldName (tl s)
      else if c = 0xE2 \<and> take 2 s = [0x84, 0xAA] then ch CHR ''K'' # foldName (drop 2 s)
      else c # foldName s)"

text \<open>The tags of the fields of the struct, in its order, and the field a tag stands for.\<close>

definition fieldTags :: "bytes list" where
  "fieldTags = [lit ''nas_store'', lit ''store'', lit ''log_sink'', lit ''log_service'', lit ''off'']"

definition fieldOf :: "bytes \<Rightarrow> bytes option" where
  "fieldOf name =
     (if name \<in> set fieldTags then Some name else find (\<lambda>tag. foldName tag = foldName name) fieldTags)"

fun offEntry :: "bytes gomap option \<Rightarrow> bytes \<times> gojson \<Rightarrow> bytes gomap option" where
  "offEntry (Some m) (k, Vstr s) = Some (fmupd k s m)"
| "offEntry (Some m) (k, Vnull) = Some (fmupd k [] m)"
| "offEntry m e = None"

definition textField :: "(bytes \<Rightarrow> Config) \<Rightarrow> Config \<Rightarrow> gojson \<Rightarrow> Config option" where
  "textField put c v = (case v of Vstr s \<Rightarrow> Some (put s) | Vnull \<Rightarrow> Some c | _ \<Rightarrow> None)"

definition offField :: "Config \<Rightarrow> gojson \<Rightarrow> Config option" where
  "offField c v =
     (case v of
        Vnull \<Rightarrow> Some (c\<lparr>Config.Off := fmempty\<rparr>)
      | Vobj ms \<Rightarrow> map_option (\<lambda>m. c\<lparr>Config.Off := m\<rparr>) (foldl offEntry (Some (Config.Off c)) ms)
      | _ \<Rightarrow> None)"

definition setField :: "Config \<Rightarrow> bytes \<Rightarrow> gojson \<Rightarrow> Config option" where
  "setField c tag v =
     (if tag = lit ''nas_store'' then textField (\<lambda>s. c\<lparr>Config.NASStore := s\<rparr>) c v
      else if tag = lit ''store'' then textField (\<lambda>s. c\<lparr>Config.Store := s\<rparr>) c v
      else if tag = lit ''log_sink'' then textField (\<lambda>s. c\<lparr>Config.LogSink := s\<rparr>) c v
      else if tag = lit ''log_service'' then textField (\<lambda>s. c\<lparr>Config.LogService := s\<rparr>) c v
      else offField c v)"

lemma fieldTags_Keys: "fieldTags = Keys"
  by (simp add: fieldTags_def Keys_def)

text \<open>The tags agree with the keys of \<open>text\<close>.\<close>

lemma setField_eq:
  "setField c key v =
     (if Config_text c key \<noteq> None then
        (case v of Vstr s \<Rightarrow> Some (Config_assign c key s) | Vnull \<Rightarrow> Some c | _ \<Rightarrow> None)
      else
        (case v of
           Vnull \<Rightarrow> Some (c\<lparr>Config.Off := fmempty\<rparr>)
         | Vobj ms \<Rightarrow> map_option (\<lambda>m. c\<lparr>Config.Off := m\<rparr>) (foldl offEntry (Some (Config.Off c)) ms)
         | _ \<Rightarrow> None))"
  by (simp add: setField_def textField_def offField_def Config_text_def Config_assign_def split: gojson.split)

text \<open>\<open>strict\<close> is \<open>DisallowUnknownFields\<close>.\<close>

fun setMember :: "bool \<Rightarrow> Config option \<Rightarrow> bytes \<times> gojson \<Rightarrow> Config option" where
  "setMember strict None m = None"
| "setMember strict (Some c) (name, v) =
     (case fieldOf name of Some key \<Rightarrow> setField c key v | None \<Rightarrow> if strict then None else Some c)"

definition Config_decode :: "bool \<Rightarrow> gojson \<Rightarrow> Config option" where
  "Config_decode strict v =
     (case v of
        Vnull \<Rightarrow> Some Config_zero
      | Vobj ms \<Rightarrow> foldl (setMember strict) (Some Config_zero) ms
      | _ \<Rightarrow> None)"

text \<open>The text of the error is not modelled: no caller looks at it.\<close>

definition badFile :: bytes where
  "badFile = lit ''invalid document''"

definition Config_Unmarshal :: "bytes \<Rightarrow> bytes + Config" where
  "Config_Unmarshal b =
     (case goParse b of None \<Rightarrow> Inl badFile
      | Some v \<Rightarrow> (case Config_decode False v of None \<Rightarrow> Inl badFile | Some c \<Rightarrow> Inr c))"

subsection \<open>What is written is read\<close>

definition valid_Config :: "Config \<Rightarrow> bool" where
  "valid_Config c \<longleftrightarrow> validUTF8 (Config.NASStore c) \<and> validUTF8 (Config.Store c) \<and> validUTF8 (Config.LogSink c)
     \<and> validUTF8 (Config.LogService c)
     \<and> valid_map (Config.Off c)"

text \<open>The settings of a configuration, without the provenance.\<close>

definition settings :: "Config \<Rightarrow> Config" where
  "settings c = c\<lparr>Config.Origins := fmempty\<rparr>"

lemma foldl_offEntry:
  "foldl offEntry (Some a) (map (\<lambda>k. (k, Vstr (mget m k))) ks) = Some (fold (\<lambda>k a. fmupd k (mget m k) a) ks a)"
  by (induction ks arbitrary: a) auto

lemma mget_valid: "valid_map m \<Longrightarrow> k \<in> fmdom' m \<Longrightarrow> validUTF8 k \<and> validUTF8 (mget m k)"
  by (auto simp: valid_map_def mget_def fmlookup_dom'_iff dest!: fmpredD)

lemma rangeKeys_empty: "rangeKeys m = [] \<longleftrightarrow> m = fmempty"
proof
  assume "rangeKeys m = []"
  then have "fmdom' m = {}" using rangeKeys_props(2) [of m] by simp
  then show "m = fmempty" by (auto intro!: fmap_ext simp: fmlookup_dom'_iff)
qed (simp add: rangeKeys_def sorted_list_of_fset.rep_eq)

lemma Config_json_writable: "valid_Config c \<Longrightarrow> writable 2 (Config_json c)"
  by (auto simp: Config_json_def textMember_def offMember_def valid_Config_def lit_valid mget_valid)

lemma fieldOf_key: "key \<in> set Keys \<Longrightarrow> fieldOf key = Some key"
  by (simp add: fieldOf_def fieldTags_Keys)

lemma setMember_text:
  "key \<in> {''nas_store'', ''store'', ''log_sink'', ''log_service''} \<Longrightarrow>
   foldl (setMember strict) (Some c) (textMember key v) = Some (if v = [] then c else Config_assign c (lit key) v)"
  by (auto simp: textMember_def fieldOf_key Keys_def setField_eq Config_text_def)

lemma setMember_off:
  "Config.Off c = fmempty \<Longrightarrow>
   foldl (setMember strict) (Some c) (offMember m) = Some (c\<lparr>Config.Off := m\<rparr>)"
  using rangeKeys_empty [of m]
  by (auto simp: offMember_def fieldOf_key Keys_def setField_eq Config_text_def foldl_offEntry fold_fmupd_self)

lemma Config_decode_json: "Config_decode strict (Config_json c) = Some (settings c)"
  by (cases c) (simp add: Config_decode_def Config_json_def setMember_text setMember_off Config_zero_def
      Config_assign_def settings_def)

lemma goParse_Config:
  assumes "valid_Config c" and "layout_ok l" and "\<forall>b \<in> set s. space b"
  shows "goParse (goWrite l d (Config_json c) @ s) = Some (Config_json c)"
  by (rule goParse_write [OF assms(2) Config_json_writable [OF assms(1)] _ assms(3)]) (simp add: goDepth_def)

lemma Unmarshal_Marshal: "valid_Config c \<Longrightarrow> Config_Unmarshal (Config_Marshal c) = Inr (settings c)"
  using goParse_Config [of c compact "[]" 0]
  by (simp add: Config_Unmarshal_def Config_Marshal_def layouts_ok Config_decode_json)

lemma Unmarshal_MarshalIndent:
  "valid_Config c \<Longrightarrow> Config_Unmarshal (Config_MarshalIndent c @ [ch CHR 0x0A]) = Inr (settings c)"
  using goParse_Config [of c indented "[ch CHR 0x0A]" 0]
  by (simp add: Config_Unmarshal_def Config_MarshalIndent_def layouts_ok Config_decode_json space_def)

subsection \<open>What is read is valid, and what is written\<close>

lemma offEntry_None: "foldl offEntry None ms = None"
  by (induction ms) auto

lemma offEntry_valid:
  "foldl offEntry (Some a) ms = Some m \<Longrightarrow> valid_map a \<Longrightarrow>
   \<forall>x \<in> set ms. validUTF8 (fst x) \<and> valid_json (snd x) \<Longrightarrow> valid_map m"
proof (induction ms arbitrary: a)
  case (Cons x ms)
  obtain k v where x: "x = (k, v)" by (cases x)
  show ?case
    using Cons x by (cases v) (auto simp: offEntry_None valid_map_upd)
qed simp

lemma setField_valid:
  "setField c key v = Some c' \<Longrightarrow> valid_Config c \<Longrightarrow> valid_json v \<Longrightarrow> valid_Config c'"
  by (auto simp: setField_eq valid_Config_def Config_assign_def dest: offEntry_valid split: gojson.splits if_splits)

lemma setMember_None: "foldl (setMember strict) None ms = None"
  by (induction ms) auto

lemma setMember_valid:
  "foldl (setMember strict) (Some c) ms = Some c' \<Longrightarrow> valid_Config c \<Longrightarrow>
   \<forall>x \<in> set ms. valid_json (snd x) \<Longrightarrow> valid_Config c'"
proof (induction ms arbitrary: c)
  case (Cons x ms)
  obtain k v where x: "x = (k, v)" by (cases x)
  from Cons.prems x obtain d where "setMember strict (Some c) (k, v) = Some d"
    "foldl (setMember strict) (Some d) ms = Some c'"
    by (cases "setMember strict (Some c) (k, v)") (auto simp: setMember_None simp del: setMember.simps)
  moreover from this have "valid_Config d"
    using Cons.prems x by (auto dest: setField_valid split: option.splits if_splits)
  ultimately show ?case using Cons by auto
qed simp

lemma valid_Config_zero: "valid_Config Config_zero"
  by (simp add: valid_Config_def Config_zero_def)

lemma Config_decode_valid: "Config_decode strict v = Some c \<Longrightarrow> valid_json v \<Longrightarrow> valid_Config c"
  using valid_Config_zero by (auto simp: Config_decode_def dest: setMember_valid split: gojson.splits)

lemma Unmarshal_valid: "Config_Unmarshal b = Inr c \<Longrightarrow> valid_Config c"
  by (auto simp: Config_Unmarshal_def dest: goParse_valid Config_decode_valid split: option.splits)

lemma setMember_Origins:
  "foldl (setMember strict) (Some c) ms = Some c' \<Longrightarrow> Config.Origins c' = Config.Origins c"
proof (induction ms arbitrary: c)
  case (Cons x ms)
  obtain k v where x: "x = (k, v)" by (cases x)
  from Cons.prems x obtain d where "setMember strict (Some c) (k, v) = Some d"
    "foldl (setMember strict) (Some d) ms = Some c'"
    by (cases "setMember strict (Some c) (k, v)") (auto simp: setMember_None simp del: setMember.simps)
  moreover from this have "Config.Origins d = Config.Origins c"
    by (auto simp: setField_eq Config_assign_def split: option.splits if_splits gojson.splits)
  ultimately show ?case using Cons.IH by simp
qed simp

lemma plain_text_valid: "plain_text s \<Longrightarrow> validUTF8 s"
  by (rule ascii_valid) (simp add: plain_text_def ascii_def list_all_iff)

lemma validUTF8_Cons: "c < 0x80 \<Longrightarrow> validUTF8 s \<Longrightarrow> validUTF8 (c # s)"
  using validUTF8_append [of "[c]" s] ascii_valid [of "[c]"] by (simp add: ascii_def)

lemma goEscapeByte_valid: "c < 0x80 \<Longrightarrow> validUTF8 (goEscapeByte c)"
proof -
  assume c: "c < 0x80"
  then show ?thesis
  proof (cases rule: goEscapeByte_cases)
    case code
    then show ?thesis using plain_text_valid [OF control_text_plain] by (simp add: validUTF8_Cons)
  qed (use c in \<open>simp_all add: validUTF8_Cons\<close>)
qed

lemma goEscape_valid: "validUTF8 s \<Longrightarrow> validUTF8 (goEscape s)"
proof (induction s rule: rune_induct)
  case (rune k t)
  have "validUTF8 (goPiece k)"
  proof (cases "k < 0x80")
    case True
    then show ?thesis by (simp add: goPiece_def goEscapeByte_valid byte_less_80 unat_nb)
  next
    case False
    then show ?thesis
      using utf8_single [OF rune(1)] lit_valid
      by (cases rule: goEscapeRune_cases [of "utf8 k"]) (simp_all add: goPiece_def validUTF8_Cons)
  qed
  with rune show ?case by (simp add: goEscape_rune validUTF8_append)
qed simp

lemma space_valid: "\<forall>c \<in> set s. space c \<Longrightarrow> validUTF8 s"
  by (rule ascii_valid) (auto simp: ascii_def list_all_iff space_def)

lemma goWrite_valid:
  "writable n v \<Longrightarrow> validUTF8 (goWrite l d v)"
  "\<forall>v \<in> set vs. writable n v \<Longrightarrow> validUTF8 (goWriteItems l d vs)"
  "\<forall>m \<in> set ms. validUTF8 (fst m) \<and> writable n (snd m) \<Longrightarrow> validUTF8 (goWriteMembers l d ms)"
  if "layout_ok l"
  using that
proof (induction l d v and l d vs and l d ms arbitrary: n and n and n
    rule: goWrite_goWriteItems_goWriteMembers.induct)
  case (10 l d k v ms)
  have "validUTF8 (goWrite l d v)" "validUTF8 (goWriteMembers l d ms)"
    using 10(3,4) by (auto intro!: 10(1)) (cases "ms = []"; auto intro!: 10(2))
  with 10(3,4) show ?case
    by (auto simp: layout_ok_def space_valid goEscape_valid goQuoted_def intro!: validUTF8_Cons validUTF8_append)
qed (auto simp: layout_ok_def space_valid goEscape_valid goQuoted_def lit_valid intro!: validUTF8_Cons validUTF8_append)

lemma Stamp_valid: "valid_Config c \<Longrightarrow> validUTF8 (Config_Stamp c)"
  using goWrite_valid(1) [OF layouts_ok(1) Config_json_writable] by (simp add: Config_Stamp_def Config_Marshal_def)

subsection \<open>Properties\<close>

definition sampleValues :: Config where
  "sampleValues = Config_zero\<lparr>Config.Store := lit ''/data''\<rparr>"

lemma sample_values: "valid_Config sampleValues" "settings sampleValues = sampleValues"
  by (simp_all add: settings_def sampleValues_def valid_Config_def Config_zero_def lit_valid)

lemma Marshal_settings: "Config_Marshal (settings c) = Config_Marshal c"
  by (simp add: Config_Marshal_def Config_json_def settings_def)

lemma Marshal_eq:
  assumes "valid_Config c" and "valid_Config d"
  shows "Config_Marshal c = Config_Marshal d \<longleftrightarrow> settings c = settings d"
  using Unmarshal_Marshal [OF assms(1)] Unmarshal_Marshal [OF assms(2)] Marshal_settings [of c] Marshal_settings [of d]
  by (metis sum.inject(2))

text \<open>C23: what \<open>Save\<close> writes for a configuration, \<open>json.Unmarshal\<close> reads back as the same settings, whatever
  the strings hold (quotes, controls, HTML and line separators are escaped and unescaped alike).\<close>

theorem saved_is_loaded:
  assumes "valid_Config c"
  shows "Config_Unmarshal (Config_MarshalIndent c @ [ch CHR 0x0A]) = Inr (settings c)"
  by (rule Unmarshal_MarshalIndent [OF assms])

lemma saved_is_loaded_witness:
  "Config_Unmarshal (Config_MarshalIndent sampleValues @ [ch CHR 0x0A]) = Inr sampleValues"
  using saved_is_loaded [OF sample_values(1)] by (simp only: sample_values(2))

text \<open>Two configurations of valid strings have one stamp exactly when they hold the same settings;
  the origins do not count.\<close>

theorem stamp_faithful:
  assumes "valid_Config c" and "valid_Config d"
  shows "Config_Stamp c = Config_Stamp d \<longleftrightarrow> settings c = settings d"
  unfolding Config_Stamp_def by (rule Marshal_eq [OF assms])

lemma stamp_faithful_witness:
  "Config_Stamp Config_zero = Config_Stamp sampleValues \<longleftrightarrow> settings Config_zero = settings sampleValues"
  by (rule stamp_faithful [OF valid_Config_zero sample_values(1)])

text \<open>Without valid UTF-8 the stamp does not tell configurations apart: two stores of one wrong byte
  each are written as U+FFFD, so their stamps agree although the answers differ.\<close>

lemma stamp_collides:
  "Config_Stamp (Config_zero\<lparr>Config.Store := [0xFF]\<rparr>) = Config_Stamp (Config_zero\<lparr>Config.Store := [0xFE]\<rparr>)
   \<and> settings (Config_zero\<lparr>Config.Store := [0xFF]\<rparr>) \<noteq> settings (Config_zero\<lparr>Config.Store := [0xFE]\<rparr>)"
proof -
  have "Config_Stamp (Config_zero\<lparr>Config.Store := [0xFF]\<rparr>) = Config_Stamp (Config_zero\<lparr>Config.Store := [0xFE]\<rparr>)"
    by code_simp
  then show ?thesis by (simp add: settings_def Config_zero_def)
qed

end
