(* ===== verification/Config.thy ===== *)
theory Config
  imports GoConfig
begin

section \<open>The layered configuration\<close>

text \<open>
  Models the layers of \<open>go/config.go\<close>: \<open>merge\<close>, \<open>applyEnvironment\<close>, \<open>load\<close>, \<open>LoadWithOverrides\<close>,
  \<open>Overridden\<close>, \<open>decodeSource\<close>, \<open>read\<close> and \<open>readMachineSource\<close>. \<open>merge\<close> and
  \<open>applyEnvironment\<close> write into the map of their argument, which no caller uses afterwards, so the
  model returns the changed value. The store (\<open>cas.Read\<close>, \<open>cas.ReadLimit\<close>) and the trust check are
  arguments. What a reader prints on standard error is the second part of its result (\<open>decodeSaying\<close>,
  \<open>readSaying\<close>, \<open>readMachineSaying\<close>, \<open>loadSaying\<close>), which \<open>decodeSource\<close> and the others leave away; the
  reason a line gives is the text of the error, for a malformed file the word the model has for it.

  The abstract side is a \<open>view\<close>: a map from the set keys to value and origin. \<open>merge\<close> is shown to be
  the override of maps, which gives precedence, associativity and the provenance of every key.
\<close>

subsection \<open>Layers\<close>

definition mergeKey :: "Config \<Rightarrow> Config \<Rightarrow> bytes \<Rightarrow> Config" where
  "mergeKey over base key =
     (if \<not> Config_set over key then base
      else (let base = (case Config_text over key of
                          Some p \<Rightarrow> Config_assign base key p
                        | None \<Rightarrow> base\<lparr>Config.Off := Config.Off over\<rparr>);
                r = Config_Origin over key
            in Config_from base key (ConfigOrigin.Rung r) (ConfigOrigin.Path r)))"

definition mergeConfig :: "Config \<Rightarrow> Config \<Rightarrow> Config" where
  "mergeConfig base over = foldl (mergeKey over) base Keys"

definition environmentKey :: "(bytes \<Rightarrow> bytes) \<Rightarrow> Config \<Rightarrow> bytes \<Rightarrow> Config" where
  "environmentKey environment c key =
     (case Config_text c key of None \<Rightarrow> c | Some _ \<Rightarrow>
      (let v = environment (mget EnvVars key) in
       if v \<noteq> [] then Config_from (Config_assign c key v) key Environment [] else c))"

definition applyEnvironment :: "(bytes \<Rightarrow> bytes) \<Rightarrow> Config \<Rightarrow> Config" where
  "applyEnvironment environment c = foldl (environmentKey environment) c Keys"

text \<open>The loop of \<open>decodeSource\<close> over \<open>Keys\<close>, after \<open>json.Unmarshal\<close>.\<close>

definition markKey :: "bytes \<Rightarrow> bytes \<Rightarrow> Config \<Rightarrow> bytes \<Rightarrow> Config" where
  "markKey path rung c key = (if Config_set c key then Config_from c key rung path else c)"

text \<open>The line \<open>fmt.Fprintf\<close> writes for a file that is not used.\<close>

definition ignoring :: "bytes \<Rightarrow> bytes \<Rightarrow> bytes" where
  "ignoring path e = lit ''abstraction: ignoring '' @ path @ lit '': '' @ e @ [ch CHR 0x0A]"

definition decodeSaying :: "bytes option \<Rightarrow> bytes \<Rightarrow> bytes \<Rightarrow> (bytes + Config) \<times> bytes list" where
  "decodeSaying b path rung =
     (case b of None \<Rightarrow> (Inl (lit ''file does not exist''), [])
      | Some b \<Rightarrow>
        (case Config_Unmarshal b of Inl e \<Rightarrow> (Inl e, [ignoring path e])
         | Inr c \<Rightarrow> (Inr (foldl (markKey path rung) c Keys), [])))"

definition readSaying ::
    "(bytes \<Rightarrow> bytes + bytes option) \<Rightarrow> (bytes \<Rightarrow> bytes option) \<Rightarrow> bytes \<Rightarrow> bytes \<Rightarrow> (bytes + Config) \<times> bytes list" where
  "readSaying casRead trusted path rung =
     (case casRead path of Inl e \<Rightarrow> (Inl e, [])
      | Inr None \<Rightarrow> (Inl (lit ''file does not exist''), [])
      | Inr (Some b) \<Rightarrow>
          if rung = Machine then
            (case trusted path of Some e \<Rightarrow> (Inl e, [ignoring path e]) | None \<Rightarrow> decodeSaying (Some b) path rung)
          else decodeSaying (Some b) path rung)"

text \<open>The service's machine source: trust is checked before any byte is read. \<open>readLimit\<close> is
  \<open>cas.ReadLimit\<close> with the limit \<open>MaxUserFileBytes\<close>.\<close>

definition MaxUserFileBytes :: nat where
  "MaxUserFileBytes = 262144"

definition readMachineSaying ::
    "(bytes \<Rightarrow> nat \<Rightarrow> bytes + bytes option) \<Rightarrow> (bytes \<Rightarrow> bytes option) \<Rightarrow> bytes \<Rightarrow> (bytes + Config) \<times> bytes list" where
  "readMachineSaying readLimit checkTrust path =
     (case checkTrust path of Some e \<Rightarrow> (Inl e, [ignoring path e])
      | None \<Rightarrow>
        (case readLimit path MaxUserFileBytes of Inl e \<Rightarrow> (Inl e, [])
         | Inr data \<Rightarrow> decodeSaying data path Machine))"

text \<open>The results alone.\<close>

definition decodeSource :: "bytes option \<Rightarrow> bytes \<Rightarrow> bytes \<Rightarrow> bytes + Config" where
  "decodeSource b path rung = fst (decodeSaying b path rung)"

definition readSource ::
    "(bytes \<Rightarrow> bytes + bytes option) \<Rightarrow> (bytes \<Rightarrow> bytes option) \<Rightarrow> bytes \<Rightarrow> bytes \<Rightarrow> bytes + Config" where
  "readSource casRead trusted path rung = fst (readSaying casRead trusted path rung)"

definition readMachineSource ::
    "(bytes \<Rightarrow> nat \<Rightarrow> bytes + bytes option) \<Rightarrow> (bytes \<Rightarrow> bytes option) \<Rightarrow> bytes \<Rightarrow> bytes + Config" where
  "readMachineSource readLimit checkTrust path = fst (readMachineSaying readLimit checkTrust path)"

lemma decodeSource_eq:
  "decodeSource b path rung =
     (case b of None \<Rightarrow> Inl (lit ''file does not exist'')
      | Some b \<Rightarrow>
        (case Config_Unmarshal b of Inl e \<Rightarrow> Inl e | Inr c \<Rightarrow> Inr (foldl (markKey path rung) c Keys)))"
  by (simp add: decodeSource_def decodeSaying_def split: option.split sum.split)

lemma readSource_eq:
  "readSource casRead trusted path rung =
     (case casRead path of Inl e \<Rightarrow> Inl e
      | Inr None \<Rightarrow> Inl (lit ''file does not exist'')
      | Inr (Some b) \<Rightarrow>
          if rung = Machine then
            (case trusted path of Some e \<Rightarrow> Inl e | None \<Rightarrow> decodeSource (Some b) path rung)
          else decodeSource (Some b) path rung)"
  by (simp add: readSource_def readSaying_def decodeSource_def split: option.split sum.split)

lemma readMachineSource_eq:
  "readMachineSource readLimit checkTrust path =
     (case checkTrust path of Some e \<Rightarrow> Inl e
      | None \<Rightarrow>
        (case readLimit path MaxUserFileBytes of Inl e \<Rightarrow> Inl e
         | Inr data \<Rightarrow> decodeSource data path Machine))"
  by (simp add: readMachineSource_def readMachineSaying_def decodeSource_def split: option.split sum.split)

text \<open>\<open>load\<close>, on the sources of \<open>searchPaths\<close> (path and rung) and the function that reads one; \<open>loadSaying\<close> with
  what the reads print.\<close>

definition loadSource :: "(bytes \<Rightarrow> bytes \<Rightarrow> bytes + Config) \<Rightarrow> Config \<Rightarrow> bytes \<times> bytes \<Rightarrow> Config" where
  "loadSource readFile c s =
     (case readFile (fst s) (snd s) of Inr loaded \<Rightarrow> mergeConfig c loaded | Inl _ \<Rightarrow> c)"

definition load ::
    "(bytes \<Rightarrow> bytes \<Rightarrow> bytes + Config) \<Rightarrow> (bytes \<times> bytes) list \<Rightarrow> (bytes \<Rightarrow> bytes) \<Rightarrow> Config" where
  "load readFile sources environment =
     applyEnvironment environment (foldl (loadSource readFile) Config_zero sources)"

definition loadStep ::
    "(bytes \<Rightarrow> bytes \<Rightarrow> (bytes + Config) \<times> bytes list) \<Rightarrow> Config \<times> bytes list \<Rightarrow> bytes \<times> bytes \<Rightarrow> Config \<times> bytes list" where
  "loadStep readFile st s =
     (case readFile (fst s) (snd s) of (r, out) \<Rightarrow>
        ((case r of Inr loaded \<Rightarrow> mergeConfig (fst st) loaded | Inl _ \<Rightarrow> fst st), snd st @ out))"

definition loadSaying ::
    "(bytes \<Rightarrow> bytes \<Rightarrow> (bytes + Config) \<times> bytes list) \<Rightarrow> (bytes \<times> bytes) list \<Rightarrow> (bytes \<Rightarrow> bytes)
      \<Rightarrow> Config \<times> bytes list" where
  "loadSaying readFile sources environment =
     (case foldl (loadStep readFile) (Config_zero, []) sources of (c, out) \<Rightarrow> (applyEnvironment environment c, out))"

lemma loadStep_fold:
  "foldl (loadStep readFile) (c, out) sources =
     (foldl (loadSource (\<lambda>path rung. fst (readFile path rung))) c sources,
      out @ concat (map (\<lambda>s. snd (readFile (fst s) (snd s))) sources))"
  by (induction sources arbitrary: c out) (simp_all add: loadStep_def loadSource_def split: prod.split sum.split)

lemma loadSaying_eq:
  "loadSaying readFile sources environment =
     (load (\<lambda>path rung. fst (readFile path rung)) sources environment,
      concat (map (\<lambda>s. snd (readFile (fst s) (snd s))) sources))"
  by (simp add: loadSaying_def loadStep_fold load_def)

definition LoadWithOverrides ::
    "(bytes \<Rightarrow> bytes \<Rightarrow> bytes + Config) \<Rightarrow> (bytes \<times> bytes) list \<Rightarrow> bytes gomap \<Rightarrow> Config" where
  "LoadWithOverrides readFile sources values = load readFile sources (mget values)"

definition searchPaths :: "bytes \<Rightarrow> bytes \<Rightarrow> (bytes \<times> bytes) list" where
  "searchPaths machinePath userPath =
     (let out = (if machinePath \<noteq> [] then [(machinePath, Machine)] else [])
      in if userPath \<noteq> [] then out @ [(userPath, User)] else out)"

text \<open>\<open>Overridden\<close>, on the process environment; \<open>sort.Strings\<close> sorts in byte order.\<close>

definition Overridden :: "(bytes \<Rightarrow> bytes) \<Rightarrow> bytes list" where
  "Overridden getenv =
     sort (filter (\<lambda>key. mget EnvVars key \<noteq> [] \<and> getenv (mget EnvVars key) \<noteq> []) Keys)"

subsection \<open>The view of a configuration\<close>

datatype setting = Text bytes | Refusals "bytes gomap"

definition view :: "Config \<Rightarrow> bytes \<rightharpoonup> setting \<times> ConfigOrigin" where
  "view c key =
     (if key \<in> set Keys \<and> Config_set c key
      then Some (case Config_text c key of Some p \<Rightarrow> Text p | None \<Rightarrow> Refusals (Config.Off c), Config_Origin c key)
      else None)"

lemma Keys_cases:
  assumes "key \<in> set Keys"
  obtains "key = lit ''nas_store''" | "key = lit ''store''" | "key = lit ''log_sink''"
    | "key = lit ''log_service''" | "key = lit ''off''"
  using assms by (auto simp: Keys_def)

lemma Keys_distinct: "distinct Keys"
  by (simp add: Keys_def)

definition value_of :: "Config \<Rightarrow> bytes \<Rightarrow> setting" where
  "value_of c key = (case Config_text c key of Some p \<Rightarrow> Text p | None \<Rightarrow> Refusals (Config.Off c))"

fun is_set :: "setting \<Rightarrow> bool" where
  "is_set (Text p) = (p \<noteq> [])"
| "is_set (Refusals m) = (m \<noteq> fmempty)"

lemma size_gomap: "0 < fcard (fmdom m) \<longleftrightarrow> m \<noteq> fmempty"
proof -
  have "m = fmempty \<longleftrightarrow> fmdom m = {||}"
    by (auto intro!: fmap_ext simp: fmlookup_dom_iff)
  then show ?thesis by (metis fcard_0_eq gr0I less_irrefl)
qed

lemma set_value: "Config_set c key = is_set (value_of c key)"
  by (simp add: Config_set_def value_of_def size_gomap split: option.split)

lemma view_value: "view c key =
    (if key \<in> set Keys \<and> is_set (value_of c key) then Some (value_of c key, Config_Origin c key) else None)"
  by (simp add: view_def set_value) (simp add: value_of_def)

text \<open>What a step of one of the loops over \<open>Keys\<close> does: it may answer for its own key.\<close>

locale layer =
  fixes step :: "Config \<Rightarrow> bytes \<Rightarrow> Config" and answers :: "bytes \<rightharpoonup> setting \<times> ConfigOrigin"
  assumes own: "key \<in> set Keys \<Longrightarrow> view (step c key) key =
      (case answers key of Some a \<Rightarrow> Some a | None \<Rightarrow> view c key)"
    and others: "key \<in> set Keys \<Longrightarrow> k \<in> set Keys \<Longrightarrow> k \<noteq> key \<Longrightarrow> view (step c key) k = view c k"
    and keys: "dom answers \<subseteq> set Keys"
begin

lemma view_foldl:
  "set ks \<subseteq> set Keys \<Longrightarrow> distinct ks \<Longrightarrow> k \<in> set Keys \<Longrightarrow>
   view (foldl step c ks) k = (if k \<in> set ks then (view c ++ answers) k else view c k)"
proof (induction ks arbitrary: c)
  case (Cons key ks)
  then show ?case
    using own [of key c] others [of key k c]
    by (auto simp: map_add_def split: option.splits)
qed simp

lemma view_layer: "view (foldl step c Keys) = view c ++ answers"
proof
  fix k
  show "view (foldl step c Keys) k = (view c ++ answers) k"
  proof (cases "k \<in> set Keys")
    case True
    with view_foldl [of Keys k c] show ?thesis by (simp add: Keys_distinct)
  next
    case False
    then have "answers k = None" using keys by auto
    with False show ?thesis by (simp add: view_def map_add_def)
  qed
qed

end

lemmas key_defs = Keys_def value_of_def Config_text_def Config_assign_def Config_from_def Config_Origin_def

lemma mergeKey_view:
  assumes "key \<in> set Keys" and "k \<in> set Keys"
  shows "value_of (mergeKey over c key) k = (if k = key \<and> Config_set over key then value_of over k else value_of c k)"
    and "Config_Origin (mergeKey over c key) k =
      (if k = key \<and> Config_set over key then Config_Origin over k else Config_Origin c k)"
  using assms by (auto simp: mergeKey_def Let_def key_defs)

interpretation merging: layer "mergeKey over" "view over" for over
  by unfold_locales (auto simp: view_value mergeKey_view set_value split: if_splits)

definition environment_view :: "(bytes \<Rightarrow> bytes) \<Rightarrow> bytes \<rightharpoonup> setting \<times> ConfigOrigin" where
  "environment_view environment key =
     (if key \<in> set Keys \<and> key \<noteq> lit ''off'' \<and> environment (mget EnvVars key) \<noteq> []
      then Some (Text (environment (mget EnvVars key)), \<lparr>ConfigOrigin.Rung = Environment, Path = []\<rparr>)
      else None)"

lemma environmentKey_view:
  fixes environment :: "bytes \<Rightarrow> bytes"
  assumes "key \<in> set Keys" and "k \<in> set Keys"
  defines "v \<equiv> environment (mget EnvVars key)"
  shows "value_of (environmentKey environment c key) k =
      (if k = key \<and> key \<noteq> lit ''off'' \<and> v \<noteq> [] then Text v else value_of c k)"
    and "Config_Origin (environmentKey environment c key) k =
      (if k = key \<and> key \<noteq> lit ''off'' \<and> v \<noteq> [] then \<lparr>ConfigOrigin.Rung = Environment, Path = []\<rparr>
       else Config_Origin c k)"
  using assms(1,2) unfolding v_def by (auto simp: environmentKey_def Let_def key_defs)

interpretation overriding: layer "environmentKey environment" "environment_view environment" for environment
  by unfold_locales (auto simp: view_value environmentKey_view environment_view_def split: if_splits)

lemma view_mergeConfig: "view (mergeConfig base over) = view base ++ view over"
  unfolding mergeConfig_def by (rule merging.view_layer)

lemma view_applyEnvironment: "view (applyEnvironment environment c) = view c ++ environment_view environment"
  unfolding applyEnvironment_def by (rule overriding.view_layer)

lemma view_zero [simp]: "view Config_zero = Map.empty"
  by (auto simp: view_value Config_zero_def key_defs fun_eq_iff)

lemma view_loadSource: "view (loadSource readFile c s) =
    view c ++ (case readFile (fst s) (snd s) of Inr loaded \<Rightarrow> view loaded | Inl e \<Rightarrow> Map.empty)"
  by (simp add: loadSource_def view_mergeConfig split: sum.split)

text \<open>What one source contributes: nothing when it cannot be read.\<close>

definition source_view ::
    "(bytes \<Rightarrow> bytes \<Rightarrow> bytes + Config) \<Rightarrow> bytes \<times> bytes \<Rightarrow> bytes \<rightharpoonup> setting \<times> ConfigOrigin" where
  "source_view readFile s =
     (case readFile (fst s) (snd s) of Inr loaded \<Rightarrow> view loaded | Inl e \<Rightarrow> Map.empty)"

lemma view_sources: "view (foldl (loadSource readFile) c sources) =
    view c ++ foldr (\<lambda>s m. source_view readFile s ++ m) sources Map.empty"
  by (induction sources arbitrary: c) (simp_all add: view_loadSource source_view_def)

lemma view_load: "view (load readFile sources environment) =
    foldr (\<lambda>s m. source_view readFile s ++ m) sources Map.empty ++ environment_view environment"
  by (simp add: load_def view_applyEnvironment view_sources)

subsection \<open>Provenance\<close>

lemma markKey_view:
  assumes "key \<in> set Keys" and "k \<in> set Keys"
  shows "value_of (markKey path rung c key) k = value_of c k"
    and "Config_Origin (markKey path rung c key) k =
      (if k = key \<and> Config_set c key then \<lparr>ConfigOrigin.Rung = rung, Path = path\<rparr> else Config_Origin c k)"
  using assms by (auto simp: markKey_def key_defs)

lemma marked:
  "set ks \<subseteq> set Keys \<Longrightarrow> k \<in> set Keys \<Longrightarrow>
   value_of (foldl (markKey path rung) c ks) k = value_of c k \<and>
   Config_Origin (foldl (markKey path rung) c ks) k =
     (if k \<in> set ks \<and> Config_set c k then \<lparr>ConfigOrigin.Rung = rung, Path = path\<rparr> else Config_Origin c k)"
  by (induction ks arbitrary: c) (auto simp: markKey_view set_value)

lemma decodeSource_view:
  "decodeSource b path rung = Inr c \<Longrightarrow> view c key = Some (x, r) \<Longrightarrow>
   r = \<lparr>ConfigOrigin.Rung = rung, Path = path\<rparr>"
  using marked [of Keys key path rung]
  by (auto simp: decodeSource_eq view_value set_value split: option.splits sum.splits if_splits)

lemma readSource_view:
  "readSource casRead trusted path rung = Inr c \<Longrightarrow> view c key = Some (x, r) \<Longrightarrow>
   r = \<lparr>ConfigOrigin.Rung = rung, Path = path\<rparr>"
  by (auto simp: readSource_eq split: sum.splits option.splits if_splits dest: decodeSource_view)

text \<open>The invariant of a configuration under construction: only set keys have an origin.\<close>

definition origins_ok :: "Config \<Rightarrow> bool" where
  "origins_ok c \<longleftrightarrow> (\<forall>key \<in> fmdom' (Config.Origins c). key \<in> set Keys \<and> Config_set c key)"

lemma origins_ok_zero: "origins_ok Config_zero"
  by (simp add: origins_ok_def Config_zero_def)

lemma Origins_simps [simp]:
  "Config.Origins (Config_assign c key v) = Config.Origins c"
  "Config.Origins (Config_from c key rung path) =
     fmupd key \<lparr>ConfigOrigin.Rung = rung, Path = path\<rparr> (Config.Origins c)"
  by (simp_all add: Config_assign_def Config_from_def)

lemma text_off [simp]: "Config_text c (lit ''off'') = None"
  by (simp add: Config_text_def)

lemma origins_ok_mergeKey: "key \<in> set Keys \<Longrightarrow> origins_ok c \<Longrightarrow> origins_ok (mergeKey over c key)"
  using mergeKey_view(1) [of key _ over c]
  by (auto simp: origins_ok_def set_value mergeKey_def Let_def split: if_splits option.splits)

lemma origins_ok_environmentKey:
  "key \<in> set Keys \<Longrightarrow> origins_ok c \<Longrightarrow> origins_ok (environmentKey environment c key)"
  using environmentKey_view(1) [of key _ environment c]
  by (auto simp: origins_ok_def set_value environmentKey_def Let_def split: if_splits option.splits)

lemma foldl_keeps:
  "(\<And>c x. x \<in> set xs \<Longrightarrow> P c \<Longrightarrow> P (f c x)) \<Longrightarrow> P c \<Longrightarrow> P (foldl f c xs)"
  by (induction xs arbitrary: c) auto

lemma origins_ok_mergeConfig: "origins_ok c \<Longrightarrow> origins_ok (mergeConfig c over)"
  unfolding mergeConfig_def by (rule foldl_keeps) (rule origins_ok_mergeKey)

lemma origins_ok_load: "origins_ok (load readFile sources environment)"
proof -
  have "origins_ok (foldl (loadSource readFile) Config_zero sources)"
    by (rule foldl_keeps)
      (auto simp: loadSource_def origins_ok_zero intro: origins_ok_mergeConfig split: sum.split)
  then show ?thesis
    unfolding load_def applyEnvironment_def
    by (rule foldl_keeps [of Keys origins_ok "environmentKey environment", rotated])
      (rule origins_ok_environmentKey)
qed

lemma unset_default: "origins_ok c \<Longrightarrow> view c key = None \<Longrightarrow> key \<in> set Keys \<Longrightarrow>
    Config_Origin c key = \<lparr>ConfigOrigin.Rung = Default, Path = []\<rparr>"
  by (auto simp: origins_ok_def view_value set_value Config_Origin_def fmlookup_dom'_iff split: if_splits option.split)

subsection \<open>Rungs\<close>

text \<open>The rungs in order of authority, as a linear order.\<close>

datatype rung = DefaultRung | MachineRung | UserRung | EnvironmentRung

fun rung_rank :: "rung \<Rightarrow> nat" where
  "rung_rank DefaultRung = 0"
| "rung_rank MachineRung = 1"
| "rung_rank UserRung = 2"
| "rung_rank EnvironmentRung = 3"

lemma rung_rank_eq [simp]: "rung_rank a = rung_rank b \<longleftrightarrow> a = b"
  by (cases a; cases b) simp_all

instantiation rung :: linorder
begin

definition less_eq_rung :: "rung \<Rightarrow> rung \<Rightarrow> bool" where
  "less_eq_rung a b \<longleftrightarrow> rung_rank a \<le> rung_rank b"

definition less_rung :: "rung \<Rightarrow> rung \<Rightarrow> bool" where
  "less_rung a b \<longleftrightarrow> rung_rank a < rung_rank b"

instance
  by standard (auto simp: less_eq_rung_def less_rung_def)

end

fun rung_name :: "rung \<Rightarrow> bytes" where
  "rung_name DefaultRung = Default"
| "rung_name MachineRung = Machine"
| "rung_name UserRung = User"
| "rung_name EnvironmentRung = Environment"

lemma finite_rung [simp]: "finite (S :: rung set)"
proof (rule finite_subset [of _ "{DefaultRung, MachineRung, UserRung, EnvironmentRung}"])
  show "S \<subseteq> {DefaultRung, MachineRung, UserRung, EnvironmentRung}"
  proof
    fix r show "r \<in> {DefaultRung, MachineRung, UserRung, EnvironmentRung}" by (cases r) simp_all
  qed
qed simp

end
