(* ===== verification/ConfigSpec.thy ===== *)
theory ConfigSpec
  imports Config
begin

section \<open>What the layers promise\<close>

text \<open>
  The properties of the layers of \<open>go/config.go\<close>: the loaded configuration is the override of its
  sources and of the environment, each key names the rung that answered for it, a machine file that is
  not trusted counts for nothing, and a run's overrides are all that a run can change.
\<close>

text \<open>C5: Loading is layering: the view of the loaded configuration, value and provenance of every key, is the
  override of the sources' views in order, a source that cannot be read contributing nothing, with
  the environment's answers on top.\<close>

theorem load_layers:
  "view (load readFile sources environment) =
     foldr (\<lambda>s m. (case readFile (fst s) (snd s) of Inr c \<Rightarrow> view c | Inl e \<Rightarrow> Map.empty) ++ m)
       sources Map.empty ++ environment_view environment"
  unfolding source_view_def [symmetric] by (rule view_load)

text \<open>Merging three layers does not depend on the grouping, for the value and the provenance of every key,
  and an empty layer changes nothing.\<close>

theorem merge_monoid:
  "view (mergeConfig (mergeConfig a b) c) = view (mergeConfig a (mergeConfig b c)) \<and>
   view (mergeConfig Config_zero a) = view a \<and> view (mergeConfig a Config_zero) = view a"
  by (simp_all add: view_mergeConfig)

text \<open>Every key that a file sets carries that file's rung and path, and no key of it anything else.\<close>

theorem source_provenance:
  assumes "readSource casRead trusted path rung = Inr c"
  shows "view c key = (if key \<in> set Keys \<and> Config_set c key
    then Some (value_of c key, \<lparr>ConfigOrigin.Rung = rung, Path = path\<rparr>) else None)"
  using readSource_view [OF assms, of key] by (auto simp: view_value set_value)

definition sampleMachine :: Config where
  "sampleMachine = Config_zero\<lparr>Config.Store := lit ''disk'', Off := fmap_of_list [(lit ''nas'', [])]\<rparr>"

definition sampleUser :: Config where
  "sampleUser = Config_zero\<lparr>Config.Store := lit ''home''\<rparr>"

definition sampleDisk :: "bytes \<Rightarrow> bytes + bytes option" where
  "sampleDisk path =
     (if path = lit ''/m'' then Inr (Some (Config_MarshalIndent sampleMachine @ [ch CHR 0x0A]))
      else if path = lit ''/u'' then Inr (Some (Config_MarshalIndent sampleUser @ [ch CHR 0x0A]))
      else Inr None)"

lemma sample_valid: "valid_Config sampleMachine" "valid_Config sampleUser"
  by (simp_all add: valid_Config_def sampleMachine_def sampleUser_def Config_zero_def lit_valid)

lemma sample_settings: "settings sampleMachine = sampleMachine" "settings sampleUser = sampleUser"
  by (simp_all add: settings_def sampleMachine_def sampleUser_def Config_zero_def)

lemma sample_read:
  "readSource sampleDisk (\<lambda>p. None) (lit ''/m'') Machine
    = Inr (foldl (markKey (lit ''/m'') Machine) sampleMachine Keys)"
  "readSource sampleDisk (\<lambda>p. None) (lit ''/u'') User
    = Inr (foldl (markKey (lit ''/u'') User) sampleUser Keys)"
  using Unmarshal_MarshalIndent [OF sample_valid(1)] Unmarshal_MarshalIndent [OF sample_valid(2)]
  by (simp_all add: readSource_eq sampleDisk_def decodeSource_eq sample_settings Machine_def User_def)

lemma source_provenance_witness:
  "\<exists>c. readSource sampleDisk (\<lambda>p. None) (lit ''/m'') Machine = Inr c \<and>
     view c (lit ''store'') = Some (Text (lit ''disk''), \<lparr>ConfigOrigin.Rung = Machine, Path = lit ''/m''\<rparr>)"
proof -
  have "Config_text (foldl (markKey (lit ''/m'') Machine) sampleMachine Keys) (lit ''store'') = Some (lit ''disk'')"
    by (simp add: markKey_def Keys_def sampleMachine_def
        Config_from_def Config_text_def Config_zero_def Config_set_def)
  then show ?thesis
    using sample_read(1) source_provenance [OF sample_read(1), of "lit ''store''"]
    by (auto simp: Keys_def Config_set_def value_of_def)
qed

text \<open>The rungs that answer for a key, the default always among them.\<close>

definition answering ::
    "(bytes \<Rightarrow> bytes \<Rightarrow> bytes + Config) \<Rightarrow> bytes \<Rightarrow> bytes \<Rightarrow> (bytes \<Rightarrow> bytes) \<Rightarrow> bytes \<Rightarrow> rung list" where
  "answering readFile machinePath userPath environment key =
     filter (\<lambda>r. case r of
         DefaultRung \<Rightarrow> True
       | MachineRung \<Rightarrow> machinePath \<noteq> [] \<and> source_view readFile (machinePath, Machine) key \<noteq> None
       | UserRung \<Rightarrow> userPath \<noteq> [] \<and> source_view readFile (userPath, User) key \<noteq> None
       | EnvironmentRung \<Rightarrow> environment_view environment key \<noteq> None)
       [DefaultRung, MachineRung, UserRung, EnvironmentRung]"

text \<open>C16: The origin of every key is the highest rung that answers for it, in the order default, machine, user,
  environment; the default answers when nothing else does.\<close>

theorem origin_is_highest_rung:
  assumes "key \<in> set Keys"
  shows "ConfigOrigin.Rung (Config_Origin
      (load (readSource casRead trusted) (searchPaths machinePath userPath) environment) key)
    = rung_name (Max (set (answering (readSource casRead trusted) machinePath userPath environment key)))"
proof -
  let ?read = "readSource casRead trusted"
  let ?c = "load ?read (searchPaths machinePath userPath) environment"
  let ?m = "if machinePath \<noteq> [] then source_view ?read (machinePath, Machine) key else None"
  let ?u = "if userPath \<noteq> [] then source_view ?read (userPath, User) key else None"
  let ?e = "environment_view environment key"
  have v: "view ?c key = (case ?e of Some a \<Rightarrow> Some a | None \<Rightarrow>
      (case ?u of Some a \<Rightarrow> Some a | None \<Rightarrow> ?m))"
    by (simp add: view_load searchPaths_def map_add_def split: option.split)
  have m: "?m = Some a \<Longrightarrow> ConfigOrigin.Rung (snd a) = Machine"
    and u: "?u = Some a \<Longrightarrow> ConfigOrigin.Rung (snd a) = User" for a
    by (cases a; auto simp: source_view_def dest: readSource_view split: if_splits sum.splits)+
  have e: "?e = Some a \<Longrightarrow> ConfigOrigin.Rung (snd a) = Environment" for a
    by (auto simp: environment_view_def split: if_splits)
  have r: "ConfigOrigin.Rung (Config_Origin ?c key) =
      (case view ?c key of Some a \<Rightarrow> ConfigOrigin.Rung (snd a) | None \<Rightarrow> Default)"
  proof (cases "view ?c key")
    case None
    with unset_default [OF origins_ok_load None assms] show ?thesis by simp
  next
    case (Some a)
    then have "snd a = Config_Origin ?c key" by (auto simp: view_value split: if_splits)
    with Some show ?thesis by simp
  qed
  have max: "rung_name (Max (set (answering ?read machinePath userPath environment key))) =
      (if ?e \<noteq> None then Environment else if ?u \<noteq> None then User else if ?m \<noteq> None then Machine else Default)"
    by (simp add: answering_def max_def less_eq_rung_def)
  show ?thesis
    unfolding r v max using m u e by (auto split: option.split)
qed

lemma origin_is_highest_rung_witness:
  "ConfigOrigin.Rung (Config_Origin (load (readSource sampleDisk (\<lambda>p. None))
      (searchPaths (lit ''/m'') (lit ''/u'')) (\<lambda>name. [])) (lit ''store'')) = User"
proof -
  let ?read = "readSource sampleDisk (\<lambda>p. None)"
  have "Max (set (answering ?read (lit ''/m'') (lit ''/u'') (\<lambda>name. []) (lit ''store''))) = UserRung"
    by (simp add: answering_def source_view_def sample_read
        markKey_def Keys_def Config_from_def Config_text_def Config_zero_def Config_set_def view_def
        sampleMachine_def sampleUser_def environment_view_def max_def less_eq_rung_def)
  then show ?thesis
    using origin_is_highest_rung [of "lit ''store''" sampleDisk "\<lambda>p. None" "lit ''/m''" "lit ''/u''" "\<lambda>name. []"]
    by (simp add: Keys_def)
qed

text \<open>A machine file that its owner check does not trust counts for nothing: the configuration is the one
  loaded without it, whatever it says.\<close>

theorem untrusted_machine_file:
  assumes "trusted path = Some e"
  shows "load (readSource casRead trusted) ((path, Machine) # sources) environment
    = load (readSource casRead trusted) sources environment"
  using assms by (simp add: load_def loadSource_def readSource_eq split: sum.split option.split)

lemma untrusted_machine_file_witness:
  "load (readSource sampleDisk (\<lambda>p. Some (lit ''owner''))) [(lit ''/m'', Machine), (lit ''/u'', User)] (\<lambda>name. [])
    = load (readSource sampleDisk (\<lambda>p. Some (lit ''owner''))) [(lit ''/u'', User)] (\<lambda>name. [])"
  by (rule untrusted_machine_file [where e = "lit ''owner''"]) simp

lemma environmentKey_cong:
  "key \<in> set Keys \<Longrightarrow> (\<And>k. k \<in> set Keys \<Longrightarrow> k \<noteq> lit ''off'' \<Longrightarrow> e (mget EnvVars k) = e' (mget EnvVars k)) \<Longrightarrow>
   environmentKey e c key = environmentKey e' c key"
  by (cases "key = lit ''off''") (simp_all add: environmentKey_def split: option.split)

lemma applyEnvironment_cong:
  assumes "\<And>k. k \<in> set Keys \<Longrightarrow> k \<noteq> lit ''off'' \<Longrightarrow> e (mget EnvVars k) = e' (mget EnvVars k)"
  shows "applyEnvironment e c = applyEnvironment e' c"
  unfolding applyEnvironment_def by (rule foldl_cong) (auto intro: environmentKey_cong assms)

lemma environmentKey_Off [simp]: "Config.Off (environmentKey e c key) = Config.Off c"
  by (simp add: environmentKey_def Let_def Config_assign_def Config_from_def split: option.split)

lemma applyEnvironment_Off: "Config.Off (applyEnvironment e c) = Config.Off c"
  unfolding applyEnvironment_def by (rule foldl_keeps [where P = "\<lambda>d. Config.Off d = Config.Off c"]) simp_all

definition override_names :: "bytes set" where
  "override_names = {lit ''ABSTRACTION_NAS_STORE'', lit ''ABSTRACTION_STORE'', lit ''ABSTRACTION_LOG'',
      lit ''ABSTRACTION_LOG_SERVICE''}"

lemma EnvVars_names: "k \<in> set Keys \<Longrightarrow> k \<noteq> lit ''off'' \<Longrightarrow> mget EnvVars k \<in> override_names"
  by (auto simp: Keys_def EnvVars_def mget_def override_names_def)

text \<open>A run's overrides reach four keys and nothing else: two sets of overrides that agree on the four
  environment names give the same configuration, and the refusals (\<open>off\<close>) are the files' alone.\<close>

theorem overrides_reach:
  assumes "\<forall>name \<in> override_names. mget values name = mget values' name"
  shows "LoadWithOverrides readFile sources values = LoadWithOverrides readFile sources values' \<and>
    Config.Off (LoadWithOverrides readFile sources values)
      = Config.Off (foldl (loadSource readFile) Config_zero sources)"
  using assms EnvVars_names unfolding LoadWithOverrides_def load_def
  by (auto intro: applyEnvironment_cong simp: applyEnvironment_Off)

lemma overrides_reach_witness:
  "LoadWithOverrides (readSource sampleDisk (\<lambda>p. None)) [(lit ''/m'', Machine)]
      (fmap_of_list [(lit ''ABSTRACTION_STORE'', lit ''x''), (lit ''ABSTRACTION_OFF'', lit ''y'')])
    = LoadWithOverrides (readSource sampleDisk (\<lambda>p. None)) [(lit ''/m'', Machine)]
      (fmap_of_list [(lit ''ABSTRACTION_STORE'', lit ''x'')])"
  by (rule overrides_reach [THEN conjunct1]) (simp add: override_names_def mget_def)

text \<open>C36: a file that is there and could be read is either used or named on standard error with the reason, once and in
  the order of the sources, and nothing else is written there: a malformed file, or one of the machine rung that no
  administrator wrote, is never ignored silently. The service's reader of the machine rung names the file
  it does not trust, which it does not read, and the malformed one. A file that could not be read is
  not named by either.\<close>

theorem ignored_is_said:
  "loadSaying (readSaying casRead trusted) sources environment =
     (load (readSource casRead trusted) sources environment,
      [ignoring path e. (path, rung) \<leftarrow> sources, Inr (Some b) \<leftarrow> [casRead path],
        Inl e \<leftarrow> [readSource casRead trusted path rung]])
   \<and> readMachineSaying readLimit checkTrust path =
     (readMachineSource readLimit checkTrust path,
      [ignoring path e. Inl e \<leftarrow> [readMachineSource readLimit checkTrust path],
        case checkTrust path of Some why \<Rightarrow> True | None \<Rightarrow> (\<exists>b. readLimit path MaxUserFileBytes = Inr (Some b))])"
proof -
  have said: "snd (readSaying casRead trusted path rung) =
      [ignoring path e. Inr (Some b) \<leftarrow> [casRead path], Inl e \<leftarrow> [readSource casRead trusted path rung]]" for path rung
    by (auto simp: readSource_def readSaying_def decodeSaying_def split: sum.split option.split)
  have "concat (map (\<lambda>s. snd (readSaying casRead trusted (fst s) (snd s))) sources) =
      [ignoring path e. (path, rung) \<leftarrow> sources, Inr (Some b) \<leftarrow> [casRead path],
        Inl e \<leftarrow> [readSource casRead trusted path rung]]"
    by (induction sources) (auto simp: said split: sum.split option.split)
  moreover have "snd (readMachineSaying readLimit checkTrust path) =
      [ignoring path e. Inl e \<leftarrow> [readMachineSource readLimit checkTrust path],
        case checkTrust path of Some why \<Rightarrow> True | None \<Rightarrow> (\<exists>b. readLimit path MaxUserFileBytes = Inr (Some b))]"
    by (auto simp: readMachineSource_def readMachineSaying_def decodeSaying_def split: sum.split option.split)
  ultimately show ?thesis
    by (simp add: loadSaying_eq readSource_def [abs_def] readMachineSource_def prod_eq_iff)
qed

text \<open>The line of a machine file of somebody else.\<close>

lemma foreign_file_is_said:
  "snd (loadSaying (readSaying (\<lambda>path. Inr (Some (lit ''{}''))) (\<lambda>path. Some (lit ''why''))) [(lit ''/m'', Machine)] (\<lambda>name. []))
     = [lit ''abstraction: ignoring /m: why'' @ [10]]"
  by code_simp

end
