(* ===== verification/Sha256.thy ===== *)
theory Sha256
  imports Emit
begin

section \<open>SHA-256 and hexadecimal text\<close>

text \<open>
  The hash of \<open>crypto/sha256\<close> (FIPS 180-4) on 32-bit words, and \<open>hex.EncodeToString\<close>, \<open>hex.DecodeString\<close>
  as far as the code uses them: revisions of the user file and cursors of an observation are the
  hexadecimal text of such a hash. No lemma below depends on the hash beyond its length.
\<close>

subsection \<open>The hash\<close>

definition shaConstants :: "u32 list" where
  "shaConstants =
    [0x428A2F98, 0x71374491, 0xB5C0FBCF, 0xE9B5DBA5, 0x3956C25B, 0x59F111F1, 0x923F82A4, 0xAB1C5ED5,
     0xD807AA98, 0x12835B01, 0x243185BE, 0x550C7DC3, 0x72BE5D74, 0x80DEB1FE, 0x9BDC06A7, 0xC19BF174,
     0xE49B69C1, 0xEFBE4786, 0x0FC19DC6, 0x240CA1CC, 0x2DE92C6F, 0x4A7484AA, 0x5CB0A9DC, 0x76F988DA,
     0x983E5152, 0xA831C66D, 0xB00327C8, 0xBF597FC7, 0xC6E00BF3, 0xD5A79147, 0x06CA6351, 0x14292967,
     0x27B70A85, 0x2E1B2138, 0x4D2C6DFC, 0x53380D13, 0x650A7354, 0x766A0ABB, 0x81C2C92E, 0x92722C85,
     0xA2BFE8A1, 0xA81A664B, 0xC24B8B70, 0xC76C51A3, 0xD192E819, 0xD6990624, 0xF40E3585, 0x106AA070,
     0x19A4C116, 0x1E376C08, 0x2748774C, 0x34B0BCB5, 0x391C0CB3, 0x4ED8AA4A, 0x5B9CCA4F, 0x682E6FF3,
     0x748F82EE, 0x78A5636F, 0x84C87814, 0x8CC70208, 0x90BEFFFA, 0xA4506CEB, 0xBEF9A3F7, 0xC67178F2]"

definition shaStart :: "u32 list" where
  "shaStart =
    [0x6A09E667, 0xBB67AE85, 0x3C6EF372, 0xA54FF53A, 0x510E527F, 0x9B05688C, 0x1F83D9AB, 0x5BE0CD19]"

definition rotr :: "nat \<Rightarrow> u32 \<Rightarrow> u32" where
  "rotr n x = drop_bit n x OR push_bit (32 - n) x"

definition bigEndian :: "bytes \<Rightarrow> u32" where
  "bigEndian b = foldl (\<lambda>w x. push_bit 8 w OR ucast x) 0 b"

fun shaWords :: "nat \<Rightarrow> bytes \<Rightarrow> u32 list" where
  "shaWords 0 b = []"
| "shaWords (Suc n) b = bigEndian (take 4 b) # shaWords n (drop 4 b)"

text \<open>The message schedule: \<open>shaExtend n ws\<close> adds \<open>n\<close> words to the sixteen of a block.\<close>

fun shaExtend :: "nat \<Rightarrow> u32 list \<Rightarrow> u32 list" where
  "shaExtend 0 ws = ws"
| "shaExtend (Suc n) ws =
     (let t = length ws;
          x = ws ! (t - 15); y = ws ! (t - 2);
          s0 = rotr 7 x XOR rotr 18 x XOR drop_bit 3 x;
          s1 = rotr 17 y XOR rotr 19 y XOR drop_bit 10 y
      in shaExtend n (ws @ [ws ! (t - 16) + s0 + ws ! (t - 7) + s1]))"

fun shaRound :: "u32 list \<Rightarrow> u32 \<times> u32 \<Rightarrow> u32 list" where
  "shaRound [a, b, c, d, e, f, g, h] (k, w) =
     (let t1 = h + (rotr 6 e XOR rotr 11 e XOR rotr 25 e) + ((e AND f) XOR (NOT e AND g)) + k + w;
          t2 = (rotr 2 a XOR rotr 13 a XOR rotr 22 a) + ((a AND b) XOR (a AND c) XOR (b AND c))
      in [t1 + t2, a, b, c, d + t1, e, f, g])"
| "shaRound s kw = s"

definition shaBlock :: "u32 list \<Rightarrow> bytes \<Rightarrow> u32 list" where
  "shaBlock s b =
     map2 (+) s (foldl shaRound s (zip shaConstants (shaExtend 48 (shaWords 16 b))))"

definition shaPad :: "bytes \<Rightarrow> bytes" where
  "shaPad m =
     m @ [0x80] @ replicate ((119 - length m mod 64) mod 64) 0
       @ map (\<lambda>i. ucast (drop_bit (8 * i) (of_nat (length m * 8) :: u64))) [7, 6, 5, 4, 3, 2, 1, 0]"

fun shaBlocks :: "nat \<Rightarrow> u32 list \<Rightarrow> bytes \<Rightarrow> u32 list" where
  "shaBlocks 0 s b = s"
| "shaBlocks (Suc n) s b = shaBlocks n (shaBlock s (take 64 b)) (drop 64 b)"

definition wordBytes :: "u32 \<Rightarrow> bytes" where
  "wordBytes w = map (\<lambda>i. ucast (drop_bit (8 * i) w)) [3, 2, 1, 0]"

definition sum256 :: "bytes \<Rightarrow> bytes" where
  "sum256 m = (let p = shaPad m in concat (map wordBytes (shaBlocks (length p div 64) shaStart p)))"

subsection \<open>Hexadecimal text\<close>

definition hexByte :: "byte \<Rightarrow> bytes" where
  "hexByte c = [hexdigits ! unat (drop_bit 4 c), hexdigits ! unat (c AND 0xF)]"

definition hexEncode :: "bytes \<Rightarrow> bytes" where
  "hexEncode s = concat (map hexByte s)"

lemma length_shaRound: "length (shaRound s kw) = length s"
  by (induction s kw rule: shaRound.induct) (simp_all add: Let_def)

lemma length_foldl_shaRound: "length (foldl shaRound s kws) = length s"
  by (induction kws arbitrary: s) (simp_all add: length_shaRound)

lemma length_shaBlocks: "length (shaBlocks n s b) = length s"
  by (induction n arbitrary: s b) (simp_all add: shaBlock_def length_foldl_shaRound)

lemma length_sum256: "length (sum256 m) = 32"
proof -
  have "length (concat (map wordBytes ws)) = 4 * length ws" for ws
    by (induction ws) (simp_all add: wordBytes_def)
  then show ?thesis by (simp add: sum256_def Let_def length_shaBlocks shaStart_def)
qed

lemma length_hexEncode: "length (hexEncode s) = 2 * length s"
  by (induction s) (simp_all add: hexEncode_def hexByte_def)

end
