(* ===== verification/UserFile.thy ===== *)
theory UserFile
  imports Config Sha256
begin

section \<open>The user file as the editor reads it\<close>

text \<open>
  Models \<open>strictUserFields\<close> and \<open>userSnapshot\<close> of \<open>go/user_editor.go\<close>: the editor reads the user file
  with a stricter parser than the loader, since it will overwrite what it read. A record has exact
  field names once each, no \<open>null\<close>, string reasons in \<open>off\<close>, valid UTF-8 and paired surrogates; its
  revision is the hash of the normal form. The texts of the decoder's errors are not modelled. The code goes
  over the text with a \<open>json.Decoder\<close> twice, token by token in \<open>strictUserFields\<close> and as a whole in
  \<open>userSnapshot\<close>, and asks each time that nothing follows; the model parses it with \<open>goParse\<close>, which is what both
  accept: a text that is no JSON document is refused by the second pass whatever the first saw of it.
  The lemmas show that the editor reads what it writes, with one revision for one content, that
  the loader reads the same settings, and which texts exactly are accepted.
\<close>

subsection \<open>White space\<close>

text \<open>The encodings of \<open>unicode.IsSpace\<close>, and \<open>bytes.TrimSpace\<close> at the left end.\<close>

definition goSpaces :: "bytes list" where
  "goSpaces =
     [[0x09], [0x0A], [0x0B], [0x0C], [0x0D], [0x20], [0xC2, 0x85], [0xC2, 0xA0], [0xE1, 0x9A, 0x80],
      [0xE2, 0x80, 0x80], [0xE2, 0x80, 0x81], [0xE2, 0x80, 0x82], [0xE2, 0x80, 0x83], [0xE2, 0x80, 0x84],
      [0xE2, 0x80, 0x85], [0xE2, 0x80, 0x86], [0xE2, 0x80, 0x87], [0xE2, 0x80, 0x88], [0xE2, 0x80, 0x89],
      [0xE2, 0x80, 0x8A], [0xE2, 0x80, 0xA8], [0xE2, 0x80, 0xA9], [0xE2, 0x80, 0xAF], [0xE2, 0x81, 0x9F],
      [0xE3, 0x80, 0x80]]"

lemma goSpaces_nonempty: "w \<in> set goSpaces \<Longrightarrow> w \<noteq> []"
  by (auto simp: goSpaces_def)

definition leadingSpace :: "bytes \<Rightarrow> nat" where
  "leadingSpace s = (case find (\<lambda>w. take (length w) s = w) goSpaces of Some w \<Rightarrow> length w | None \<Rightarrow> 0)"

function trimLeft :: "bytes \<Rightarrow> bytes" where
  "trimLeft s = (if leadingSpace s = 0 then s else trimLeft (drop (leadingSpace s) s))"
  by pat_completeness auto
termination
proof (relation "measure length")
  fix s assume "leadingSpace s \<noteq> 0"
  moreover have "s \<noteq> []" if "leadingSpace s \<noteq> 0"
    using that goSpaces_nonempty [OF nth_mem] by (auto simp: leadingSpace_def find_Some_iff split: option.splits) metis
  ultimately show "(drop (leadingSpace s) s, s) \<in> measure length" by simp
qed simp

declare trimLeft.simps [simp del]

text \<open>\<open>strings.TrimSpace(s) == ""\<close>\<close>

definition blank :: "bytes \<Rightarrow> bool" where
  "blank s \<longleftrightarrow> trimLeft s = []"

subsection \<open>The strict record\<close>

text \<open>
  The scan over the raw bytes, outside and inside a string: no unpaired surrogate escape.
  \<open>strconv.ParseUint\<close> on four digits of base 16 is \<open>hex_loop\<close>.
\<close>

fun strictScan :: "bytes \<Rightarrow> bool"
  and strictString :: "bytes \<Rightarrow> bool" where
  "strictScan [] = True"
| "strictScan (c # s) = (if c = ch CHR 0x22 then strictString s else strictScan s)"
| "strictString [] = True"
| "strictString (c # s) =
     (if c = ch CHR 0x22 then strictScan s
      else if c \<noteq> ch CHR 0x5C then strictString s
      else (case s of [] \<Rightarrow> False | e # es \<Rightarrow>
        if e \<noteq> ch CHR ''u'' then strictString es
        else if length es < 4 then False
        else (case hex_loop (take 4 es) 0 of None \<Rightarrow> False | Some v \<Rightarrow>
          if 0xDC00 \<le> v \<and> v \<le> 0xDFFF then False
          else if 0xD800 \<le> v \<and> v \<le> 0xDBFF then
            (if length es < 10 \<or> es ! 4 \<noteq> ch CHR 0x5C \<or> es ! 5 \<noteq> ch CHR ''u'' then False
             else (case hex_loop (take 4 (drop 6 es)) 0 of None \<Rightarrow> False | Some low \<Rightarrow>
               if low < 0xDC00 \<or> 0xDFFF < low then False else strictString (drop 10 es)))
          else strictString (drop 4 es))))"

definition badRecord :: bytes where
  "badRecord = lit ''config: unsupported user record''"

text \<open>The names of the \<open>switch\<close>, and the loop over the members; the code keeps their raw text, the model the values.\<close>

definition recordNames :: "bytes list" where
  "recordNames = [lit ''nas_store'', lit ''store'', lit ''log_sink'', lit ''log_service'', lit ''off'']"

fun strictMembers :: "(bytes \<times> gojson) list \<Rightarrow> (bytes \<times> gojson) list \<Rightarrow> bytes + (bytes \<times> gojson) list" where
  "strictMembers seen [] = Inr seen"
| "strictMembers seen ((key, v) # ms) =
     (if key \<notin> set recordNames then Inl badRecord
      else if map_of seen key \<noteq> None then Inl badRecord
      else strictMembers (seen @ [(key, v)]) ms)"

definition strictUserFields :: "bytes \<Rightarrow> bytes + (bytes \<times> gojson) list" where
  "strictUserFields data =
     (if \<not> validUTF8 data then Inl badRecord
      else if \<not> strictScan data then Inl badRecord
      else (case goParse data of Some (Vobj ms) \<Rightarrow> strictMembers [] ms | _ \<Rightarrow> Inl badRecord))"

lemma strictMembers_eq:
  "strictMembers seen ms =
     (if (\<forall>m \<in> set ms. fst m \<in> set recordNames) \<and> distinct (map fst ms) \<and> fst ` set ms \<inter> fst ` set seen = {}
      then Inr (seen @ ms) else Inl badRecord)"
  by (induction seen ms rule: strictMembers.induct) (auto simp: map_of_eq_None_iff)

lemma recordNames_Keys: "recordNames = Keys"
  by (simp add: recordNames_def Keys_def)

lemma strictUserFields_eq:
  "strictUserFields data =
     (if \<not> validUTF8 data then Inl badRecord
      else if \<not> strictScan data then Inl badRecord
      else (case goParse data of
          Some (Vobj ms) \<Rightarrow>
            if (\<forall>m \<in> set ms. fst m \<in> set Keys) \<and> distinct (map fst ms) then Inr ms else Inl badRecord
        | _ \<Rightarrow> Inl badRecord))"
  by (simp add: strictUserFields_def strictMembers_eq recordNames_Keys split: option.split gojson.split)

text \<open>The loop of \<open>userSnapshot\<close> over the members.\<close>

definition is_text :: "gojson \<Rightarrow> bool" where
  "is_text v \<longleftrightarrow> (case v of Vstr s \<Rightarrow> True | _ \<Rightarrow> False)"

definition fieldOk :: "bytes \<times> gojson \<Rightarrow> bool" where
  "fieldOk m \<longleftrightarrow> snd m \<noteq> Vnull \<and>
     (fst m = lit ''off'' \<longrightarrow> (case snd m of Vobj es \<Rightarrow> \<forall>e \<in> set es. is_text (snd e) | _ \<Rightarrow> False))"

record UserFileSnapshot =
  Values :: Config
  Revision :: bytes

definition revisionOf :: "Config \<Rightarrow> bytes" where
  "revisionOf c = lit ''user-v1:'' @ hexEncode (sum256 (Config_Marshal c))"

definition snapshotOf :: "Config \<Rightarrow> UserFileSnapshot" where
  "snapshotOf c = \<lparr>UserFileSnapshot.Values = c, Revision = revisionOf c\<rparr>"

definition userSnapshot :: "bytes option \<Rightarrow> bytes + UserFileSnapshot" where
  "userSnapshot data =
     (case data of None \<Rightarrow> Inr (snapshotOf Config_zero)
      | Some data \<Rightarrow>
          if take 1 (trimLeft data) \<noteq> [ch CHR ''{''] then Inl (lit ''config: user settings must be an object'')
          else (case strictUserFields data of Inl e \<Rightarrow> Inl e
            | Inr ms \<Rightarrow>
                if \<not> list_all fieldOk ms then Inl (lit ''config: bad user setting'')
                else (case goParse data of None \<Rightarrow> Inl badFile
                  | Some v \<Rightarrow>
                      (case Config_decode True v of None \<Rightarrow> Inl badFile
                       | Some values \<Rightarrow> Inr (snapshotOf values)))))"

subsection \<open>The editor reads what it writes\<close>

lemma find_None: "(\<And>x. x \<in> set xs \<Longrightarrow> \<not> P x) \<Longrightarrow> find P xs = None"
  by (simp add: find_None_iff)

lemma trimLeft_brace: "take 1 (trimLeft (123 # s)) = [123]"
proof -
  have "take (length w) (123 # s) \<noteq> w" if "w \<in> set goSpaces" for w
    using that by (auto simp: goSpaces_def)
  then have "leadingSpace (123 # s) = 0" by (auto simp: leadingSpace_def find_None)
  then show ?thesis by (simp add: trimLeft.simps)
qed

lemma strictString_plain:
  "plain_text s \<Longrightarrow> strictString (s @ t) = strictString t"
  by (induction s) (auto simp: plain_text_def)

lemma strictString_code:
  assumes "length h = 4" and "hex_loop h 0 = Some v" and "\<not> (0xD800 \<le> v \<and> v \<le> 0xDFFF)"
  shows "strictString (ch CHR 0x5C # ch CHR ''u'' # h @ t) = strictString t"
proof -
  have v: "\<not> (0xDC00 \<le> v \<and> v \<le> 0xDFFF)" "\<not> (0xD800 \<le> v \<and> v \<le> 0xDBFF)"
    using assms(3) by (auto simp: word_le_nat_alt)
  show ?thesis
    using assms(1,2) by (simp del: hex_loop.simps add: if_not_P [OF v(1)] if_not_P [OF v(2)])
qed

lemma strictString_byte: "c < 0x80 \<Longrightarrow> strictString (goEscapeByte c @ t) = strictString t"
proof -
  assume c: "c < 0x80"
  then show ?thesis
  proof (cases rule: goEscapeByte_cases)
    case code
    have "unat c < 64" using code(3) by (simp add: word_less_nat_alt)
    then have "\<not> (0xD800 \<le> (ucast c :: u32) \<and> ucast c \<le> (0xDFFF :: u32))"
      by (simp add: word_le_nat_alt unat_byte_u32)
    with strictString_code [of "control_text c" "ucast c" t] code show ?thesis by (simp add: control_text_def)
  qed simp_all
qed

lemma strictString_high: "\<forall>c \<in> set s. \<not> c < 0x80 \<Longrightarrow> strictString (s @ t) = strictString t"
  by (induction s) auto

lemma strictString_piece: "scalar k \<Longrightarrow> strictString (goPiece k @ t) = strictString t"
proof (cases "k < 0x80")
  case True
  then show ?thesis by (simp add: goPiece_def strictString_byte byte_less_80 unat_nb)
next
  case False
  assume k: "scalar k"
  show ?thesis
  proof (cases rule: goEscapeRune_cases [of "utf8 k"])
    case ls
    with False separators strictString_code [where h = "lit ''2028''" and v = "0x2028" and t = t]
    show ?thesis by (simp add: goPiece_def)
  next
    case ps
    with False separators strictString_code [where h = "lit ''2029''" and v = "0x2029" and t = t]
    show ?thesis by (simp add: goPiece_def)
  next
    case plain
    obtain c cs where c: "utf8 k = c # cs" "\<not> c < 0x80" using utf8_high [OF k False] .
    have "\<forall>c \<in> set (utf8 k). \<not> c < 0x80" using utf8_ascii [OF k] c by auto
    with False plain show ?thesis by (simp add: goPiece_def strictString_high)
  qed
qed

lemma strictString_escaped:
  assumes "validUTF8 s"
  shows "strictString (goEscape s @ t) = strictString t"
  using assms by (induction s rule: rune_induct) (simp_all add: goEscape_rune strictString_piece)

lemma strictScan_quoted: "validUTF8 s \<Longrightarrow> strictScan (goQuoted s @ t) = strictScan t"
  by (simp add: goQuoted_def strictString_escaped)

lemma strictScan_plain: "\<forall>c \<in> set s. c \<noteq> 34 \<Longrightarrow> strictScan (s @ t) = strictScan t"
  by (induction s) auto

lemma space_not_quote: "space c \<Longrightarrow> c \<noteq> 34"
  by (auto simp: space_def)

lemma strictScan_layout: "layout_ok l \<Longrightarrow> strictScan (line l d @ t) = strictScan t"
  "layout_ok l \<Longrightarrow> strictScan (colon l @ t) = strictScan t"
  by (auto intro!: strictScan_plain simp: layout_ok_def dest: space_not_quote)

lemma strictScan_words: "strictScan (lit ''null'' @ t) = strictScan t" "strictScan (lit ''true'' @ t) = strictScan t"
  "strictScan (lit ''false'' @ t) = strictScan t"
  by (simp_all add: lit_Cons)

lemma strictScan_write:
  "writable n v \<Longrightarrow> strictScan (goWrite l d v @ t) = strictScan t"
  "\<forall>v \<in> set vs. writable n v \<Longrightarrow> strictScan (goWriteItems l d vs @ t) = strictScan t"
  "\<forall>m \<in> set ms. validUTF8 (fst m) \<and> writable n (snd m) \<Longrightarrow> strictScan (goWriteMembers l d ms @ t) = strictScan t"
  if "layout_ok l"
  using that
proof (induction l d v and l d vs and l d ms arbitrary: n t and n t and n t
    rule: goWrite_goWriteItems_goWriteMembers.induct)
  case (6 l d ms)
  have "strictScan (goWriteMembers l (d + 1) ms @ u) = strictScan u" if "ms \<noteq> []" for u
    using 6(2,3) that by (intro 6(1) [of "n - 1"]) (auto simp: case_prod_beta)
  with 6(3) show ?case by (simp add: strictScan_layout)
next
  case (10 l d k v ms)
  then show ?case by (simp add: strictScan_layout strictScan_quoted 10(1) [of n] 10(2) [of n])
qed (auto simp: strictScan_layout strictScan_quoted strictScan_words)

lemma Config_json_fields:
  "Config_json c = Vobj ms \<Longrightarrow>
   list_all fieldOk ms \<and> (\<forall>m \<in> set ms. fst m \<in> set Keys) \<and> distinct (map fst ms)"
  unfolding Config_json_def
  by (drule sym) (simp add: textMember_def offMember_def Keys_def fieldOk_def is_text_def split del: if_split;
      intro conjI; simp add: fieldOk_def is_text_def)

lemma strictUserFields_written:
  assumes "valid_Config c" and "Config_json c = Vobj ms"
  shows "strictUserFields (Config_MarshalIndent c @ [ch CHR 0x0A]) = Inr ms"
proof -
  have "validUTF8 (Config_MarshalIndent c @ [ch CHR 0x0A])"
    using assms(1) by (simp add: Config_MarshalIndent_def goWrite_valid(1) [OF layouts_ok(2) Config_json_writable] validUTF8_append validUTF8_Cons)
  moreover have "strictScan (Config_MarshalIndent c @ [ch CHR 0x0A])"
    unfolding Config_MarshalIndent_def
    by (subst strictScan_write(1) [OF layouts_ok(2) Config_json_writable [OF assms(1)]]) simp
  moreover have "goParse (Config_MarshalIndent c @ [ch CHR 0x0A]) = Some (Vobj ms)"
    using goParse_Config [OF assms(1) layouts_ok(2), of "[ch CHR 0x0A]" 0] assms(2)
    by (simp add: Config_MarshalIndent_def space_def)
  ultimately show ?thesis
    using Config_json_fields [OF assms(2)] by (simp add: strictUserFields_eq)
qed

lemma userSnapshot_written:
  assumes "valid_Config c"
  shows "userSnapshot (Some (Config_MarshalIndent c @ [ch CHR 0x0A])) = Inr (snapshotOf (settings c))"
proof -
  obtain ms where ms: "Config_json c = Vobj ms" by (simp add: Config_json_def)
  have "goParse (Config_MarshalIndent c @ [ch CHR 0x0A]) = Some (Vobj ms)"
    using goParse_Config [OF assms layouts_ok(2), of "[ch CHR 0x0A]" 0] ms
    by (simp add: Config_MarshalIndent_def space_def)
  moreover obtain s where "Config_MarshalIndent c = 123 # s"
    by (simp add: Config_MarshalIndent_def Config_json_def)
  moreover note Config_decode_json [of True c]
  ultimately show ?thesis
    using strictUserFields_written [OF assms ms] Config_json_fields [OF ms]
    by (simp add: userSnapshot_def trimLeft_brace [simplified] ms)
qed

subsection \<open>What the editor reads\<close>

lemma setMember_strict:
  "foldl (setMember True) (Some c) ms = Some c' \<Longrightarrow> foldl (setMember False) (Some c) ms = Some c'"
proof (induction ms arbitrary: c)
  case (Cons m ms)
  obtain k v where m: "m = (k, v)" by (cases m)
  from Cons.prems m obtain d where d: "setMember True (Some c) (k, v) = Some d"
    "foldl (setMember True) (Some d) ms = Some c'"
    by (cases "setMember True (Some c) (k, v)") (auto simp: setMember_None simp del: setMember.simps)
  from d(1) have "setMember False (Some c) (k, v) = Some d" by (auto split: option.splits)
  with d(2) Cons.IH m show ?case by simp
qed simp

lemma Config_decode_strict: "Config_decode True v = Some c \<Longrightarrow> Config_decode False v = Some c"
  by (auto simp: Config_decode_def setMember_strict split: gojson.splits)

lemma Config_decode_Origins: "Config_decode strict v = Some c \<Longrightarrow> Config.Origins c = fmempty"
  by (auto simp: Config_decode_def Config_zero_def dest: setMember_Origins split: gojson.splits)

lemma settings_idle: "Config.Origins c = fmempty \<Longrightarrow> settings c = c"
  by (cases c) (simp add: settings_def)

lemma userSnapshot_some:
  assumes "userSnapshot (Some d) = Inr s"
  obtains v where "goParse d = Some v" "Config_decode True v = Some (UserFileSnapshot.Values s)"
    "s = snapshotOf (UserFileSnapshot.Values s)"
  using assms by (auto simp: userSnapshot_def snapshotOf_def split: if_splits sum.splits option.splits)

lemma userSnapshot_none: "userSnapshot None = Inr (snapshotOf Config_zero)"
  by (simp add: userSnapshot_def)

lemma userSnapshot_values:
  assumes "userSnapshot data = Inr s"
  shows "valid_Config (UserFileSnapshot.Values s) \<and> Config.Origins (UserFileSnapshot.Values s) = fmempty
    \<and> s = snapshotOf (UserFileSnapshot.Values s)"
proof (cases data)
  case None
  with assms valid_Config_zero show ?thesis by (auto simp: userSnapshot_none snapshotOf_def Config_zero_def)
next
  case (Some d)
  with assms show ?thesis
    by (auto elim!: userSnapshot_some dest: goParse_valid Config_decode_valid Config_decode_Origins)
qed

lemma userSnapshot_lax:
  "userSnapshot (Some d) = Inr s \<Longrightarrow> Config_Unmarshal d = Inr (UserFileSnapshot.Values s)"
  by (auto elim!: userSnapshot_some dest!: Config_decode_strict simp: Config_Unmarshal_def)

lemma userSnapshot_normal:
  "userSnapshot data = Inr s \<Longrightarrow>
   userSnapshot (Some (Config_MarshalIndent (UserFileSnapshot.Values s) @ [ch CHR 0x0A])) = Inr s"
  using userSnapshot_values [of data s] userSnapshot_written [of "UserFileSnapshot.Values s"]
  by (metis settings_idle)

lemma revision_settings: "revisionOf (settings c) = revisionOf c"
  by (simp add: revisionOf_def Config_Marshal_def Config_json_def settings_def)

subsection \<open>Which records the editor reads\<close>

lemma goItems_array:
  "goValue d s = r1 \<Longrightarrow> True"
  "goItems d vs s = Some (v, t) \<Longrightarrow> \<exists>xs. v = Varr xs"
  "goMembers d ms s = r3 \<Longrightarrow> True"
proof (induction d s and d vs s and d ms s arbitrary: r1 and v t and r3 rule: goValue_goItems_goMembers.induct)
  case (2 d vs s)
  from 2(3) obtain x u c cs where x: "goValue d s = Some (x, u)" and u: "skipSpace u = c # cs"
    by (auto simp: goItems.simps [of d vs s] split: option.splits list.splits)
  show ?case
  proof (cases "c = ch CHR '',''")
    case True
    with 2(3) x u 2(2) [OF x _ u] show ?thesis by (auto simp: goItems.simps [of d vs s] split: if_splits)
  next
    case False
    with 2(3) x u show ?thesis by (auto simp: goItems.simps [of d vs s] split: if_splits)
  qed
qed simp_all

lemma goValue_scalar:
  assumes "c \<noteq> ch CHR ''{''" and "c \<noteq> ch CHR ''[''" and "goValue d (c # t) = Some (v, r)"
  shows "(\<exists>x. v = Vstr x) \<or> (\<exists>x. v = Vnum x) \<or> v = Vbool True \<or> v = Vbool False \<or> v = Vnull"
proof -
  have "goValue d (c # t) =
      (if c = ch CHR 0x22 then map_option (apfst Vstr) (goStr [] t)
       else if c = ch CHR ''t'' then goWord ''true'' (Vbool True) (c # t)
       else if c = ch CHR ''f'' then goWord ''false'' (Vbool False) (c # t)
       else if c = ch CHR ''n'' then goWord ''null'' Vnull (c # t)
       else map_option (apfst Vnum) (goNumber (c # t)))"
    unfolding goValue.simps [of d "c # t"] list.case if_not_P [OF assms(1)] if_not_P [OF assms(2)] by (rule refl)
  with assms(3) show ?thesis by (auto simp: goWord_def apfst_def map_prod_def split: if_splits prod.splits)
qed

lemma goParse_object:
  assumes "goParse d = Some (Vobj ms)"
  shows "\<exists>t. skipSpace d = ch CHR ''{'' # t"
proof -
  obtain r where r: "goValue 0 (skipSpace d) = Some (Vobj ms, r)"
    using assms by (auto simp: goParse_def split: option.splits if_splits)
  then obtain c t where s: "skipSpace d = c # t"
    by (cases "skipSpace d") (auto simp: goValue.simps [of 0 "[]"])
  note r = r [unfolded s]
  have "c = ch CHR ''{''"
  proof (rule ccontr)
    assume c: "c \<noteq> ch CHR ''{''"
    have a: "c = ch CHR ''[''" using goValue_scalar [OF c _ r] by blast
    then have "goItems 1 [] (skipSpace t) = Some (Vobj ms, r)"
      using r unfolding a goValue.simps [of 0 "ch CHR ''['' # t"]
      by (cases "skipSpace t") (simp_all split: if_splits)
    then show False using goItems_array(2) by blast
  qed
  with s show ?thesis by simp
qed

lemma leadingSpace_space:
  assumes "space c"
  shows "leadingSpace (c # s) = 1"
proof -
  obtain ws where ws: "goSpaces = [0x09] # [0x0A] # [0x0B] # [0x0C] # [0x0D] # [0x20] # ws" by (simp add: goSpaces_def)
  from assms consider "c = 0x20" | "c = 0x09" | "c = 0x0A" | "c = 0x0D" by (auto simp: space_def)
  then show ?thesis by cases (simp_all add: leadingSpace_def ws)
qed

lemma trimLeft_object: "dropWhile space d = 123 # t \<Longrightarrow> take 1 (trimLeft d) = [123]"
proof (induction d)
  case (Cons c d)
  show ?case
  proof (cases "space c")
    case True
    with Cons show ?thesis by (simp add: trimLeft.simps [of "c # d"] leadingSpace_space)
  next
    case False
    with Cons.prems show ?thesis using trimLeft_brace [of d] by simp
  qed
qed simp

text \<open>What a record must hold for a text, absent when empty, and for the refusals, the last of several entries
  for one name counting.\<close>

fun textIs :: "gojson option \<Rightarrow> bytes \<Rightarrow> bool" where
  "textIs None s = (s = [])"
| "textIs (Some v) s = (v = Vstr s)"

fun refusalsAre :: "gojson option \<Rightarrow> bytes gomap \<Rightarrow> bool" where
  "refusalsAre None m = (m = fmempty)"
| "refusalsAre (Some v) m = (\<exists>es. v = Vobj (map (apsnd Vstr) es) \<and> m = fmap_of_list (rev es))"

definition user_record :: "(bytes \<times> gojson) list \<Rightarrow> Config \<Rightarrow> bool" where
  "user_record ms c \<longleftrightarrow> distinct (map fst ms)
     \<and> fst ` set ms \<subseteq> {lit ''nas_store'', lit ''store'', lit ''log_sink'', lit ''log_service'', lit ''off''}
     \<and> textIs (map_of ms (lit ''nas_store'')) (Config.NASStore c) \<and> textIs (map_of ms (lit ''store'')) (Config.Store c)
     \<and> textIs (map_of ms (lit ''log_sink'')) (Config.LogSink c) \<and> textIs (map_of ms (lit ''log_service'')) (Config.LogService c)
     \<and> refusalsAre (map_of ms (lit ''off'')) (Config.Off c) \<and> Config.Origins c = fmempty"

definition strictAccepts :: "(bytes \<times> gojson) list \<Rightarrow> bool" where
  "strictAccepts ms \<longleftrightarrow> distinct (map fst ms) \<and> (\<forall>m \<in> set ms. fst m \<in> set Keys) \<and> list_all fieldOk ms"

lemma map_of_snoc: "k \<notin> fst ` set ms \<Longrightarrow> map_of (ms @ [(k, v)]) = (map_of ms)(k \<mapsto> v)"
  using map_of_eq_None_iff [of ms k] by (auto simp: fun_eq_iff map_add_def split: option.splits)

lemma texts_listed: "\<forall>e \<in> set es. is_text (snd e) \<Longrightarrow> \<exists>ts. es = map (apsnd Vstr) ts"
proof (induction es)
  case (Cons e es)
  then obtain ts t where "es = map (apsnd Vstr) ts" "snd e = Vstr t"
    by (cases "snd e") (auto simp: is_text_def)
  then show ?case by (intro exI [of _ "(fst e, t) # ts"]) (cases e, simp)
qed simp

lemma offEntry_texts: "foldl offEntry (Some fmempty) (map (apsnd Vstr) ts) = Some (fmap_of_list (rev ts))"
  by (induction ts rule: rev_induct) (auto simp: apsnd_def map_prod_def split: prod.split)

lemma user_record_snoc:
  "k \<notin> fst ` set ms \<Longrightarrow> user_record (ms @ [(k, v)]) c \<longleftrightarrow>
     distinct (map fst ms) \<and> insert k (fst ` set ms) \<subseteq> {lit ''nas_store'', lit ''store'', lit ''log_sink'', lit ''log_service'', lit ''off''}
     \<and> textIs (((map_of ms)(k \<mapsto> v)) (lit ''nas_store'')) (Config.NASStore c)
     \<and> textIs (((map_of ms)(k \<mapsto> v)) (lit ''store'')) (Config.Store c)
     \<and> textIs (((map_of ms)(k \<mapsto> v)) (lit ''log_sink'')) (Config.LogSink c)
     \<and> textIs (((map_of ms)(k \<mapsto> v)) (lit ''log_service'')) (Config.LogService c)
     \<and> refusalsAre (((map_of ms)(k \<mapsto> v)) (lit ''off'')) (Config.Off c) \<and> Config.Origins c = fmempty"
  unfolding user_record_def map_of_snoc by (auto simp del: fun_upd_apply)

lemma record_step:
  assumes "user_record ms c" and "k \<notin> fst ` set ms" and "k \<in> set Keys" and "fieldOk (k, v)"
    and "k \<noteq> lit ''off'' \<Longrightarrow> is_text v"
  shows "\<exists>c'. setField c k v = Some c' \<and> user_record (ms @ [(k, v)]) c'"
proof -
  note u = assms(1) [unfolded user_record_def]
  have off: "\<exists>es. v = Vobj (map (apsnd Vstr) es)" if "k = lit ''off''"
    using assms(4) that texts_listed by (auto simp: fieldOk_def split: gojson.splits)
  have string: "\<exists>t. v = Vstr t" if "k \<noteq> lit ''off''"
    using assms(5) [OF that] by (cases v) (simp_all add: is_text_def)
  have absent: "map_of ms k = None" using assms(2) by (simp add: map_of_eq_None_iff)
  from assms(3) show ?thesis
  proof (cases rule: Keys_cases)
    case 1
    with string obtain t where v: "v = Vstr t" by auto
    with 1 u assms(2) show ?thesis
      by (simp add: setField_def textField_def user_record_snoc)
  next
    case 2
    with string obtain t where v: "v = Vstr t" by auto
    with 2 u assms(2) show ?thesis
      by (simp add: setField_def textField_def user_record_snoc)
  next
    case 3
    with string obtain t where v: "v = Vstr t" by auto
    with 3 u assms(2) show ?thesis
      by (simp add: setField_def textField_def user_record_snoc)
  next
    case 4
    with string obtain t where v: "v = Vstr t" by auto
    with 4 u assms(2) show ?thesis
      by (simp add: setField_def textField_def user_record_snoc)
  next
    case 5
    with off obtain es where v: "v = Vobj (map (apsnd Vstr) es)" by auto
    moreover have "Config.Off c = fmempty" using assms(1) absent 5 by (simp add: user_record_def)
    ultimately show ?thesis using 5 u assms(2)
      by (auto simp: setField_def offField_def offEntry_texts user_record_snoc)
  qed
qed

lemma record_accepted:
  "strictAccepts ms \<Longrightarrow> \<forall>m \<in> set ms. fst m \<noteq> lit ''off'' \<longrightarrow> is_text (snd m) \<Longrightarrow>
   \<exists>c. foldl (setMember True) (Some Config_zero) ms = Some c \<and> user_record ms c"
proof (induction ms rule: rev_induct)
  case Nil
  show ?case by (simp add: user_record_def Config_zero_def)
next
  case (snoc m ms)
  obtain k v where m: "m = (k, v)" by fastforce
  from snoc obtain c where c: "foldl (setMember True) (Some Config_zero) ms = Some c" "user_record ms c"
    by (auto simp: strictAccepts_def)
  have k: "k \<in> set Keys" "k \<notin> fst ` set ms" "fieldOk (k, v)" "k \<noteq> lit ''off'' \<Longrightarrow> is_text v"
    using snoc.prems m by (auto simp: strictAccepts_def)
  from record_step [OF c(2) k(2,1,3,4)] show ?case by (auto simp: m c(1) fieldOf_key [OF k(1)])
qed

lemma record_texts:
  assumes "strictAccepts ms" and "foldl (setMember True) (Some c0) ms = Some c"
  shows "\<forall>m \<in> set ms. fst m \<noteq> lit ''off'' \<longrightarrow> is_text (snd m)"
  using assms
proof (induction ms arbitrary: c0)
  case (Cons m ms)
  obtain k v where m: "m = (k, v)" by fastforce
  have k: "k \<in> set Keys" "v \<noteq> Vnull" using Cons.prems(1) m by (auto simp: strictAccepts_def fieldOk_def)
  obtain c1 where c1: "setField c0 k v = Some c1" "foldl (setMember True) (Some c1) ms = Some c"
    using Cons.prems(2) m by (cases "setField c0 k v") (auto simp: fieldOf_key [OF k(1)] setMember_None)
  have "k \<noteq> lit ''off'' \<Longrightarrow> is_text v"
    using k(1) c1(1) k(2) by (elim Keys_cases) (auto simp: setField_def textField_def is_text_def split: gojson.splits)
  with Cons.IH [OF _ c1(2)] Cons.prems(1) m show ?case by (auto simp: strictAccepts_def)
qed simp

lemma textIs_unique: "textIs v s \<Longrightarrow> textIs v t \<Longrightarrow> s = t"
  by (cases v) auto

lemma refusalsAre_unique: "refusalsAre v m \<Longrightarrow> refusalsAre v n \<Longrightarrow> m = n"
proof (cases v)
  case (Some w)
  assume "refusalsAre v m" "refusalsAre v n"
  then obtain es es' where "map (apsnd Vstr) es = map (apsnd Vstr) es'" "m = fmap_of_list (rev es)" "n = fmap_of_list (rev es')"
    using Some by auto
  moreover have "inj (apsnd Vstr :: bytes \<times> bytes \<Rightarrow> bytes \<times> gojson)" by (auto intro!: injI)
  ultimately show ?thesis by (auto simp: inj_map_eq_map)
qed simp

lemma record_unique: "user_record ms c \<Longrightarrow> user_record ms c' \<Longrightarrow> c = c'"
  unfolding user_record_def by (cases c; cases c') (auto dest: textIs_unique refusalsAre_unique)

lemma record_acceptable:
  assumes "user_record ms c"
  shows "strictAccepts ms \<and> (\<forall>m \<in> set ms. fst m \<noteq> lit ''off'' \<longrightarrow> is_text (snd m))"
proof -
  have "distinct (map fst ms)" and keys: "\<forall>m \<in> set ms. fst m \<in> set Keys"
    using assms by (auto simp: user_record_def Keys_def)
  moreover have "fieldOk m \<and> (fst m \<noteq> lit ''off'' \<longrightarrow> is_text (snd m))" if "m \<in> set ms" for m
  proof -
    obtain k v where m: "m = (k, v)" by fastforce
    then have v: "map_of ms k = Some v" using that \<open>distinct (map fst ms)\<close> by simp
    have "k \<in> set Keys" using keys that m by auto
    then show ?thesis using assms v
      by (elim Keys_cases) (auto simp: m user_record_def fieldOk_def is_text_def)
  qed
  ultimately show ?thesis by (auto simp: strictAccepts_def list_all_iff)
qed

lemma record_decoded:
  "strictAccepts ms \<and> foldl (setMember True) (Some Config_zero) ms = Some c \<longleftrightarrow> user_record ms c"
proof
  assume a: "strictAccepts ms \<and> foldl (setMember True) (Some Config_zero) ms = Some c"
  with record_texts [of ms Config_zero c] record_accepted [of ms] show "user_record ms c" by auto
next
  assume u: "user_record ms c"
  from record_acceptable [OF u] record_accepted [of ms] record_unique [OF u]
  show "strictAccepts ms \<and> foldl (setMember True) (Some Config_zero) ms = Some c" by auto
qed

subsection \<open>Properties\<close>

text \<open>C19: the strict reader accepts what the editor writes, and answers the same settings with the
  revision of those settings, whatever the strings hold.\<close>

theorem user_file_roundtrip:
  assumes "valid_Config c"
  shows "userSnapshot (Some (Config_MarshalIndent c @ [ch CHR 0x0A])) =
    Inr \<lparr>UserFileSnapshot.Values = settings c, Revision = revisionOf c\<rparr>"
  using userSnapshot_written [OF assms] by (simp add: snapshotOf_def revision_settings)

lemma user_file_roundtrip_witness:
  "userSnapshot (Some (Config_MarshalIndent sampleValues @ [ch CHR 0x0A])) =
    Inr \<lparr>UserFileSnapshot.Values = settings sampleValues, Revision = revisionOf sampleValues\<rparr>"
  by (rule user_file_roundtrip [OF sample_values(1)])

text \<open>C21: the editor's reader accepts exactly the records it can rewrite without losing anything: valid UTF-8 with
  paired surrogate escapes, a JSON object with each of the five names at most once and no other, the four
  texts strings and the refusals an object of strings; it answers what the record holds, with its
  revision. Everything else is refused: unknown, repeated or differently spelt names, \<open>null\<close>, other types and
  trailing data.\<close>

theorem strict_record:
  "userSnapshot (Some d) = Inr s \<longleftrightarrow>
     validUTF8 d \<and> strictScan d
     \<and> (\<exists>ms. goParse d = Some (Vobj ms) \<and> user_record ms (UserFileSnapshot.Values s))
     \<and> Revision s = revisionOf (UserFileSnapshot.Values s)"
proof -
  have "userSnapshot (Some d) = Inr s \<longleftrightarrow> validUTF8 d \<and> strictScan d
      \<and> (\<exists>ms. goParse d = Some (Vobj ms) \<and> strictAccepts ms
          \<and> foldl (setMember True) (Some Config_zero) ms = Some (UserFileSnapshot.Values s)) \<and> s = snapshotOf (UserFileSnapshot.Values s)"
    using goParse_object [of d] trimLeft_object [of d]
    by (auto simp: userSnapshot_def strictUserFields_eq Config_decode_def strictAccepts_def skipSpace_def snapshotOf_def
        split: if_splits option.splits gojson.splits)
  then show ?thesis using record_decoded by (cases s) (auto simp: snapshotOf_def)
qed

text \<open>Two records that differ only in a name nobody knows.\<close>

lemma unknown_member_refused:
  "userSnapshot (Some (lit ''{\"future\":1,\"store\":\"x\"}'')) = Inl badRecord"
  by code_simp

text \<open>Rewriting a record the strict reader accepted, or a missing one, in normal form changes neither
  its settings nor its revision: an editor that reads and writes back does not move the revision.\<close>

theorem normal_form_keeps_revision:
  assumes "userSnapshot data = Inr s"
  shows "userSnapshot (Some (Config_MarshalIndent (UserFileSnapshot.Values s) @ [ch CHR 0x0A])) = Inr s"
  by (rule userSnapshot_normal [OF assms])

lemma normal_form_keeps_revision_witness:
  "userSnapshot (Some (Config_MarshalIndent (UserFileSnapshot.Values (snapshotOf Config_zero)) @ [ch CHR 0x0A])) =
    Inr (snapshotOf Config_zero)"
  by (rule normal_form_keeps_revision [OF userSnapshot_none])

end
