(* ===== verification/Watch.thy ===== *)
theory Watch
  imports Prelude
begin

section \<open>Announcements of changes\<close>

text \<open>
  Models the in-process notification of \<open>go/watch.go\<close>: \<open>announce\<close>, \<open>WatchInvalidations\<close>, \<open>signal\<close> and
  \<open>Close\<close>. A subscription is the state behind its mutex and its channel \<open>changes\<close> of capacity one;
  \<open>invalidations\<close> is the key set of the map \<open>live.invalidations\<close>, whose iteration order Go leaves open.
  A send on a closed channel panics in Go also as the case of a \<open>select\<close> with a default, and so does a second
  close of a channel: \<open>trySend\<close> and \<open>Finish\<close> say when, and \<open>panicked\<close> keeps it.
  \<open>announce\<close> is the whole call, \<open>watchStep\<close> the interleaving of the goroutines, where an announcement
  copies the key set under the lock and signals afterwards, one subscription at a time; \<open>announcing\<close> maps
  each announcement in progress, by its number, to the subscriptions it has still to signal. The native
  directory notification and \<open>watch.Settle\<close> (another module) are the event \<open>Settled\<close>, which may happen
  at any moment while the goroutine of the subscription runs, as may its end.
\<close>

record InvalidationSubscription =
  queued :: nat
  shut :: bool
  closed :: bool
  running :: bool
  closing :: bool

record watchState =
  subscriptions :: "nat \<rightharpoonup> InvalidationSubscription"
  invalidations :: "nat list"
  announcing :: "nat \<rightharpoonup> nat list"
  panicked :: bool

definition watchStart :: watchState where
  "watchStart = \<lparr>subscriptions = Map.empty, invalidations = [], announcing = Map.empty, panicked = False\<rparr>"

subsection \<open>Operations\<close>

definition subscribed :: InvalidationSubscription where
  "subscribed = \<lparr>queued = 0, shut = False, closed = False, running = True, closing = False\<rparr>"

text \<open>The \<open>select\<close> of \<open>signal\<close>, and whether it panicked.\<close>

definition trySend :: "InvalidationSubscription \<Rightarrow> InvalidationSubscription \<times> bool" where
  "trySend s =
     (if shut s then (s, True)
      else if queued s < 1 then (s\<lparr>queued := queued s + 1\<rparr>, False)
      else (s, False))"

definition signal :: "InvalidationSubscription \<Rightarrow> InvalidationSubscription \<times> bool" where
  "signal s = (if closed s then (s, False) else trySend s)"

definition signalAt :: "nat \<Rightarrow> watchState \<Rightarrow> watchState" where
  "signalAt i w =
     (case subscriptions w i of None \<Rightarrow> w
      | Some s \<Rightarrow> (case signal s of (s', panics) \<Rightarrow>
          w\<lparr>subscriptions := (subscriptions w)(i \<mapsto> s'), panicked := panicked w \<or> panics\<rparr>))"

definition announce :: "watchState \<Rightarrow> watchState" where
  "announce w = fold signalAt (invalidations w) w"

definition WatchInvalidations :: "nat \<Rightarrow> watchState \<Rightarrow> watchState" where
  "WatchInvalidations i w =
     w\<lparr>subscriptions := (subscriptions w)(i \<mapsto> subscribed), invalidations := invalidations w @ [i]\<rparr>"

text \<open>The first half of \<open>Close\<close>, run once; the second half waits for the goroutine.\<close>

definition Unregister :: "nat \<Rightarrow> InvalidationSubscription \<Rightarrow> watchState \<Rightarrow> watchState" where
  "Unregister i s w =
     w\<lparr>subscriptions := (subscriptions w)(i \<mapsto> s\<lparr>closing := True\<rparr>),
       invalidations := removeAll i (invalidations w)\<rparr>"

text \<open>The deferred calls of the goroutine.\<close>

definition Finish :: "nat \<Rightarrow> InvalidationSubscription \<Rightarrow> watchState \<Rightarrow> watchState" where
  "Finish i s w =
     w\<lparr>subscriptions := (subscriptions w)(i \<mapsto> s\<lparr>closed := True, shut := True, running := False\<rparr>),
       panicked := panicked w \<or> shut s\<rparr>"

definition Take :: "nat \<Rightarrow> InvalidationSubscription \<Rightarrow> watchState \<Rightarrow> watchState" where
  "Take i s w = w\<lparr>subscriptions := (subscriptions w)(i \<mapsto> s\<lparr>queued := queued s - 1\<rparr>)\<rparr>"

datatype watchEvent =
    Watched nat | Announced nat "nat list" | Signalled nat nat | Returned nat | Settled nat
  | Unregistered nat | Finished nat | Closed nat | Received nat

inductive watchStep :: "watchState \<Rightarrow> watchEvent \<Rightarrow> watchState \<Rightarrow> bool" where
  watched: "subscriptions w i = None \<Longrightarrow> watchStep w (Watched i) (WatchInvalidations i w)"
| announced: "announcing w a = None \<Longrightarrow> distinct ids \<Longrightarrow> set ids = set (invalidations w) \<Longrightarrow>
    watchStep w (Announced a ids) (w\<lparr>announcing := (announcing w)(a \<mapsto> ids)\<rparr>)"
| signalled: "announcing w a = Some (i # ids) \<Longrightarrow>
    watchStep w (Signalled a i) ((signalAt i w)\<lparr>announcing := (announcing w)(a \<mapsto> ids)\<rparr>)"
| returned: "announcing w a = Some [] \<Longrightarrow>
    watchStep w (Returned a) (w\<lparr>announcing := (announcing w)(a := None)\<rparr>)"
| settled: "subscriptions w i = Some s \<Longrightarrow> running s \<Longrightarrow> watchStep w (Settled i) (signalAt i w)"
| unregistered: "subscriptions w i = Some s \<Longrightarrow> \<not> closing s \<Longrightarrow> watchStep w (Unregistered i) (Unregister i s w)"
| finished: "subscriptions w i = Some s \<Longrightarrow> running s \<Longrightarrow> watchStep w (Finished i) (Finish i s w)"
| closed: "subscriptions w i = Some s \<Longrightarrow> closing s \<Longrightarrow> \<not> running s \<Longrightarrow> watchStep w (Closed i) w"
| received: "subscriptions w i = Some s \<Longrightarrow> 0 < queued s \<Longrightarrow> watchStep w (Received i) (Take i s w)"

inductive_cases watchStep_cases: "watchStep w e w'"

inductive watchSteps :: "watchState \<Rightarrow> watchEvent list \<Rightarrow> watchState \<Rightarrow> bool" where
  idle: "watchSteps w [] w"
| more: "watchSteps w es u \<Longrightarrow> watchStep u e v \<Longrightarrow> watchSteps w (es @ [e]) v"

subsection \<open>Invariant\<close>

definition sound_subscription :: "InvalidationSubscription \<Rightarrow> bool" where
  "sound_subscription s \<longleftrightarrow> queued s \<le> 1 \<and> shut s = closed s \<and> running s = (\<not> closed s)"

definition sound_watch :: "watchState \<Rightarrow> bool" where
  "sound_watch w \<longleftrightarrow> \<not> panicked w \<and> distinct (invalidations w)
     \<and> (\<forall>i s. subscriptions w i = Some s \<longrightarrow> sound_subscription s \<and> (i \<in> set (invalidations w) \<longleftrightarrow> \<not> closing s))
     \<and> (\<forall>i \<in> set (invalidations w). subscriptions w i \<noteq> None)"

lemma signal_sound:
  "sound_subscription s \<Longrightarrow>
   sound_subscription (fst (signal s)) \<and> closing (fst (signal s)) = closing s \<and> \<not> snd (signal s)"
  by (auto simp: signal_def trySend_def sound_subscription_def)

lemma signalAt_fields [simp]:
  "invalidations (signalAt i w) = invalidations w" "announcing (signalAt i w) = announcing w"
  by (auto simp: signalAt_def split: option.split prod.split)

lemma signalAt_subscriptions:
  "subscriptions (signalAt i w) = (subscriptions w)(i := map_option (\<lambda>s. fst (signal s)) (subscriptions w i))"
  by (auto simp: signalAt_def split: option.split prod.split)

lemma signalAt_panicked:
  "panicked (signalAt i w) = (panicked w \<or> (\<exists>s. subscriptions w i = Some s \<and> snd (signal s)))"
  by (auto simp: signalAt_def split: option.split prod.split)

lemma signalAt_sound: "sound_watch w \<Longrightarrow> sound_watch (signalAt i w)"
  by (auto simp: sound_watch_def signalAt_subscriptions signalAt_panicked signal_sound)

lemma sound_announcing [simp]: "sound_watch (w\<lparr>announcing := a\<rparr>) = sound_watch w"
  by (simp add: sound_watch_def)

lemma watchStep_sound: "watchStep w e w' \<Longrightarrow> sound_watch w \<Longrightarrow> sound_watch w'"
proof (induction rule: watchStep.induct)
  case (watched w i)
  then show ?case by (auto simp: sound_watch_def WatchInvalidations_def subscribed_def sound_subscription_def)
next
  case (unregistered w i s)
  then show ?case by (auto simp: sound_watch_def Unregister_def sound_subscription_def distinct_removeAll)
next
  case (finished w i s)
  then show ?case by (auto simp: sound_watch_def Finish_def sound_subscription_def)
next
  case (received w i s)
  then show ?case by (auto simp: sound_watch_def Take_def sound_subscription_def)
qed (simp_all add: signalAt_sound)

lemma watchSteps_sound: "watchSteps w es w' \<Longrightarrow> sound_watch w \<Longrightarrow> sound_watch w'"
  by (induction rule: watchSteps.induct) (auto intro: watchStep_sound)

lemma watchStart_sound: "sound_watch watchStart"
  by (simp add: sound_watch_def watchStart_def)

subsection \<open>No announcement is lost\<close>

text \<open>A subscription that holds a signal or whose channel is closed: its owner does not wait.\<close>

definition told :: "nat \<Rightarrow> watchState \<Rightarrow> bool" where
  "told i w \<longleftrightarrow> (\<exists>s. subscriptions w i = Some s \<and> (0 < queued s \<or> closed s))"

lemma signal_told: "sound_subscription s \<Longrightarrow> 0 < queued (fst (signal s)) \<or> closed (fst (signal s))"
  by (auto simp: signal_def trySend_def sound_subscription_def)

lemma signal_keeps:
  "0 < queued s \<or> closed s \<Longrightarrow> 0 < queued (fst (signal s)) \<or> closed (fst (signal s))"
  by (auto simp: signal_def trySend_def)

lemma signalAt_told: "told i w \<Longrightarrow> told i (signalAt j w)"
  using signal_keeps by (auto simp: told_def signalAt_subscriptions)

lemma told_announcing [simp]: "told i (w\<lparr>announcing := a\<rparr>) = told i w"
  by (simp add: told_def)

lemma watchStep_told: "watchStep w e w' \<Longrightarrow> told i w \<Longrightarrow> e \<noteq> Received i \<Longrightarrow> told i w'"
  by (induction rule: watchStep.induct)
    (simp_all add: signalAt_told, auto simp: told_def WatchInvalidations_def Unregister_def Finish_def Take_def)

text \<open>What an announcement has still to signal, and that the signal reaches the subscription.\<close>

definition awaits :: "nat \<Rightarrow> nat \<Rightarrow> watchState \<Rightarrow> bool" where
  "awaits a i w \<longleftrightarrow> subscriptions w i \<noteq> None \<and> (\<exists>ids. announcing w a = Some ids \<and> i \<in> set ids)"

lemma watchStep_subscribed: "watchStep w e w' \<Longrightarrow> subscriptions w i \<noteq> None \<Longrightarrow> subscriptions w' i \<noteq> None"
  by (induction rule: watchStep.induct)
    (auto simp: signalAt_subscriptions WatchInvalidations_def Unregister_def Finish_def Take_def)

lemma watchStep_unsignalled:
  "watchStep w e w' \<Longrightarrow> announcing w a = Some ids \<Longrightarrow> i \<in> set ids \<Longrightarrow> e \<noteq> Signalled a i \<Longrightarrow>
   (\<exists>ids. announcing w' a = Some ids \<and> i \<in> set ids) \<and> e \<noteq> Returned a"
proof (induction rule: watchStep.induct)
  case (signalled w b j js)
  then show ?case by (cases "b = a") auto
next
  case (announced w b js)
  then show ?case by (cases "b = a") simp_all
next
  case (returned w b)
  then show ?case by (cases "b = a") simp_all
qed (simp_all add: WatchInvalidations_def Unregister_def Finish_def Take_def)

lemma watchStep_awaits:
  "watchStep w e w' \<Longrightarrow> awaits a i w \<Longrightarrow> e \<noteq> Signalled a i \<Longrightarrow> awaits a i w' \<and> e \<noteq> Returned a"
  using watchStep_subscribed [of w e w' i] watchStep_unsignalled [of w e w' a _ i] unfolding awaits_def by blast

lemma watchStep_signals:
  assumes "watchStep w (Signalled a i) w'" and "awaits a i w" and "sound_watch w"
  shows "told i w'"
proof -
  from assms(2) obtain s where s: "subscriptions w i = Some s" by (auto simp: awaits_def)
  with assms(3) have "sound_subscription s" by (simp add: sound_watch_def)
  then have "told i (signalAt i w)" using s signal_told by (simp add: told_def signalAt_subscriptions)
  then show ?thesis using assms(1) by (auto elim: watchStep_cases)
qed

text \<open>After the copy of the key set, the subscription either still waits to be signalled, or it was signalled and
  has since received the signal or holds it.\<close>

lemma awaits_signalled:
  "watchSteps u es v \<Longrightarrow> sound_watch u \<Longrightarrow> awaits a i u \<Longrightarrow>
   awaits a i v \<and> Returned a \<notin> set es
   \<or> (\<exists>es1 es2. es = es1 @ Signalled a i # es2 \<and> (Received i \<in> set es2 \<or> told i v))"
proof (induction rule: watchSteps.induct)
  case (more u es v e w)
  from more.IH [OF more.prems] consider
      (waits) "awaits a i v" "Returned a \<notin> set es"
    | (signalled) es1 es2 where "es = es1 @ Signalled a i # es2" "Received i \<in> set es2 \<or> told i v" by blast
  then show ?case
  proof cases
    case waits
    have v: "sound_watch v" by (rule watchSteps_sound [OF more.hyps(1) more.prems(1)])
    show ?thesis
    proof (cases "e = Signalled a i")
      case True
      with watchStep_signals [OF _ waits(1) v, of w] more.hyps(2) have "told i w" by simp
      with True show ?thesis by (intro disjI2 exI [of _ es] exI [of _ "[]"]) simp
    next
      case False
      with watchStep_awaits [OF more.hyps(2) waits(1)] waits(2) show ?thesis by auto
    qed
  next
    case signalled
    have "Received i \<in> set (es2 @ [e]) \<or> told i w"
      using signalled(2) watchStep_told [OF more.hyps(2)] by (cases "e = Received i") auto
    with signalled(1) show ?thesis by (intro disjI2 exI [of _ es1] exI [of _ "es2 @ [e]"]) simp
  qed
qed simp

lemma announced_awaits:
  "sound_watch w \<Longrightarrow> watchStep w (Announced a ids) w' \<Longrightarrow> i \<in> set (invalidations w) \<Longrightarrow> awaits a i w'"
  by (erule watchStep_cases) (auto simp: sound_watch_def awaits_def)

subsection \<open>The announcement as one call\<close>

lemma fold_signalAt:
  "distinct ids \<Longrightarrow> subscriptions (fold signalAt ids w) i =
     (if i \<in> set ids then map_option (\<lambda>s. fst (signal s)) (subscriptions w i) else subscriptions w i)"
  by (induction ids arbitrary: w) (auto simp: signalAt_subscriptions)

lemma fold_signalAt_fields:
  "invalidations (fold signalAt ids w) = invalidations w \<and> announcing (fold signalAt ids w) = announcing w
   \<and> (sound_watch w \<longrightarrow> sound_watch (fold signalAt ids w))"
  by (induction ids arbitrary: w) (auto simp: signalAt_sound)

lemma watchState_eqI:
  "subscriptions v = subscriptions w \<Longrightarrow> invalidations v = invalidations w \<Longrightarrow> announcing v = announcing w \<Longrightarrow>
   panicked v = panicked w \<Longrightarrow> (v :: watchState) = w"
  by simp

lemma announce_any_order:
  assumes "sound_watch w" and "distinct ids" and "set ids = set (invalidations w)"
  shows "fold signalAt ids w = announce w"
proof (rule watchState_eqI)
  have "distinct (invalidations w)" using assms(1) by (simp add: sound_watch_def)
  with assms(2,3) show "subscriptions (fold signalAt ids w) = subscriptions (announce w)"
    by (auto simp: announce_def fold_signalAt)
  have "sound_watch (fold signalAt ids w)" "sound_watch (announce w)"
    using assms(1) by (simp_all add: announce_def fold_signalAt_fields)
  then show "panicked (fold signalAt ids w) = panicked (announce w)" by (simp add: sound_watch_def)
qed (simp_all add: announce_def fold_signalAt_fields)

lemma signal_twice: "sound_subscription s \<Longrightarrow> fst (signal (fst (signal s))) = fst (signal s)"
  by (auto simp: signal_def trySend_def sound_subscription_def)

lemma announce_sound: "sound_watch w \<Longrightarrow> sound_watch (announce w)"
  by (simp add: announce_def fold_signalAt_fields)

lemma announce_twice: "sound_watch w \<Longrightarrow> announce (announce w) = announce w"
proof (rule watchState_eqI)
  assume w: "sound_watch w"
  then have "distinct (invalidations w)" by (simp add: sound_watch_def)
  moreover have "map_option (\<lambda>s. fst (signal (fst (signal s)))) (subscriptions w i)
      = map_option (\<lambda>s. fst (signal s)) (subscriptions w i)" for i
    using w by (cases "subscriptions w i") (simp_all add: sound_watch_def signal_twice)
  ultimately show "subscriptions (announce (announce w)) = subscriptions (announce w)"
    by (auto simp: announce_def fold_signalAt fold_signalAt_fields option.map_comp comp_def)
  show "panicked (announce (announce w)) = panicked (announce w)"
    using announce_sound [OF w] announce_sound [OF announce_sound [OF w]] by (simp add: sound_watch_def)
qed (simp_all add: announce_def fold_signalAt_fields)

subsection \<open>Completion\<close>

lemma watchSteps_append: "watchSteps u es v \<Longrightarrow> watchSteps w ds u \<Longrightarrow> watchSteps w (ds @ es) v"
  by (induction rule: watchSteps.induct) (auto simp flip: append_assoc intro: watchSteps.more)

lemma watchSteps_one: "watchStep w e v \<Longrightarrow> watchSteps w [e] v"
  using watchSteps.more [OF watchSteps.idle] by fastforce

text \<open>An announcement in progress finishes by its own steps; nothing has to be received for it.\<close>

lemma announcing_finishes:
  "announcing w a = Some ids \<Longrightarrow>
   \<exists>v. watchSteps w (map (Signalled a) ids @ [Returned a]) v \<and> announcing v = (announcing w)(a := None)"
proof (induction ids arbitrary: w)
  case Nil
  from watchSteps_one [OF watchStep.returned [of w a, OF Nil]] show ?case by auto
next
  case (Cons i ids)
  let ?u = "(signalAt i w)\<lparr>announcing := (announcing w)(a \<mapsto> ids)\<rparr>"
  have "watchStep w (Signalled a i) ?u" by (rule watchStep.signalled [OF Cons.prems])
  moreover obtain v where "watchSteps ?u (map (Signalled a) ids @ [Returned a]) v"
    "announcing v = (announcing ?u)(a := None)" using Cons.IH [of ?u] by fastforce
  ultimately show ?case using watchSteps_append [OF _ watchSteps_one] by fastforce
qed

subsection \<open>Properties\<close>

text \<open>C24: no interleaving of announcements, settled events, closings and receipts sends on or closes a
  closed channel (which would panic), and no subscription ever holds more than one signal.\<close>

theorem watch_never_panics:
  assumes "watchSteps watchStart es w"
  shows "\<not> panicked w \<and> (\<forall>i s. subscriptions w i = Some s \<longrightarrow> queued s \<le> 1)"
  using watchSteps_sound [OF assms watchStart_sound] by (auto simp: sound_watch_def sound_subscription_def)

lemma watch_never_panics_witness:
  "\<not> panicked (Finish 0 subscribed (WatchInvalidations 0 watchStart)) \<and>
   queued (the (subscriptions (Finish 0 subscribed (WatchInvalidations 0 watchStart)) 0)) \<le> 1"
proof -
  let ?w = "WatchInvalidations 0 watchStart"
  have "watchSteps watchStart [Watched 0] ?w"
    by (intro watchSteps_one watchStep.watched) (simp add: watchStart_def)
  then have "watchSteps watchStart ([Watched 0] @ [Finished 0]) (Finish 0 subscribed ?w)"
    by (rule watchSteps.more) (rule watchStep.finished, simp_all add: WatchInvalidations_def subscribed_def)
  from watch_never_panics [OF this] show ?thesis by (auto simp: Finish_def subscribed_def)
qed

text \<open>C20: whatever runs at the same time, other announcements included: a subscription registered when an
  announcement copies the key set has been signalled by the time that announcement returns, and from then on
  holds the signal (or its channel is closed) until its owner receives it.\<close>

theorem announcement_not_lost:
  assumes "watchSteps watchStart es w" and "watchStep w (Announced a ids) u" and "i \<in> set (invalidations w)"
    and "watchSteps u es' v" and "Returned a \<in> set es'"
  shows "\<exists>es1 es2. es' = es1 @ Signalled a i # es2
           \<and> (Received i \<in> set es2 \<or> (\<exists>s. subscriptions v i = Some s \<and> (queued s = 1 \<or> closed s)))"
proof -
  have w: "sound_watch w" by (rule watchSteps_sound [OF assms(1) watchStart_sound])
  have u: "sound_watch u" by (rule watchStep_sound [OF assms(2) w])
  have "\<exists>s. subscriptions v i = Some s \<and> (queued s = 1 \<or> closed s)" if "told i v"
    using that watchSteps_sound [OF assms(4) u] by (fastforce simp: told_def sound_watch_def sound_subscription_def)
  with awaits_signalled [OF assms(4) u announced_awaits [OF w assms(2,3)]] assms(5) show ?thesis by blast
qed

text \<open>Two announcements overlap: the second is in progress when the first returns.\<close>

lemma announcement_not_lost_witness:
  "\<exists>w u v. watchStep w (Announced 0 [0]) u \<and> watchSteps u [Announced 1 [0], Signalled 0 0, Returned 0] v \<and>
     announcing v 1 \<noteq> None \<and> (\<exists>s. subscriptions v 0 = Some s \<and> (queued s = 1 \<or> closed s))"
proof -
  let ?w = "WatchInvalidations 0 watchStart"
  let ?u = "?w\<lparr>announcing := [0 \<mapsto> [0]]\<rparr>"
  let ?b = "?u\<lparr>announcing := (announcing ?u)(1 \<mapsto> [0])\<rparr>"
  let ?m = "(signalAt 0 ?b)\<lparr>announcing := (announcing ?b)(0 \<mapsto> [])\<rparr>"
  let ?v = "?m\<lparr>announcing := (announcing ?m)(0 := None)\<rparr>"
  have w: "watchSteps watchStart [Watched 0] ?w"
    by (intro watchSteps_one watchStep.watched) (simp add: watchStart_def)
  have u: "watchStep ?w (Announced 0 [0]) ?u"
    using watchStep.announced [of ?w 0 "[0]"] by (simp add: WatchInvalidations_def watchStart_def)
  have "watchStep ?u (Announced 1 [0]) ?b"
    by (rule watchStep.announced) (simp_all add: WatchInvalidations_def watchStart_def)
  moreover have "watchStep ?b (Signalled 0 0) ?m" by (rule watchStep.signalled) simp
  moreover have "watchStep ?m (Returned 0) ?v" by (rule watchStep.returned) simp
  ultimately have v: "watchSteps ?u [Announced 1 [0], Signalled 0 0, Returned 0] ?v"
    using watchSteps.more [OF watchSteps.more [OF watchSteps_one]] by fastforce
  have "\<exists>es1 es2. [Announced 1 [0], Signalled 0 0, Returned 0] = es1 @ Signalled 0 0 # es2
      \<and> (Received 0 \<in> set es2 \<or> (\<exists>s. subscriptions ?v 0 = Some s \<and> (queued s = 1 \<or> closed s)))"
    by (rule announcement_not_lost [OF w u _ v]) (simp_all add: WatchInvalidations_def)
  then have "\<exists>s. subscriptions ?v 0 = Some s \<and> (queued s = 1 \<or> closed s)"
    by (auto simp: Cons_eq_append_conv)
  moreover have "announcing ?v 1 \<noteq> None" by simp
  ultimately show ?thesis using u v by blast
qed

text \<open>An announcement in progress can always run to its end by itself: no subscriber is waited for.\<close>

theorem announcement_waits_for_nobody:
  "announcing w a = Some ids \<Longrightarrow>
   \<exists>v. watchSteps w (map (Signalled a) ids @ [Returned a]) v \<and> announcing v = (announcing w)(a := None)"
  by (rule announcing_finishes)

end
