(* ===== verification/UserStore.thy ===== *)
theory UserStore
  imports UserFile Config Watch
begin

section \<open>The user's settings in a store\<close>

text \<open>
  Models \<open>readUserValue\<close>, \<open>readUserStore\<close>, \<open>ReadUserStore\<close>, \<open>ReplaceUserStore\<close> and
  \<open>loadWithSources\<close> of \<open>go/user_editor.go\<close>. The store (\<open>casapi.Store\<close>, another module) is a record
  of its two methods over a world \<open>'w\<close>, its values \<open>'v\<close> opaque but for their bytes; every call returns
  the world it leaves, in which other programs may have moved. \<open>errors.Is\<close> tells the two errors of
  \<open>cas\<close> apart from the rest. The loop of 32 attempts is a recursion on the attempts left.
\<close>

datatype storeError = ErrMoved | ErrTooLarge | Failed bytes

record ('w, 'v) Store =
  ReadValue :: "bytes \<Rightarrow> 'w \<Rightarrow> (storeError + 'v) \<times> 'w"
  WriteValue :: "bytes \<Rightarrow> 'v \<Rightarrow> bytes \<Rightarrow> 'w \<Rightarrow> storeError option \<times> 'w"
  DataOf :: "'v \<Rightarrow> bytes option"

subsection \<open>Operations\<close>

definition unavailable :: storeError where
  "unavailable = Failed (lit ''config: user storage unavailable'')"

definition sizeOf :: "bytes option \<Rightarrow> nat" where
  "sizeOf data = (case data of None \<Rightarrow> 0 | Some b \<Rightarrow> length b)"

definition readUserValue :: "('w, 'v) Store option \<Rightarrow> bytes \<Rightarrow> 'w \<Rightarrow> (storeError + 'v) \<times> 'w" where
  "readUserValue store path w =
     (case store of None \<Rightarrow> (Inl unavailable, w)
      | Some st \<Rightarrow>
          if blank path then (Inl unavailable, w)
          else (case ReadValue st path w of
              (Inl e, w) \<Rightarrow> (Inl e, w)
            | (Inr value, w) \<Rightarrow>
                if MaxUserFileBytes < sizeOf (DataOf st value) then (Inl ErrTooLarge, w) else (Inr value, w)))"

text \<open>The store is there when its value was read.\<close>

definition dataIn :: "('w, 'v) Store option \<Rightarrow> 'v \<Rightarrow> bytes option" where
  "dataIn store value = (case store of None \<Rightarrow> None | Some st \<Rightarrow> DataOf st value)"

definition readUserStore ::
    "('w, 'v) Store option \<Rightarrow> bytes \<Rightarrow> 'w \<Rightarrow> (storeError + 'v \<times> UserFileSnapshot) \<times> 'w" where
  "readUserStore store path w =
     (case readUserValue store path w of
        (Inl e, w) \<Rightarrow> (Inl e, w)
      | (Inr value, w) \<Rightarrow>
          (case userSnapshot (dataIn store value) of
             Inl e \<Rightarrow> (Inl (Failed e), w)
           | Inr snapshot \<Rightarrow> (Inr (value, snapshot), w)))"

definition ReadUserStore ::
    "('w, 'v) Store option \<Rightarrow> bytes \<Rightarrow> 'w \<Rightarrow> (storeError + UserFileSnapshot) \<times> 'w" where
  "ReadUserStore store path w = apfst (map_sum id snd) (readUserStore store path w)"

type_synonym 'w place = "'w \<times> watchState"

definition writeValue ::
    "('w, 'v) Store option \<Rightarrow> bytes \<Rightarrow> 'v \<Rightarrow> bytes \<Rightarrow> 'w \<Rightarrow> storeError option \<times> 'w" where
  "writeValue store path base data w =
     (case store of None \<Rightarrow> (Some unavailable, w) | Some st \<Rightarrow> WriteValue st path base data w)"

fun replaceLoop ::
    "nat \<Rightarrow> ('w, 'v) Store option \<Rightarrow> bytes \<Rightarrow> bytes \<Rightarrow> bytes \<Rightarrow> UserFileSnapshot \<Rightarrow> 'w place
      \<Rightarrow> (storeError + UserFileSnapshot \<times> bool) \<times> 'w place" where
  "replaceLoop 0 store path expected data next (w, live) = (Inl ErrMoved, (w, live))"
| "replaceLoop (Suc attempts) store path expected data next (w, live) =
     (case readUserStore store path w of
        (Inl e, w) \<Rightarrow> (Inl e, (w, live))
      | (Inr (base, current), w) \<Rightarrow>
          if Revision current \<noteq> expected then (Inr (current, False), (w, live))
          else (case writeValue store path base data w of
              (Some ErrMoved, w) \<Rightarrow> replaceLoop attempts store path expected data next (w, live)
            | (Some e, w) \<Rightarrow> (Inl e, (w, live))
            | (None, w) \<Rightarrow> (Inr (next, True), (w, announce live))))"

definition maxAttempts :: nat where
  "maxAttempts = 32"

definition userText :: "Config \<Rightarrow> bytes" where
  "userText values = Config_MarshalIndent values @ [ch CHR 0x0A]"

definition ReplaceUserStore ::
    "('w, 'v) Store option \<Rightarrow> bytes \<Rightarrow> bytes \<Rightarrow> Config \<Rightarrow> 'w place
      \<Rightarrow> (storeError + UserFileSnapshot \<times> bool) \<times> 'w place" where
  "ReplaceUserStore store path expected values s =
     (if MaxUserFileBytes < length (userText values) then (Inl ErrTooLarge, s)
      else (case userSnapshot (Some (userText values)) of
          Inl e \<Rightarrow> (Inl (Failed e), s)
        | Inr next \<Rightarrow> replaceLoop maxAttempts store path expected (userText values) next s))"

definition loadWithSources ::
    "('w, 'v) Store option \<Rightarrow> bytes \<Rightarrow> bytes \<Rightarrow> ('w \<Rightarrow> bytes \<Rightarrow> bytes option)
      \<Rightarrow> ('w \<Rightarrow> bytes \<Rightarrow> nat \<Rightarrow> bytes + bytes option) \<Rightarrow> bytes gomap \<Rightarrow> 'w \<Rightarrow> (storeError + Config) \<times> 'w" where
  "loadWithSources store path machinePath trust readLimit overrides w =
     (case readUserValue store path w of
        (Inl e, w) \<Rightarrow> (Inl e, w)
      | (Inr value, w) \<Rightarrow>
          (let machine = (if machinePath \<noteq> [] then
                            (case readMachineSource (readLimit w) (trust w) machinePath of
                               Inr loaded \<Rightarrow> loaded | Inl e \<Rightarrow> Config_zero)
                          else Config_zero);
               user = (case decodeSource (dataIn store value) path User of Inr user \<Rightarrow> user | Inl e \<Rightarrow> Config_zero);
               user = foldl (markKey path User) user Keys
           in (Inr (applyEnvironment (mget overrides) (mergeConfig machine user)), w)))"

subsection \<open>The contract of a store\<close>

text \<open>
  \<open>content\<close> is what the world holds at a path, \<open>env\<close> the moves of everybody else. A read answers the
  content of some moment of the call; a write that succeeds replaced, at some moment of the call, the
  bytes it was given as base and nothing else; a write that answers \<open>ErrMoved\<close> did not write; after
  another error both are possible.
\<close>

definition swapped ::
    "('w \<Rightarrow> bytes \<Rightarrow> bytes option) \<Rightarrow> ('w \<Rightarrow> 'w \<Rightarrow> bool) \<Rightarrow> bytes \<Rightarrow> bytes option \<Rightarrow> bytes \<Rightarrow> 'w \<Rightarrow> 'w \<Rightarrow> bool" where
  "swapped content env path old new w w' \<longleftrightarrow>
     (\<exists>u u'. env w u \<and> content u path = old \<and> content u' = (content u)(path \<mapsto> new) \<and> env u' w')"

definition compareSet ::
    "('w, 'v) Store \<Rightarrow> ('w \<Rightarrow> bytes \<Rightarrow> bytes option) \<Rightarrow> ('w \<Rightarrow> 'w \<Rightarrow> bool) \<Rightarrow> bool" where
  "compareSet st content env \<longleftrightarrow>
     (\<forall>w. env w w) \<and> (\<forall>u v w. env u v \<longrightarrow> env v w \<longrightarrow> env u w)
     \<and> (\<forall>path w e w'. ReadValue st path w = (Inl e, w') \<longrightarrow> env w w')
     \<and> (\<forall>path w value w'. ReadValue st path w = (Inr value, w') \<longrightarrow>
          (\<exists>u. env w u \<and> content u path = DataOf st value \<and> env u w'))
     \<and> (\<forall>path base data w w'. WriteValue st path base data w = (None, w') \<longrightarrow>
          swapped content env path (DataOf st base) data w w')
     \<and> (\<forall>path base data w e w'. WriteValue st path base data w = (Some e, w') \<longrightarrow>
          env w w' \<or> e \<noteq> ErrMoved \<and> swapped content env path (DataOf st base) data w w')"

lemma compareSet_env:
  assumes "compareSet st content env"
  shows "env w w" and "env u v \<Longrightarrow> env v w \<Longrightarrow> env u w"
  using assms unfolding compareSet_def by - (elim conjE, blast)+

lemma compareSet_read:
  assumes "compareSet st content env"
  shows "ReadValue st path w = (Inl e, w') \<Longrightarrow> env w w'"
    and "ReadValue st path w = (Inr value, w') \<Longrightarrow> \<exists>u. env w u \<and> content u path = DataOf st value \<and> env u w'"
  using assms unfolding compareSet_def by - (elim conjE, blast)+

lemma compareSet_write:
  assumes "compareSet st content env"
  shows "WriteValue st path base data w = (None, w') \<Longrightarrow> swapped content env path (DataOf st base) data w w'"
    and "WriteValue st path base data w = (Some e, w') \<Longrightarrow>
      env w w' \<or> e \<noteq> ErrMoved \<and> swapped content env path (DataOf st base) data w w'"
  by (erule assms [unfolded compareSet_def, THEN conjunct2, THEN conjunct2, THEN conjunct2, THEN conjunct2,
          THEN conjunct1, rule_format])
    (erule assms [unfolded compareSet_def, THEN conjunct2, THEN conjunct2, THEN conjunct2, THEN conjunct2,
          THEN conjunct2, rule_format])

lemma swapped_after:
  "compareSet st content env \<Longrightarrow> env w v \<Longrightarrow> swapped content env path old new v w' \<Longrightarrow>
   swapped content env path old new w w'"
  unfolding swapped_def using compareSet_env(2) [of st content env w v] by blast

subsection \<open>Reading\<close>

lemma compareSet_read_env:
  assumes "compareSet st content env" and "ReadValue st path w = (r, w')"
  shows "env w w'"
proof (cases r)
  case (Inl e)
  with assms(2) show ?thesis using compareSet_read(1) [OF assms(1)] by blast
next
  case (Inr x)
  with assms(2) obtain u where "env w u" "env u w'" using compareSet_read(2) [OF assms(1)] by blast
  then show ?thesis by (rule compareSet_env(2) [OF assms(1)])
qed

lemma readUserStore_error:
  assumes "compareSet st content env" and "readUserStore (Some st) path w = (Inl e, w')"
  shows "env w w'"
proof (cases "blank path")
  case True
  with assms(2) compareSet_env(1) [OF assms(1)] show ?thesis
    by (simp add: readUserStore_def readUserValue_def)
next
  case False
  obtain r v where r: "ReadValue st path w = (r, v)" by fastforce
  with assms(2) False have "w' = v"
    by (auto simp: readUserStore_def readUserValue_def split: sum.splits if_splits)
  with compareSet_read_env [OF assms(1) r] show ?thesis by simp
qed

lemma readUserStore_value:
  assumes "compareSet st content env" and "readUserStore (Some st) path w = (Inr (base, current), w')"
  shows "userSnapshot (DataOf st base) = Inr current \<and>
    (\<exists>u. env w u \<and> content u path = DataOf st base \<and> env u w')"
  using assms(2) compareSet_read(2) [OF assms(1), of path w]
  by (auto simp: readUserStore_def readUserValue_def dataIn_def split: prod.splits sum.splits if_splits)

subsection \<open>Replacing\<close>

text \<open>What a call of the loop may have done.\<close>

definition replaced ::
    "('w \<Rightarrow> bytes \<Rightarrow> bytes option) \<Rightarrow> ('w \<Rightarrow> 'w \<Rightarrow> bool) \<Rightarrow> bytes \<Rightarrow> bytes \<Rightarrow> bytes \<Rightarrow> 'w \<Rightarrow> 'w \<Rightarrow> bool" where
  "replaced content env path expected data w w' \<longleftrightarrow>
     (\<exists>old current. userSnapshot old = Inr current \<and> Revision current = expected
        \<and> swapped content env path old data w w')"

fun replace_ok ::
    "('w \<Rightarrow> bytes \<Rightarrow> bytes option) \<Rightarrow> ('w \<Rightarrow> 'w \<Rightarrow> bool) \<Rightarrow> bytes \<Rightarrow> bytes \<Rightarrow> bytes \<Rightarrow> UserFileSnapshot
      \<Rightarrow> 'w place \<Rightarrow> (storeError + UserFileSnapshot \<times> bool) \<times> 'w place \<Rightarrow> bool" where
  "replace_ok content env path expected data next (w, live) (Inr (snapshot, True), (w', live')) \<longleftrightarrow>
     snapshot = next \<and> live' = announce live \<and> replaced content env path expected data w w'"
| "replace_ok content env path expected data next (w, live) (Inr (snapshot, False), (w', live')) \<longleftrightarrow>
     live' = live \<and> Revision snapshot \<noteq> expected
     \<and> (\<exists>u. env w u \<and> userSnapshot (content u path) = Inr snapshot \<and> env u w')"
| "replace_ok content env path expected data next (w, live) (Inl e, (w', live')) \<longleftrightarrow>
     live' = live \<and> (env w w' \<or> e \<noteq> ErrMoved \<and> replaced content env path expected data w w')"

lemma replace_ok_after:
  assumes "compareSet st content env" and "env w v"
    and "replace_ok content env path expected data next (v, live) r"
  shows "replace_ok content env path expected data next (w, live) r"
proof -
  have "replaced content env path expected data w w'" if "replaced content env path expected data v w'" for w'
    using that swapped_after [OF assms(1,2)] unfolding replaced_def by blast
  moreover have "env w u" if "env v u" for u using compareSet_env(2) [OF assms(1,2) that] .
  ultimately show ?thesis
    using assms(3) by (cases "(content, env, path, expected, data, next, (v, live), r)" rule: replace_ok.cases) auto
qed

lemma replaceLoop_ok:
  assumes "compareSet st content env"
  shows "replace_ok content env path expected data next (w, live)
    (replaceLoop attempts (Some st) path expected data next (w, live))"
proof (induction attempts arbitrary: w)
  case 0
  show ?case using compareSet_env(1) [OF assms] by simp
next
  case (Suc attempts)
  obtain r v where r: "readUserStore (Some st) path w = (r, v)" by fastforce
  show ?case
  proof (cases r)
    case (Inl e)
    with r readUserStore_error [OF assms] show ?thesis by auto
  next
    case (Inr p)
    then obtain base current where p: "r = Inr (base, current)" by (cases p) auto
    from readUserStore_value [OF assms] r p obtain u
      where u: "env w u" "content u path = DataOf st base" "env u v"
        and current: "userSnapshot (DataOf st base) = Inr current" by blast
    have v: "env w v" using compareSet_env(2) [OF assms u(1,3)] .
    obtain x w' where x: "WriteValue st path base data v = (x, w')" by fastforce
    have put: "replaced content env path expected data w w'"
      if "swapped content env path (DataOf st base) data v w'" "Revision current = expected"
      using swapped_after [OF assms v that(1)] current that(2) unfolding replaced_def by blast
    show ?thesis
    proof (cases "Revision current = expected")
      case False
      with r p u current show ?thesis by auto
    next
      case True
      have moved: ?thesis if "x = Some ErrMoved"
        using r p True x that replace_ok_after [OF assms compareSet_env(2) [OF assms v] Suc] compareSet_write(2) [OF assms, of path base data v ErrMoved w']
        by (simp add: writeValue_def)
      have failed: ?thesis if "x = Some e" "e \<noteq> ErrMoved" for e
        using r p True x that compareSet_write(2) [OF assms, of path base data v e w'] compareSet_env(2) [OF assms v] put
        by (cases e) (auto simp: writeValue_def)
      have written: ?thesis if "x = None"
        using r p True x that compareSet_write(1) [OF assms, of path base data v w'] put
        by (simp add: writeValue_def)
      show ?thesis using moved failed written by (cases x) blast+
    qed
  qed
qed

lemma ReplaceUserStore_ok:
  assumes "compareSet st content env"
    and "ReplaceUserStore (Some st) path expected values (w, live) = (Inr (snapshot, applied), (w', live'))"
  shows "\<exists>new. userSnapshot (Some (userText values)) = Inr new \<and>
    replace_ok content env path expected (userText values) new (w, live) (Inr (snapshot, applied), (w', live'))"
proof -
  obtain new where "userSnapshot (Some (userText values)) = Inr new"
    "replaceLoop maxAttempts (Some st) path expected (userText values) new (w, live) = (Inr (snapshot, applied), (w', live'))"
    using assms(2) by (auto simp: ReplaceUserStore_def split: if_splits sum.splits)
  with replaceLoop_ok [OF assms(1), of path expected "userText values" new w live maxAttempts] show ?thesis by auto
qed

subsection \<open>A quiet store\<close>

text \<open>A store nobody else moves: reads answer the content, and a write on the right base succeeds.\<close>

definition quiet :: "('w, 'v) Store \<Rightarrow> ('w \<Rightarrow> bytes \<Rightarrow> bytes option) \<Rightarrow> bytes \<Rightarrow> bool" where
  "quiet st content path \<longleftrightarrow>
     (\<forall>w. \<exists>v. ReadValue st path w = (Inr v, w) \<and> DataOf st v = content w path)
     \<and> (\<forall>w base data. DataOf st base = content w path \<longrightarrow>
          (\<exists>w'. WriteValue st path base data w = (None, w') \<and> content w' path = Some data))"

lemma quiet_read:
  assumes "quiet st content path" and "\<not> blank path" and "sizeOf (content w path) \<le> MaxUserFileBytes"
    and "userSnapshot (content w path) = Inr current"
  obtains v where "readUserStore (Some st) path w = (Inr (v, current), w)" and "DataOf st v = content w path"
proof -
  obtain v where v: "ReadValue st path w = (Inr v, w)" "DataOf st v = content w path"
    using assms(1) unfolding quiet_def by blast
  with assms(2-4) have "readUserStore (Some st) path w = (Inr (v, current), w)"
    by (simp add: readUserStore_def readUserValue_def dataIn_def)
  with v(2) show thesis by (rule that [rotated])
qed

lemma quiet_replace:
  assumes quiet: "quiet st content path" and path: "\<not> blank path"
    and size: "sizeOf (content w path) \<le> MaxUserFileBytes" and current: "userSnapshot (content w path) = Inr current"
    and new: "length (userText values) \<le> MaxUserFileBytes" and valid: "valid_Config values"
  obtains w' where "ReplaceUserStore (Some st) path (Revision current) values (w, live) =
      (Inr (snapshotOf (settings values), True), (w', announce live))"
    and "ReadUserStore (Some st) path w' = (Inr (snapshotOf (settings values)), w')"
proof -
  obtain v where v: "readUserStore (Some st) path w = (Inr (v, current), w)" "DataOf st v = content w path"
    using quiet_read [OF quiet path size current] .
  obtain w' where w': "WriteValue st path v (userText values) w = (None, w')" "content w' path = Some (userText values)"
    using quiet v(2) unfolding quiet_def by blast
  have written: "userSnapshot (Some (userText values)) = Inr (snapshotOf (settings values))"
    unfolding userText_def by (rule userSnapshot_written [OF valid])
  have "ReplaceUserStore (Some st) path (Revision current) values (w, live) =
      (Inr (snapshotOf (settings values), True), (w', announce live))"
    using new written v(1) w'(1)
    by (simp add: ReplaceUserStore_def maxAttempts_def numeral_eq_Suc writeValue_def)
  moreover have "ReadUserStore (Some st) path w' = (Inr (snapshotOf (settings values)), w')"
    using quiet_read [OF quiet path, of w' "snapshotOf (settings values)"] w'(2) new written
    by (metis ReadUserStore_def apfst_conv id_apply map_sum.simps(2) option.simps(5) sizeOf_def snd_conv)
  ultimately show thesis by (rule that)
qed

subsection \<open>The attempts\<close>

text \<open>A count of the writes a store was asked for.\<close>

definition counts :: "('w, 'v) Store \<Rightarrow> ('w \<Rightarrow> nat) \<Rightarrow> bool" where
  "counts st writes \<longleftrightarrow>
     (\<forall>path w. writes (snd (ReadValue st path w)) = writes w)
     \<and> (\<forall>path base data w. writes (snd (WriteValue st path base data w)) = Suc (writes w))"

lemma counts_read: "counts st writes \<Longrightarrow> readUserStore (Some st) path w = (r, v) \<Longrightarrow> writes v = writes w"
proof -
  assume c: "counts st writes" and r: "readUserStore (Some st) path w = (r, v)"
  obtain x u where x: "ReadValue st path w = (x, u)" by fastforce
  have "writes u = writes w" using c x unfolding counts_def by (metis snd_conv)
  with r x show ?thesis
    by (auto simp: readUserStore_def readUserValue_def split: sum.splits if_splits)
qed

lemma counts_loop:
  assumes "counts st writes"
  shows "replaceLoop n (Some st) path expected data next (w, live) = (r, (w', live')) \<Longrightarrow> writes w' \<le> writes w + n"
proof (induction n arbitrary: w)
  case (Suc n)
  obtain x v where x: "readUserStore (Some st) path w = (x, v)" by fastforce
  have v: "writes v = writes w" by (rule counts_read [OF assms x])
  show ?case
  proof (cases x)
    case (Inr p)
    obtain base current where p: "p = (base, current)" by (cases p)
    obtain y u where y: "WriteValue st path base data v = (y, u)" by fastforce
    have u: "writes u = Suc (writes w)" using assms y v unfolding counts_def by (metis snd_conv)
    from Suc x Inr p y u v show ?thesis
      by (fastforce simp: writeValue_def split: if_splits option.splits storeError.splits)
  qed (use Suc.prems x v in auto)
qed simp

subsection \<open>The layers over a store\<close>

lemma markKey_idle:
  "view (foldl (markKey path rung) c Keys) =
   (\<lambda>key. map_option (\<lambda>a. (fst a, \<lparr>ConfigOrigin.Rung = rung, Path = path\<rparr>)) (view c key))"
  using marked [of Keys _ path rung c] by (auto simp: fun_eq_iff view_value set_value)

lemma decodeSource_remark:
  assumes "decodeSource b path rung = Inr c"
  shows "view (foldl (markKey path rung) c Keys) = view c"
proof
  fix key
  show "view (foldl (markKey path rung) c Keys) key = view c key"
  proof (cases "view c key")
    case (Some a)
    with decodeSource_view [OF assms, of key "fst a" "snd a"] show ?thesis by (cases a) (simp add: markKey_idle)
  qed (simp add: markKey_idle)
qed

text \<open>What the user's store and the machine's file contribute. The machine's file is read in the world the
  user's store left.\<close>

definition contribution :: "bytes + Config \<Rightarrow> bytes \<rightharpoonup> setting \<times> ConfigOrigin" where
  "contribution r = (case r of Inr c \<Rightarrow> view c | Inl e \<Rightarrow> Map.empty)"

lemma view_loadWithSources:
  assumes "readUserValue store path w = (Inr v, w')"
  shows "\<exists>c. loadWithSources store path machinePath trust readLimit overrides w = (Inr c, w') \<and>
    view c = (if machinePath = [] then Map.empty else contribution (readMachineSource (readLimit w') (trust w') machinePath))
      ++ contribution (decodeSource (dataIn store v) path User) ++ environment_view (mget overrides)"
proof -
  have "view (foldl (markKey path User) Config_zero Keys) = Map.empty" by (simp add: markKey_idle)
  then show ?thesis
    using assms by (auto simp: loadWithSources_def Let_def view_applyEnvironment view_mergeConfig contribution_def
        decodeSource_remark split: sum.splits)
qed

subsection \<open>A store in memory\<close>

text \<open>The smallest store with the contract, for the concrete cases.\<close>

definition memoryStore :: "(bytes \<rightharpoonup> bytes, bytes option) Store" where
  "memoryStore = \<lparr>ReadValue = (\<lambda>path w. (Inr (w path), w)),
     WriteValue = (\<lambda>path base data w. if w path = base then (None, w(path \<mapsto> data)) else (Some ErrMoved, w)),
     DataOf = (\<lambda>v. v)\<rparr>"

lemma memoryStore_compareSet: "compareSet memoryStore (\<lambda>w. w) (=)"
  by (simp add: compareSet_def memoryStore_def swapped_def)

lemma memoryStore_quiet: "quiet memoryStore (\<lambda>w. w) path"
  by (simp add: quiet_def memoryStore_def)

definition sampleHome :: bytes where
  "sampleHome = lit ''user.json''"

lemma sample_home: "length (userText sampleValues) \<le> MaxUserFileBytes" "\<not> blank sampleHome"
proof -
  have "length (userText sampleValues) \<le> 64" by code_simp
  then show "length (userText sampleValues) \<le> MaxUserFileBytes" by (simp add: MaxUserFileBytes_def)
  show "\<not> blank sampleHome" by code_simp
qed

lemma sample_replace:
  "\<exists>w. ReplaceUserStore (Some memoryStore) sampleHome (revisionOf Config_zero) sampleValues (Map.empty, watchStart) =
    (Inr (snapshotOf sampleValues, True), (w, announce watchStart))"
  using quiet_replace [OF memoryStore_quiet sample_home(2) _ _ sample_home(1) sample_values(1),
      of Map.empty "snapshotOf Config_zero" watchStart]
  by (simp add: sizeOf_def userSnapshot_none sample_values(2)) (metis UserFileSnapshot.simps(2) snapshotOf_def)

lemma sample_refused:
  "ReplaceUserStore (Some memoryStore) sampleHome [] sampleValues (Map.empty, watchStart) =
    (Inr (snapshotOf Config_zero, False), (Map.empty, watchStart))"
proof -
  have "userSnapshot (Some (userText sampleValues)) = Inr (snapshotOf sampleValues)"
    using userSnapshot_written [OF sample_values(1)] by (simp add: sample_values(2) userText_def)
  with sample_home show ?thesis
    by (simp add: ReplaceUserStore_def maxAttempts_def numeral_eq_Suc readUserStore_def readUserValue_def dataIn_def
        sizeOf_def memoryStore_def userSnapshot_none snapshotOf_def revisionOf_def)
qed

subsection \<open>Properties\<close>

text \<open>C4: over any store with the compare-and-set contract, whatever other programs do meanwhile, a
  replacement that is reported as made replaced, in one step at one moment of the call, a record of
  the expected revision by the new one, answers the snapshot of the new record, and announces once.\<close>

theorem replace_compares_and_sets:
  assumes "compareSet st content env"
    and "ReplaceUserStore (Some st) path expected values (w, live) = (Inr (snapshot, True), (w', live'))"
  shows "live' = announce live \<and> userSnapshot (Some (userText values)) = Inr snapshot
    \<and> (\<exists>u u' current. env w u \<and> userSnapshot (content u path) = Inr current \<and> Revision current = expected
         \<and> content u' = (content u)(path \<mapsto> userText values) \<and> env u' w')"
  using ReplaceUserStore_ok [OF assms] by (auto simp: replaced_def swapped_def)

lemma replace_compares_and_sets_witness:
  "\<exists>u u' current w'. u = Map.empty \<and> userSnapshot (u sampleHome) = Inr current
     \<and> Revision current = revisionOf Config_zero \<and> u' = u(sampleHome \<mapsto> userText sampleValues) \<and> u' = w'"
proof -
  obtain w where w: "ReplaceUserStore (Some memoryStore) sampleHome (revisionOf Config_zero) sampleValues
      (Map.empty, watchStart) = (Inr (snapshotOf sampleValues, True), (w, announce watchStart))"
    using sample_replace by blast
  from replace_compares_and_sets [OF memoryStore_compareSet w] show ?thesis by auto
qed

text \<open>A replacement that is refused wrote nothing and announced nothing, and answers a snapshot the
  store held at some moment of the call, of a revision other than the expected one.\<close>

theorem replace_refused_writes_nothing:
  assumes "compareSet st content env"
    and "ReplaceUserStore (Some st) path expected values (w, live) = (Inr (snapshot, False), (w', live'))"
  shows "live' = live \<and> Revision snapshot \<noteq> expected
    \<and> (\<exists>u. env w u \<and> userSnapshot (content u path) = Inr snapshot \<and> env u w')"
  using ReplaceUserStore_ok [OF assms] by auto

lemma replace_refused_writes_nothing_witness:
  "watchStart = watchStart \<and> Revision (snapshotOf Config_zero) \<noteq> []
    \<and> (\<exists>u. (Map.empty :: bytes \<rightharpoonup> bytes) = u \<and> userSnapshot (u sampleHome) = Inr (snapshotOf Config_zero) \<and> u = Map.empty)"
  by (rule replace_refused_writes_nothing [OF memoryStore_compareSet sample_refused])

text \<open>On a store nobody else moves, a replacement with the current revision is made at the first
  attempt, and the next read answers exactly what was written, with the revision the call answered.\<close>

theorem replace_then_read:
  assumes "quiet st content path" and "\<not> blank path"
    and "sizeOf (content w path) \<le> MaxUserFileBytes" and "userSnapshot (content w path) = Inr current"
    and "length (userText values) \<le> MaxUserFileBytes" and "valid_Config values"
  shows "\<exists>w'. ReplaceUserStore (Some st) path (Revision current) values (w, live) =
        (Inr (snapshotOf (settings values), True), (w', announce live))
      \<and> ReadUserStore (Some st) path w' = (Inr (snapshotOf (settings values)), w')"
  using quiet_replace [OF assms] by metis

lemma replace_then_read_witness:
  "\<exists>w'. ReplaceUserStore (Some memoryStore) sampleHome (Revision (snapshotOf Config_zero)) sampleValues
        (Map.empty, watchStart) = (Inr (snapshotOf (settings sampleValues), True), (w', announce watchStart))
      \<and> ReadUserStore (Some memoryStore) sampleHome w' = (Inr (snapshotOf (settings sampleValues)), w')"
  by (rule replace_then_read [OF memoryStore_quiet]) (simp_all add: sample_values sample_home sizeOf_def userSnapshot_none)

text \<open>C25: a replacement asks the store for at most 32 writes, whatever the store answers.\<close>

theorem replace_attempts_bounded:
  assumes "counts st writes"
  shows "writes (fst (snd (ReplaceUserStore (Some st) path expected values (w, live)))) \<le> writes w + 32"
proof -
  have "writes w' \<le> writes w + 32"
    if "ReplaceUserStore (Some st) path expected values (w, live) = (r, (w', live'))" for r w' live'
    using that counts_loop [OF assms, of maxAttempts path expected "userText values" _ w live r w' live']
    by (auto simp: ReplaceUserStore_def maxAttempts_def split: if_splits sum.splits)
  then show ?thesis by (metis prod.collapse)
qed

text \<open>A store that always answers that its value moved, on a world that counts the writes.\<close>

definition movingStore :: "(nat, unit) Store" where
  "movingStore = \<lparr>ReadValue = (\<lambda>path w. (Inr (), w)), WriteValue = (\<lambda>path base data w. (Some ErrMoved, Suc w)),
     DataOf = (\<lambda>v. None)\<rparr>"

lemma replace_attempts_bounded_witness:
  "fst (snd (ReplaceUserStore (Some movingStore) sampleHome (revisionOf Config_zero) sampleValues (0, watchStart))) \<le> 0 + 32"
  by (rule replace_attempts_bounded [where writes = "\<lambda>w. w"]) (simp add: counts_def movingStore_def)

text \<open>The configuration the service answers is the machine's file (none with an empty machine path),
  overridden key by key by the user's store, overridden by the caller's run values, each key with
  the origin of its layer; and it is an error exactly when the user's store cannot be read.\<close>

theorem service_layers:
  "case readUserValue store path w of
     (Inl e, w') \<Rightarrow> loadWithSources store path machinePath trust readLimit overrides w = (Inl e, w')
   | (Inr v, w') \<Rightarrow>
       (\<exists>c. loadWithSources store path machinePath trust readLimit overrides w = (Inr c, w')
          \<and> view c = (if machinePath = [] then Map.empty else contribution (readMachineSource (readLimit w') (trust w') machinePath))
              ++ contribution (decodeSource (dataIn store v) path User) ++ environment_view (mget overrides))"
proof (cases "readUserValue store path w")
  case (Pair r w')
  then show ?thesis
    by (cases r) (simp_all add: view_loadWithSources, simp add: loadWithSources_def)
qed

end
