(* ===== verification/Paths.thy ===== *)
theory Paths
  imports UserStore
begin

section \<open>Paths and ownership\<close>

text \<open>
  Models \<open>go/datadir.go\<close>, \<open>go/trust_unix.go\<close> and the two path functions of \<open>go/config.go\<close>, with the lexical
  functions of \<open>path/filepath\<close> they use, for the separator \<open>/\<close>. What the operating system answers
  (environment, home folder, \<open>stat\<close>, directory listings) is an argument.
\<close>

subsection \<open>Lexical paths\<close>

abbreviation slash :: byte where "slash \<equiv> ch CHR ''/''"

text \<open>The elements of a path, the empty ones between two separators included, and back.\<close>

fun elementsOf :: "bytes \<Rightarrow> bytes list" where
  "elementsOf [] = [[]]"
| "elementsOf (c # s) =
     (if c = slash then [] # elementsOf s
      else (case elementsOf s of [] \<Rightarrow> [[c]] | e # es \<Rightarrow> (c # e) # es))"

fun slashed :: "bytes list \<Rightarrow> bytes" where
  "slashed [] = []"
| "slashed [e] = e"
| "slashed (e # es) = e @ slash # slashed es"

definition IsAbs :: "bytes \<Rightarrow> bool" where
  "IsAbs path \<longleftrightarrow> path \<noteq> [] \<and> hd path = slash"

definition cleanStep :: "bool \<Rightarrow> bytes list \<Rightarrow> bytes \<Rightarrow> bytes list" where
  "cleanStep rooted out e =
     (if e = [] \<or> e = lit ''.'' then out
      else if e = lit ''..'' then
        (if out \<noteq> [] \<and> last out \<noteq> lit ''..'' then butlast out else if rooted then out else out @ [e])
      else out @ [e])"

definition cleaned :: "bytes \<Rightarrow> bytes list" where
  "cleaned path = foldl (cleanStep (IsAbs path)) [] (elementsOf path)"

definition Clean :: "bytes \<Rightarrow> bytes" where
  "Clean path =
     (if IsAbs path then slash # slashed (cleaned path)
      else if cleaned path = [] then lit ''.'' else slashed (cleaned path))"

definition Join :: "bytes list \<Rightarrow> bytes" where
  "Join es = (case dropWhile (\<lambda>e. e = []) es of [] \<Rightarrow> [] | es \<Rightarrow> Clean (slashed es))"

definition Dir :: "bytes \<Rightarrow> bytes" where
  "Dir path = Clean (rev (dropWhile (\<lambda>c. c \<noteq> slash) (rev path)))"

subsection \<open>Where configurations belong\<close>

definition Name :: bytes where
  "Name = lit ''abstraction''"

text \<open>\<open>join\<close> is \<open>filepath.Join\<close> of the platform, \<open>configDir\<close> what \<open>os.UserConfigDir\<close> answers.\<close>

definition UserPath :: "(bytes list \<Rightarrow> bytes) \<Rightarrow> bytes option \<Rightarrow> bytes" where
  "UserPath join configDir =
     (case configDir of Some dir \<Rightarrow> join [dir, Name, lit ''config.json''] | None \<Rightarrow> [])"

definition MachinePath :: "(bytes list \<Rightarrow> bytes) \<Rightarrow> bytes \<Rightarrow> (bytes \<Rightarrow> bytes) \<Rightarrow> bytes" where
  "MachinePath join goos getenv =
     (if goos = lit ''windows'' then
        (let pd = getenv (lit ''ProgramData'') in
         if pd \<noteq> [] then join [pd, Name, lit ''config.json''] else [])
      else join [lit ''/etc'', Name, lit ''config.json''])"

subsection \<open>The user's file as a store\<close>

text \<open>\<open>fileStore\<close> is \<open>casapi.BoundedFileStore\<close> with \<open>MaxBytes\<close> set.\<close>

definition ReadUserFile :: "(nat \<Rightarrow> ('w, 'v) Store) \<Rightarrow> bytes \<Rightarrow> 'w \<Rightarrow> (storeError + UserFileSnapshot) \<times> 'w" where
  "ReadUserFile fileStore path = ReadUserStore (Some (fileStore MaxUserFileBytes)) path"

definition ReplaceUserFile ::
    "(nat \<Rightarrow> ('w, 'v) Store) \<Rightarrow> bytes \<Rightarrow> bytes \<Rightarrow> Config \<Rightarrow> 'w \<times> watchState
      \<Rightarrow> (storeError + UserFileSnapshot \<times> bool) \<times> 'w \<times> watchState" where
  "ReplaceUserFile fileStore path expected values = ReplaceUserStore (Some (fileStore MaxUserFileBytes)) path expected values"

definition LoadWithUserStore ::
    "('w, 'v) Store option \<Rightarrow> bytes \<Rightarrow> (bytes list \<Rightarrow> bytes) \<Rightarrow> bytes \<Rightarrow> (bytes \<Rightarrow> bytes) \<Rightarrow> ('w \<Rightarrow> bytes \<Rightarrow> bytes option)
      \<Rightarrow> ('w \<Rightarrow> bytes \<Rightarrow> nat \<Rightarrow> bytes + bytes option) \<Rightarrow> bytes gomap \<Rightarrow> 'w \<Rightarrow> (storeError + Config) \<times> 'w" where
  "LoadWithUserStore store path join goos getenv trust readLimit overrides =
     loadWithSources store path (MachinePath join goos getenv) trust readLimit overrides"

subsection \<open>The data directory\<close>

definition homeBase :: "bytes + bytes \<Rightarrow> bytes list \<Rightarrow> bytes + bytes" where
  "homeBase home below =
     (case home of Inl e \<Rightarrow> Inl e
      | Inr h \<Rightarrow> if \<not> IsAbs h then Inl (lit ''config: absolute home required'') else Inr (Join (h # below)))"

definition DataDirFor :: "bytes \<Rightarrow> (bytes \<Rightarrow> bytes) \<Rightarrow> bytes + bytes \<Rightarrow> bytes + bytes" where
  "DataDirFor platform getenv home =
     (case (if platform = lit ''windows'' then Inr (getenv (lit ''LOCALAPPDATA''))
            else if platform = lit ''linux'' then
              (let base = getenv (lit ''XDG_DATA_HOME'') in
               if base = [] then homeBase home [lit ''.local'', lit ''share''] else Inr base)
            else if platform = lit ''darwin'' then homeBase home [lit ''Library'', lit ''Application Support'']
            else Inl (lit ''config: unsupported data platform'')) of
        Inl e \<Rightarrow> Inl e
      | Inr base \<Rightarrow>
          if \<not> IsAbs base then Inl (lit ''config: absolute user data directory required'')
          else Inr (Join [base, lit ''openabstractions'']))"

definition LegacyJobStore :: "bytes + bytes \<Rightarrow> bytes + bytes" where
  "LegacyJobStore dataDir =
     (case dataDir of Inl e \<Rightarrow> Inl e | Inr dir \<Rightarrow> Inr (Join [dir, lit ''job-store'']))"

text \<open>\<open>readDir\<close> is \<open>os.ReadDir\<close>: the entries, or an error.\<close>

definition hasJobs :: "(bytes \<Rightarrow> bytes list option) \<Rightarrow> bytes \<Rightarrow> bool" where
  "hasJobs readDir store = (case readDir (Join [store, lit ''jobs'']) of None \<Rightarrow> False | Some entries \<Rightarrow> entries \<noteq> [])"

definition LegacyHomeStoreNotice :: "(bytes \<Rightarrow> bytes list option) \<Rightarrow> bytes \<Rightarrow> bytes \<Rightarrow> bytes" where
  "LegacyHomeStoreNotice readDir store home =
     (if hasJobs readDir store \<or> home = [] then []
      else (case find (\<lambda>legacy. hasJobs readDir legacy)
              (map (\<lambda>name. Join [home, name]) [lit ''.abstraction'', lit ''.modelget'']) of
          Some legacy \<Rightarrow> lit ''jobs from an earlier release are in '' @ legacy @ lit ''; set ABSTRACTION_STORE='' @ legacy
            @ lit '' to keep using them''
        | None \<Rightarrow> []))"

subsection \<open>Who owns a file\<close>

text \<open>The owner, when \<open>stat\<close> tells it, and the permission bits.\<close>

record FileInfo =
  Uid :: "u32 option"
  Perm :: u32

text \<open>How \<open>%v\<close> prints permission bits, and what \<open>trusted\<close> holds against a path.\<close>

definition permText :: "u32 \<Rightarrow> bytes" where
  "permText p = ch CHR ''-'' # map (\<lambda>(i, c). if bit p (8 - i) then c else ch CHR ''-'') (enumerate 0 (lit ''rwxrwxrwx''))"

definition notOwned :: "bytes \<Rightarrow> bytes + FileInfo \<Rightarrow> bytes option" where
  "notOwned p info =
     (case info of Inl e \<Rightarrow> Some e
      | Inr st \<Rightarrow> (case Uid st of None \<Rightarrow> Some (p @ lit '': cannot tell who owns it'')
          | Some uid \<Rightarrow>
              if uid \<noteq> 0 then Some (num (p @ lit '' is owned by uid '') (ucast uid) @ lit '', not root, so no administrator wrote it'')
              else if Perm st AND 0x12 \<noteq> 0 then
                Some (p @ lit '' is writable by others ('' @ permText (Perm st) @ lit ''), so anyone could have written it'')
              else None))"

definition trusted :: "(bytes \<Rightarrow> bytes + FileInfo) \<Rightarrow> bytes \<Rightarrow> bytes option" where
  "trusted stat path =
     (case notOwned path (stat path) of Some e \<Rightarrow> Some e | None \<Rightarrow> notOwned (Dir path) (stat (Dir path)))"

lemma notOwned_None:
  "notOwned p info = None \<longleftrightarrow> (\<exists>st. info = Inr st \<and> Uid st = Some 0 \<and> Perm st AND 0x12 = 0)"
  by (auto simp: notOwned_def split: sum.splits option.splits if_splits)

subsection \<open>Absolute paths\<close>

lemma elementsOf_nonempty [simp]: "elementsOf s \<noteq> []"
  by (induction s) (auto split: list.split)

lemma elementsOf_append: "elementsOf (a @ slash # b) = elementsOf a @ elementsOf b"
  by (induction a) (auto split: list.split)

lemma elementsOf_plain: "slash \<notin> set e \<Longrightarrow> elementsOf e = [e]"
  by (induction e) auto

lemma IsAbs_append: "IsAbs a \<Longrightarrow> IsAbs (a @ b)"
  by (auto simp: IsAbs_def)

lemma cleaned_append:
  assumes "IsAbs base" and "slash \<notin> set e" and "e \<noteq> []" and "e \<noteq> lit ''.''" and "e \<noteq> lit ''..''"
  shows "cleaned (base @ slash # e) = cleaned base @ [e]"
  using assms IsAbs_append [OF assms(1), of "slash # e"]
  by (simp add: cleaned_def elementsOf_append [simplified] elementsOf_plain [simplified] cleanStep_def)

lemma Join_below:
  assumes "IsAbs base" and "slash \<notin> set e" and "e \<noteq> []" and "e \<noteq> lit ''.''" and "e \<noteq> lit ''..''"
  shows "Join [base, e] = slash # slashed (cleaned base @ [e])"
proof -
  have "base \<noteq> []" using assms(1) by (auto simp: IsAbs_def)
  then have "Join [base, e] = Clean (base @ slash # e)" by (simp add: Join_def)
  with cleaned_append [OF assms] IsAbs_append [OF assms(1), of "slash # e"] show ?thesis by (simp add: Clean_def)
qed

lemma plain_element: "slash \<notin> set (lit ''openabstractions'')"
  by code_simp

subsection \<open>Properties\<close>

definition sampleMachinePath :: bytes where
  "sampleMachinePath = lit ''/etc/abstraction/config.json''"

text \<open>The data directory, when there is one, is the clean absolute path of a directory named
  \<open>openabstractions\<close> directly below an absolute base.\<close>

theorem data_dir_below_base:
  assumes "DataDirFor platform getenv home = Inr d"
  shows "\<exists>base. IsAbs base \<and> d = slash # slashed (cleaned base @ [lit ''openabstractions''])"
  using assms Join_below [OF _ plain_element]
  by (auto simp: DataDirFor_def Let_def split: sum.splits if_splits)

lemma data_dir_below_base_witness:
  "\<exists>base. IsAbs base \<and> lit ''/home/u/.local/share/openabstractions'' = slash # slashed (cleaned base @ [lit ''openabstractions''])"
proof (rule data_dir_below_base)
  show "DataDirFor (lit ''linux'') (\<lambda>v. []) (Inr (lit ''/home/u'')) = Inr (lit ''/home/u/.local/share/openabstractions'')"
    by code_simp
qed

text \<open>The comment on \<open>DataDirFor\<close> says that it never resolves to the home folder itself. It does for a home
  folder of the name \<open>openabstractions\<close> whose parent \<open>XDG_DATA_HOME\<close> names.\<close>

lemma data_dir_may_be_home:
  "DataDirFor (lit ''linux'') (\<lambda>v. if v = lit ''XDG_DATA_HOME'' then lit ''/home'' else [])
     (Inr (lit ''/home/openabstractions'')) = Inr (lit ''/home/openabstractions'')"
  by code_simp

text \<open>C30: a configuration is only ever read from the machine rung when root owns both the file and its
  directory and nobody else can write either, whichever of the two readers asks.\<close>

theorem machine_file_owned_by_root:
  assumes "readMachineSource readLimit (trusted stat) path = Inr c \<or> readSource casRead (trusted stat) path Machine = Inr c"
    and "p = path \<or> p = Dir path"
  shows "\<exists>st. stat p = Inr st \<and> Uid st = Some 0 \<and> Perm st AND 0x12 = 0"
proof -
  have "trusted stat path = None"
    using assms(1) by (auto simp: readMachineSource_eq readSource_eq split: option.splits sum.splits)
  with assms(2) have "notOwned p (stat p) = None" by (auto simp: trusted_def split: option.splits)
  then show ?thesis by (simp only: notOwned_None)
qed

lemma machine_file_owned_by_root_witness:
  "\<exists>st. Inr \<lparr>Uid = Some 0, Perm = 0x1A4\<rparr> = (Inr st :: bytes + FileInfo) \<and> Uid st = Some 0 \<and> Perm st AND 0x12 = 0"
proof (rule machine_file_owned_by_root [where p = sampleMachinePath])
  let ?stat = "\<lambda>p. Inr \<lparr>Uid = Some 0, Perm = 0x1A4\<rparr> :: bytes + FileInfo"
  have "trusted ?stat sampleMachinePath = None" by (simp add: trusted_def notOwned_def)
  then show "readMachineSource (\<lambda>path n. Inr (Some (Config_Marshal sampleValues))) (trusted ?stat) sampleMachinePath
        = Inr (foldl (markKey sampleMachinePath Machine) sampleValues Keys) \<or>
      readSource (\<lambda>path. Inl []) (trusted ?stat) sampleMachinePath Machine
        = Inr (foldl (markKey sampleMachinePath Machine) sampleValues Keys)"
    using Unmarshal_Marshal [OF sample_values(1)]
    by (simp only: readMachineSource_eq decodeSource_eq sample_values(2)) simp
qed simp

end
