(* ===== verification/FileEdit.thy ===== *)
theory FileEdit
  imports Paths UserFile Watch
begin

section \<open>Writing a configuration file\<close>

text \<open>
  Models \<open>asAdministrator\<close>, \<open>Save\<close>, \<open>Edit\<close> and \<open>Describe\<close> of \<open>go/config.go\<close>. The calls on the disk are a
  record of functions over a world \<open>'w\<close>: \<open>os.Stat\<close> (whether a directory is missing), \<open>os.MkdirAll\<close>,
  \<open>os.Remove\<close> (whose error the code ignores), \<open>cas.Change\<close> (another module: it applies a function to
  the content of a file under a lock) and \<open>trusted\<close>. An error is its text.
\<close>

record 'w FileSystem =
  Missing :: "bytes \<Rightarrow> 'w \<Rightarrow> bool"
  MkdirAll :: "bytes \<Rightarrow> 'w \<Rightarrow> bytes option \<times> 'w"
  Remove :: "bytes \<Rightarrow> 'w \<Rightarrow> 'w"
  Change :: "bytes \<Rightarrow> (bytes option \<Rightarrow> bytes + bytes) \<Rightarrow> 'w \<Rightarrow> bytes option \<times> 'w"
  Owned :: "bytes \<Rightarrow> 'w \<Rightarrow> bytes option"

subsection \<open>The machine rung\<close>

definition refusedFor :: "bytes \<Rightarrow> bytes \<Rightarrow> bytes" where
  "refusedFor path why =
     lit ''abstraction: '' @ path @ lit '' answers for every account on this machine, so only an administrator writes it: ''
       @ why"

definition undoFresh :: "'w FileSystem \<Rightarrow> bool \<Rightarrow> bytes \<Rightarrow> 'w \<Rightarrow> 'w" where
  "undoFresh fs fresh dir w = (if fresh then Remove fs dir w else w)"

definition asAdministrator ::
    "'w FileSystem \<Rightarrow> bytes \<Rightarrow> bytes \<Rightarrow> ('w \<Rightarrow> bytes option \<times> 'w) \<Rightarrow> 'w \<Rightarrow> bytes option \<times> 'w" where
  "asAdministrator fs machinePath path write w =
     (if path \<noteq> machinePath then write w
      else (let dir = Dir path; fresh = Missing fs dir w in
        case MkdirAll fs dir w of
          (Some e, w) \<Rightarrow> (Some e, w)
        | (None, w) \<Rightarrow>
            (case Owned fs dir w of Some why \<Rightarrow> (Some (refusedFor path why), undoFresh fs fresh dir w)
             | None \<Rightarrow>
                 (case write w of
                    (Some e, w) \<Rightarrow> (Some e, undoFresh fs fresh dir w)
                  | (None, w) \<Rightarrow>
                      (case Owned fs path w of
                         Some why \<Rightarrow> (Some (refusedFor path why), undoFresh fs fresh dir (Remove fs path w))
                       | None \<Rightarrow> (None, w))))))"

subsection \<open>Save and Edit\<close>

definition changeFile :: "'w FileSystem \<Rightarrow> bytes \<Rightarrow> (bytes option \<Rightarrow> bytes + bytes) \<Rightarrow> 'w \<Rightarrow> bytes option \<times> 'w" where
  "changeFile fs path f w =
     (case MkdirAll fs (Dir path) w of (Some e, w) \<Rightarrow> (Some e, w) | (None, w) \<Rightarrow> Change fs path f w)"

definition Save ::
    "'w FileSystem \<Rightarrow> bytes \<Rightarrow> bytes \<Rightarrow> Config \<Rightarrow> 'w \<times> watchState \<Rightarrow> bytes option \<times> 'w \<times> watchState" where
  "Save fs machinePath path c s =
     (if blank path then (Some (lit ''abstraction: no path to save to''), s)
      else (case asAdministrator fs machinePath path
              (changeFile fs path (\<lambda>cur. Inr (Config_MarshalIndent c @ [ch CHR 0x0A]))) (fst s) of
          (Some e, w) \<Rightarrow> (Some e, (w, snd s))
        | (None, w) \<Rightarrow> (None, (w, announce (snd s)))))"

text \<open>The function \<open>Edit\<close> gives to \<open>cas.Change\<close>: the configuration the file holds, changed.\<close>

definition editBase :: "bytes option \<Rightarrow> bytes + Config" where
  "editBase cur = (case cur of None \<Rightarrow> Inr Config_zero | Some b \<Rightarrow> if b = [] then Inr Config_zero else Config_Unmarshal b)"

definition editText :: "bytes \<Rightarrow> (Config \<Rightarrow> bytes + Config) \<Rightarrow> bytes option \<Rightarrow> bytes + bytes" where
  "editText path change cur =
     (case editBase cur of
        Inl e \<Rightarrow> Inl (lit ''abstraction: '' @ path @ lit '' is not readable, so it will not be overwritten: '' @ e)
      | Inr c \<Rightarrow> (case change c of Inl e \<Rightarrow> Inl e | Inr c \<Rightarrow> Inr (Config_MarshalIndent c @ [ch CHR 0x0A])))"


subsection \<open>Describe\<close>

text \<open>\<open>%-12s\<close> and \<open>%-14s\<close>: the text, filled up with spaces to a number of code points.\<close>

fun runeCount :: "nat \<Rightarrow> bytes \<Rightarrow> nat" where
  "runeCount 0 s = 0"
| "runeCount (Suc n) s = (if s = [] then 0 else Suc (runeCount n (drop (max 1 (runeSize s)) s)))"

definition padded :: "nat \<Rightarrow> bytes \<Rightarrow> bytes" where
  "padded width s = s @ replicate (width - runeCount (length s) s) (ch CHR '' '')"

definition describeText :: "Config \<Rightarrow> bytes \<Rightarrow> bytes" where
  "describeText c key =
     (case Config_text c key of None \<Rightarrow> [] | Some v \<Rightarrow>
        if v \<noteq> [] then lit ''  '' @ padded 12 key @ lit '' '' @ v @ [ch CHR 0x0A] @ padded 14 [] @ lit '' from ''
          @ Origin_String (Config_Origin c key) @ [ch CHR 0x0A]
        else [])"

definition joined :: "bytes list \<Rightarrow> bytes" where
  "joined xs = concat (map (\<lambda>(i, x). (if i = 0 then [] else lit '', '') @ x) (enumerate 0 xs))"

definition Describe :: "(bytes \<Rightarrow> bytes) \<Rightarrow> Config \<Rightarrow> bytes" where
  "Describe getenv c =
     (if Config.Origins c = fmempty then lit ''no configuration found; only built-in tiers are available''
      else concat (map (describeText c) [lit ''nas_store'', lit ''store'', lit ''log_sink'', lit ''log_service''])
        @ concat (map (\<lambda>name. lit ''  '' @ padded 12 name @ lit '' off '' @ [0xE2, 0x80, 0x94] @ lit '' ''
            @ mget (Config.Off c) name @ [ch CHR 0x0A]) (sortedKeys (Config.Off c)))
        @ (if Config.Off c \<noteq> fmempty
           then padded 14 [] @ lit '' from '' @ Origin_String (Config_Origin c (lit ''off'')) @ [ch CHR 0x0A] else [])
        @ (let over = Overridden getenv in
           if over \<noteq> [] then [ch CHR 0x0A] @ lit ''the environment is deciding '' @ joined over
             @ lit '', whatever this file says'' @ [ch CHR 0x0A]
           else []))"

subsection \<open>What an edit does\<close>











subsection \<open>Properties\<close>


text \<open>A disk of files only, for the concrete cases.\<close>

definition sampleFiles :: "(bytes \<rightharpoonup> bytes) FileSystem" where
  "sampleFiles = \<lparr>Missing = (\<lambda>dir w. False), MkdirAll = (\<lambda>dir w. (None, w)), Remove = (\<lambda>path w. w(path := None)),
     Change = (\<lambda>path f w. case f (w path) of Inl e \<Rightarrow> (Some e, w) | Inr d \<Rightarrow> (None, w(path \<mapsto> d))),
     Owned = (\<lambda>path w. None)\<rparr>"



text \<open>A write to the machine rung that succeeds is one every reader will believe: the file and, through it, its
  directory were found trusted after the write.\<close>

theorem machine_write_is_trusted:
  assumes "asAdministrator fs machinePath machinePath write w = (None, w')"
  shows "Owned fs machinePath w' = None"
  using assms by (auto simp: asAdministrator_def Let_def split: option.splits prod.splits)

lemma machine_write_is_trusted_witness: "Owned sampleFiles (lit ''m'') ([lit ''m'' \<mapsto> []]) = None"
  by (rule machine_write_is_trusted [of _ "lit ''m''" "\<lambda>w. (None, w(lit ''m'' \<mapsto> []))" Map.empty])
    (simp add: asAdministrator_def sampleFiles_def)








text \<open>The comment on \<open>Edit\<close> says that what somebody else wrote into the file has to survive. A member
  that this version does not know, as a later one may have written, does not.\<close>

lemma edit_drops_unknown:
  "editText [] Inr (Some (lit ''{\"future\":1,\"store\":\"x\"}'')) = Inr (lit ''{'' @ [10] @ lit ''  \"store\": \"x\"'' @ [10] @ lit ''}'' @ [10])"
  by code_simp

end
