(* ===== verification/Driver.thy ===== *)
theory Driver
  imports ConfigSpec Paths
begin

section \<open>The conformance driver\<close>

text \<open>
  Models \<open>go/cmd/configdriver/main.go\<close>, which plays a scenario, a list of operations on the files and the
  environment of a configuration, and prints what an observer sees. The calls on the disk are a record
  of functions over a world \<open>'w\<close>; the two paths are arguments, since \<open>settle\<close> fixes the variables they
  depend on and no operation of a scenario changes those. The texts on standard error are not needed:
  \<open>noise\<close> only tells whether there were any.
\<close>

subsection \<open>Lines\<close>

fun withoutReturns :: "bytes \<Rightarrow> bytes" where
  "withoutReturns (c # d # s) =
     (if c = ch CHR 0x0D \<and> d = ch CHR 0x0A then ch CHR 0x0A # withoutReturns s else c # withoutReturns (d # s))"
| "withoutReturns s = s"

fun splitLines :: "bytes \<Rightarrow> bytes list" where
  "splitLines [] = [[]]"
| "splitLines (c # s) =
     (if c = ch CHR 0x0A then [] # splitLines s
      else (case splitLines s of [] \<Rightarrow> [[c]] | l # ls \<Rightarrow> (c # l) # ls))"

definition trimRight :: "bytes \<Rightarrow> bytes" where
  "trimRight s = rev (dropWhile (\<lambda>c. c = ch CHR '' '' \<or> c = ch CHR 0x09) (rev s))"

definition operations :: "bytes \<Rightarrow> bytes list" where
  "operations b =
     filter (\<lambda>l. \<not> (l = [] \<or> hd l = ch CHR ''#'')) (map trimRight (splitLines (withoutReturns b)))"

text \<open>\<open>strings.Cut\<close> at the first space.\<close>

definition cut :: "bytes \<Rightarrow> bytes \<times> bytes \<times> bool" where
  "cut s =
     (let a = takeWhile (\<lambda>c. c \<noteq> ch CHR '' '') s; b = dropWhile (\<lambda>c. c \<noteq> ch CHR '' '') s in
      if b = [] then (s, [], False) else (a, tl b, True))"

definition twoDigits :: "nat \<Rightarrow> bytes" where
  "twoDigits n = num (if n < 10 then lit ''0'' else []) (of_nat n)"

subsection \<open>State\<close>

text \<open>\<open>os.Remove\<close> and \<open>os.WriteFile\<close> answer whether they succeeded, removal of a missing file included;
  \<open>Pipe\<close> tells whether \<open>os.Pipe\<close> does, \<open>Exists\<close> whether \<open>os.Stat\<close> finds a path.\<close>

record 'w Disk =
  RemoveFile :: "bytes \<Rightarrow> 'w \<Rightarrow> bool \<times> 'w"
  MakeDirs :: "bytes \<Rightarrow> 'w \<Rightarrow> bool \<times> 'w"
  WriteFile :: "bytes \<Rightarrow> bytes \<Rightarrow> 'w \<Rightarrow> bool \<times> 'w"
  CasRead :: "bytes \<Rightarrow> 'w \<Rightarrow> bytes + bytes option"
  TrustedFile :: "bytes \<Rightarrow> 'w \<Rightarrow> bytes option"
  Pipe :: "'w \<Rightarrow> bool"
  Exists :: "bytes \<Rightarrow> 'w \<Rightarrow> bool"

record 'w driver =
  disk :: 'w
  env :: "bytes gomap"
  noise :: bool
  lastStamp :: bytes
  firstStamp :: bool

definition newDriver :: "'w \<Rightarrow> bytes gomap \<Rightarrow> 'w driver" where
  "newDriver w e = \<lparr>disk = w, env = e, noise = False, lastStamp = [], firstStamp = True\<rparr>"

subsection \<open>Operations\<close>

definition plant :: "'w Disk \<Rightarrow> bytes \<Rightarrow> bytes \<Rightarrow> 'w \<Rightarrow> bytes \<times> 'w" where
  "plant fs path body w =
     (if path = [] then (lit ''refused no-such-rung'', w)
      else if body = lit ''-'' then
        (case RemoveFile fs path w of (ok, w) \<Rightarrow> (if ok then lit ''ok'' else lit ''refused unwritable'', w))
      else (case MakeDirs fs (Dir path) w of
          (False, w) \<Rightarrow> (lit ''refused unwritable'', w)
        | (True, w) \<Rightarrow>
            (case WriteFile fs path (body @ [ch CHR 0x0A]) w of
              (ok, w) \<Rightarrow> (if ok then lit ''ok'' else lit ''refused unwritable'', w))))"

text \<open>\<open>os.Setenv\<close> refuses a value with a zero byte; the driver ignores that.\<close>

definition setenv :: "bytes \<Rightarrow> bytes \<Rightarrow> bytes gomap \<Rightarrow> bytes gomap" where
  "setenv name v e = (if 0 \<in> set v then e else fmupd name v e)"

definition setEnv :: "bytes \<Rightarrow> bytes gomap \<Rightarrow> bytes \<times> bytes gomap" where
  "setEnv arg e =
     (case cut arg of (key, v, ok) \<Rightarrow>
       let name = mget EnvVars key in
       if \<not> ok \<or> name = [] then (lit ''invalid'', e)
       else if v = lit ''-'' then (lit ''ok'', fmdrop name e)
       else (lit ''ok'', setenv name (if v = lit ''empty'' then [] else v) e))"

definition overridesIn :: "bytes gomap \<Rightarrow> bytes gomap" where
  "overridesIn e = fmap_of_list (map (\<lambda>key. (mget EnvVars key, mget e (mget EnvVars key))) (rangeKeys EnvVars))"

text \<open>\<open>hearing\<close> replaces standard error by a pipe, where the system gives one, and asks whether anything came.\<close>

definition readFrom :: "'w Disk \<Rightarrow> 'w \<Rightarrow> bytes \<Rightarrow> bytes \<Rightarrow> (bytes + Config) \<times> bytes list" where
  "readFrom fs w = readSaying (\<lambda>path. CasRead fs path w) (\<lambda>path. TrustedFile fs path w)"

definition hearing :: "'w Disk \<Rightarrow> bytes \<Rightarrow> bytes \<Rightarrow> 'w driver \<Rightarrow> Config \<times> 'w driver" where
  "hearing fs machinePath userPath d =
     (case loadSaying (readFrom fs (disk d)) (searchPaths machinePath userPath) (mget (overridesIn (env d))) of
        (c, out) \<Rightarrow> (c, d\<lparr>noise := noise d \<or> Pipe fs (disk d) \<and> concat out \<noteq> []\<rparr>))"

lemma hearing_eq:
  "hearing fs machinePath userPath d =
     (LoadWithOverrides (\<lambda>path rung. fst (readFrom fs (disk d) path rung)) (searchPaths machinePath userPath) (overridesIn (env d)),
      d\<lparr>noise := noise d \<or> Pipe fs (disk d)
          \<and> concat (concat (map (\<lambda>s. snd (readFrom fs (disk d) (fst s) (snd s))) (searchPaths machinePath userPath))) \<noteq> []\<rparr>)"
  by (simp add: hearing_def loadSaying_eq LoadWithOverrides_def)

fun joinWith :: "bytes \<Rightarrow> bytes list \<Rightarrow> bytes" where
  "joinWith sep [] = []"
| "joinWith sep [x] = x"
| "joinWith sep (x # y # xs) = x @ sep @ joinWith sep (y # xs)"

definition valueText :: "Config \<Rightarrow> bytes \<Rightarrow> bytes" where
  "valueText c key =
     (case Config_text c key of Some v \<Rightarrow> v
      | None \<Rightarrow> if key = lit ''off'' then joinWith (lit '','') (sortedKeys (Config.Off c)) else [])"

definition loadText :: "Config \<Rightarrow> bytes" where
  "loadText c =
     (let out = map (\<lambda>key. key @ lit ''='' @ valueText c key @ lit ''/'' @ ConfigOrigin.Rung (Config_Origin c key))
            (filter (\<lambda>key. ConfigOrigin.Rung (Config_Origin c key) \<noteq> Default) Keys)
      in if out = [] then lit ''ok -'' else lit ''ok '' @ joinWith (lit '' '') out)"

definition keyText :: "Config \<Rightarrow> bytes \<Rightarrow> bytes" where
  "keyText c name = lit ''ok value='' @ valueText c name @ lit '' from='' @ ConfigOrigin.Rung (Config_Origin c name)"

definition stampOf :: "Config \<Rightarrow> 'w driver \<Rightarrow> bytes \<times> 'w driver" where
  "stampOf c d =
     (let s = Config_Stamp c; was = lastStamp d; first = firstStamp d; d = d\<lparr>lastStamp := s, firstStamp := False\<rparr> in
      (if first then lit ''ok first'' else if s = was then lit ''ok same'' else lit ''ok differs'', d))"

definition said :: "'w driver \<Rightarrow> bytes \<times> 'w driver" where
  "said d = (if \<not> noise d then (lit ''ok silent'', d) else (lit ''ok said'', d\<lparr>noise := False\<rparr>))"

definition apply_op :: "'w Disk \<Rightarrow> bytes \<Rightarrow> bytes \<Rightarrow> bytes \<Rightarrow> 'w driver \<Rightarrow> bytes \<times> 'w driver" where
  "apply_op fs machinePath userPath l d =
     (case cut l of (op, arg, _) \<Rightarrow>
       if op = lit ''user'' then (case plant fs userPath arg (disk d) of (out, w) \<Rightarrow> (out, d\<lparr>disk := w\<rparr>))
       else if op = lit ''machine'' then (case plant fs machinePath arg (disk d) of (out, w) \<Rightarrow> (out, d\<lparr>disk := w\<rparr>))
       else if op = lit ''env'' then (case setEnv arg (env d) of (out, e) \<Rightarrow> (out, d\<lparr>env := e\<rparr>))
       else if op = lit ''load'' then (case hearing fs machinePath userPath d of (c, d) \<Rightarrow> (loadText c, d))
       else if op = lit ''key'' then
         (if arg = [] then (lit ''invalid'', d)
          else (case hearing fs machinePath userPath d of (c, d) \<Rightarrow> (keyText c arg, d)))
       else if op = lit ''stamp'' then (case hearing fs machinePath userPath d of (c, d) \<Rightarrow> stampOf c d)
       else if op = lit ''noise'' then said d
       else (lit ''unknown-op'', d))"

fun play :: "'w Disk \<Rightarrow> bytes \<Rightarrow> bytes \<Rightarrow> nat \<Rightarrow> bytes list \<Rightarrow> 'w driver \<Rightarrow> bytes list \<times> 'w driver" where
  "play fs machinePath userPath n [] d = ([], d)"
| "play fs machinePath userPath n (l # ls) d =
     (case apply_op fs machinePath userPath l d of
        (answer, d) \<Rightarrow>
          (case play fs machinePath userPath (Suc n) ls d of
             (out, d) \<Rightarrow> ((twoDigits (Suc n) @ lit '' '' @ l @ lit '' -> '' @ answer @ [ch CHR 0x0A]) # out, d)))"

definition capabilities :: "bytes \<Rightarrow> bytes list" where
  "capabilities goos = (if goos = lit ''windows'' then [lit ''config'', lit ''machine''] else [lit ''config''])"

definition isolated :: "'w Disk \<Rightarrow> bytes \<Rightarrow> bytes \<Rightarrow> 'w \<Rightarrow> bytes option" where
  "isolated fs workdir m w =
     (if m = [] \<or> take (length workdir) m = workdir then None
      else if Exists fs m w then
        Some (m @ lit '' is outside this workdir and exists, so the machine ''
          @ lit ''rung cannot be isolated and the corpus would read this machine's answer'')
      else None)"

text \<open>\<open>settle\<close>, on the environment \<open>e\<close> of the process. Go ranges over \<open>dirs\<close> in any order; the texts of
  the errors are left out.\<close>

definition settleDirs :: "bytes \<Rightarrow> (bytes \<times> bytes) list" where
  "settleDirs workdir =
     (let home = Join [workdir, lit ''home''] in
      [(lit ''HOME'', home), (lit ''USERPROFILE'', home), (lit ''AppData'', Join [workdir, lit ''appdata'']),
       (lit ''ProgramData'', Join [workdir, lit ''programdata'']), (lit ''XDG_CONFIG_HOME'', Join [workdir, lit ''xdg''])])"

fun settleEach :: "'w Disk \<Rightarrow> (bytes \<times> bytes) list \<Rightarrow> 'w \<times> bytes gomap \<Rightarrow> bytes option \<times> 'w \<times> bytes gomap" where
  "settleEach fs [] s = (None, s)"
| "settleEach fs ((k, v) # dirs) (w, e) =
     (case MakeDirs fs v w of
        (False, w) \<Rightarrow> (Some (lit ''mkdir''), (w, e))
      | (True, w) \<Rightarrow>
          if 0 \<in> set v then (Some (lit ''setenv''), (w, e)) else settleEach fs dirs (w, setenv k v e))"

definition settle ::
    "'w Disk \<Rightarrow> (bytes gomap \<Rightarrow> bytes) \<Rightarrow> bytes \<Rightarrow> 'w \<times> bytes gomap \<Rightarrow> bytes option \<times> 'w \<times> bytes gomap" where
  "settle fs machineOf workdir s =
     (case settleEach fs (settleDirs workdir) s of
        (Some x, s) \<Rightarrow> (Some x, s)
      | (None, (w, e)) \<Rightarrow>
          (let e = foldl (\<lambda>e name. fmdrop name e) e [lit ''HOMEDRIVE'', lit ''HOMEPATH''];
               e = foldl (\<lambda>e key. let v = mget EnvVars key in if v \<noteq> [] then fmdrop v e else e) e Keys
           in (isolated fs workdir (machineOf e) w, (w, e))))"

definition transcript :: "'w Disk \<Rightarrow> bytes \<Rightarrow> bytes \<Rightarrow> bytes \<Rightarrow> 'w \<times> bytes gomap \<Rightarrow> bytes" where
  "transcript fs machinePath userPath scenario s =
     concat (fst (play fs machinePath userPath 0 (operations scenario) (newDriver (fst s) (snd s))))"

text \<open>\<open>scenario\<close> is what \<open>os.ReadFile\<close> answers; \<open>machineOf\<close> and \<open>userOf\<close> are the two paths as the
  environment decides them.\<close>

definition run ::
    "'w Disk \<Rightarrow> (bytes gomap \<Rightarrow> bytes) \<Rightarrow> (bytes gomap \<Rightarrow> bytes) \<Rightarrow> bytes \<Rightarrow> bytes + bytes \<Rightarrow> 'w \<times> bytes gomap
      \<Rightarrow> bytes + bytes" where
  "run fs machineOf userOf workdir scenario s =
     (case scenario of Inl e \<Rightarrow> Inl e
      | Inr b \<Rightarrow>
          (case settle fs machineOf workdir s of
             (Some e, s) \<Rightarrow> Inl e
           | (None, s) \<Rightarrow> Inr (transcript fs (machineOf (snd s)) (userOf (snd s)) b s)))"

text \<open>\<open>main\<close>, on \<open>os.Args\<close>: standard output, standard error and the exit code. \<open>runIn\<close> is \<open>run\<close>.\<close>

definition driverMain :: "bytes \<Rightarrow> (bytes \<Rightarrow> bytes \<Rightarrow> bytes + bytes) \<Rightarrow> bytes list \<Rightarrow> bytes \<times> bytes \<times> nat" where
  "driverMain goos runIn args =
     (if length args = 2 \<and> args ! 1 = lit ''--capabilities''
      then (joinWith (lit '' '') (capabilities goos) @ [ch CHR 0x0A], [], 0)
      else if length args \<noteq> 3 then ([], lit ''usage: configdriver <workdir> <scenario>'' @ [ch CHR 0x0A], 2)
      else (case runIn (args ! 1) (args ! 2) of
          Inl e \<Rightarrow> ([], e @ [ch CHR 0x0A], 1)
        | Inr out \<Rightarrow> (out, [], 0)))"

subsection \<open>The recorded scenarios\<close>

text \<open>A disk whose machine file nobody trusts, and scenarios of \<open>testdata/scenarios\<close> with their recorded transcripts.\<close>

type_synonym files = "bytes \<rightharpoonup> bytes"

definition plainFiles :: "files Disk" where
  "plainFiles = \<lparr>RemoveFile = (\<lambda>path w. (True, w(path := None))), MakeDirs = (\<lambda>path w. (True, w)),
     WriteFile = (\<lambda>path b w. (True, w(path \<mapsto> b))), CasRead = (\<lambda>path w. Inr (w path)), TrustedFile = (\<lambda>path w. Some []),
     Pipe = (\<lambda>w. True), Exists = (\<lambda>path w. w path \<noteq> None)\<rparr>"

definition textOf :: "String.string list \<Rightarrow> bytes" where
  "textOf ls = concat (map (\<lambda>l. lit l @ [10]) ls)"

definition played :: "String.string list \<Rightarrow> bytes" where
  "played ls = transcript plainFiles (lit ''m'') (lit ''u'') (textOf ls) (Map.empty, fmempty)"


subsection \<open>What an operation keeps\<close>

lemma hearing_fields:
  "disk (snd (hearing fs m u d)) = disk d" "env (snd (hearing fs m u d)) = env d"
  "lastStamp (snd (hearing fs m u d)) = lastStamp d" "firstStamp (snd (hearing fs m u d)) = firstStamp d"
  by (simp_all add: hearing_eq Let_def)

lemma play_Cons:
  "snd (play fs m u n (l # ls) d) = snd (play fs m u (Suc n) ls (snd (apply_op fs m u l d)))"
  "fst (play fs m u n (l # ls) d) =
     (twoDigits (Suc n) @ lit '' '' @ l @ lit '' -> '' @ fst (apply_op fs m u l d) @ [ch CHR 0x0A])
       # fst (play fs m u (Suc n) ls (snd (apply_op fs m u l d)))"
  by (simp_all split: prod.split)

lemma stamp_kept:
  assumes "fst (cut l) \<noteq> lit ''stamp''"
  shows "lastStamp (snd (apply_op fs m u l d)) = lastStamp d \<and> firstStamp (snd (apply_op fs m u l d)) = firstStamp d"
proof -
  obtain op arg b where "cut l = (op, arg, b)" by (cases "cut l")
  with assms show ?thesis by (auto simp: apply_op_def said_def Let_def hearing_eq split: prod.splits)
qed

lemma play_stamp_kept:
  "\<forall>l\<in>set ls. fst (cut l) \<noteq> lit ''stamp'' \<Longrightarrow>
   lastStamp (snd (play fs m u n ls d)) = lastStamp d \<and> firstStamp (snd (play fs m u n ls d)) = firstStamp d"
  by (induction ls arbitrary: n d) (auto simp: stamp_kept play_Cons simp del: play.simps(2))

lemma operation_words:
  "cut (lit ''stamp'') = (lit ''stamp'', [], False)" "cut (lit ''env '' @ x) = (lit ''env'', x, True)"
  "cut (lit ''key '' @ x) = (lit ''key'', x, True)" "cut (lit ''load'') = (lit ''load'', [], False)"
  by (simp_all add: cut_def lit_Cons)


text \<open>Two drivers whose environments answer alike play alike.\<close>

definition alike :: "'w driver \<Rightarrow> 'w driver \<Rightarrow> bool" where
  "alike d d' \<longleftrightarrow> disk d = disk d' \<and> noise d = noise d' \<and> lastStamp d = lastStamp d' \<and> firstStamp d = firstStamp d'
     \<and> mget (env d) = mget (env d')"

lemma mget_changes: "mget (fmupd name v e) = (mget e)(name := v)" "mget (fmdrop name e) = (mget e)(name := [])"
  by (auto simp: mget_def fun_eq_iff)

lemma overridesIn_alike: "mget e = mget e' \<Longrightarrow> overridesIn e = overridesIn e'"
  by (simp add: overridesIn_def)

lemma setEnv_alike:
  assumes "mget e = mget e'"
  shows "fst (setEnv x e) = fst (setEnv x e') \<and> mget (snd (setEnv x e)) = mget (snd (setEnv x e'))"
  using assms by (cases "cut x") (simp add: setEnv_def setenv_def Let_def mget_changes)

lemma apply_alike:
  assumes "alike d d'"
  shows "fst (apply_op fs m u l d) = fst (apply_op fs m u l d') \<and> alike (snd (apply_op fs m u l d)) (snd (apply_op fs m u l d'))"
proof -
  obtain op arg b where l: "cut l = (op, arg, b)" by (cases "cut l")
  have same: "disk d' = disk d" "noise d' = noise d" "lastStamp d' = lastStamp d" "firstStamp d' = firstStamp d"
    and e: "mget (env d) = mget (env d')" using assms by (simp_all add: alike_def)
  obtain out e1 e2 where set: "setEnv arg (env d) = (out, e1)" "setEnv arg (env d') = (out, e2)" "mget e1 = mget e2"
    using setEnv_alike[OF e, of arg] by (metis prod.collapse)
  show ?thesis
  proof (cases "op = lit ''env''")
    case True
    with set l show ?thesis by (simp add: apply_op_def alike_def same)
  next
    case False
    with overridesIn_alike[OF e] e l show ?thesis
      by (simp add: apply_op_def alike_def hearing_eq stampOf_def said_def Let_def same split: prod.split)
  qed
qed

lemma play_alike: "alike d d' \<Longrightarrow> fst (play fs m u n ls d) = fst (play fs m u n ls d')"
proof (induction ls arbitrary: n d d')
  case (Cons l ls)
  from apply_alike[OF Cons.prems, of fs m u l] Cons.IH show ?case by (simp add: play_Cons del: play.simps(2))
qed simp

text \<open>The variable of a key, read back.\<close>

lemma map_of_values: "map_of (map (\<lambda>k. (f k, g (f k))) ks) n = (if n \<in> f ` set ks then Some (g n) else None)"
  by (induction ks) auto

lemma overridesIn_key:
  assumes "key \<in> set Keys" and "key \<noteq> lit ''off''"
  shows "mget (overridesIn e) (mget EnvVars key) = mget e (mget EnvVars key)"
proof -
  have "key \<in> set (rangeKeys EnvVars)"
    using assms by (auto simp: rangeKeys_props EnvVars_def Keys_def fmlookup_dom'_iff fmlookup_of_list)
  then show ?thesis by (simp add: overridesIn_def mget_def[of "fmap_of_list _"] fmlookup_of_list map_of_values)
qed

lemma apply_stamp:
  "fst (apply_op fs m u (lit ''stamp'') d) =
     (if firstStamp d then lit ''ok first''
      else if Config_Stamp (fst (hearing fs m u d)) = lastStamp d then lit ''ok same'' else lit ''ok differs'')"
  "lastStamp (snd (apply_op fs m u (lit ''stamp'') d)) = Config_Stamp (fst (hearing fs m u d))"
  "\<not> firstStamp (snd (apply_op fs m u (lit ''stamp'') d))"
proof -
  obtain c d' where "hearing fs m u d = (c, d')" by fastforce
  with hearing_fields[of fs m u d]
  show "fst (apply_op fs m u (lit ''stamp'') d) =
     (if firstStamp d then lit ''ok first''
      else if Config_Stamp (fst (hearing fs m u d)) = lastStamp d then lit ''ok same'' else lit ''ok differs'')"
    "lastStamp (snd (apply_op fs m u (lit ''stamp'') d)) = Config_Stamp (fst (hearing fs m u d))"
    "\<not> firstStamp (snd (apply_op fs m u (lit ''stamp'') d))"
    by (simp_all add: apply_op_def operation_words stampOf_def Let_def)
qed

lemma apply_key:
  "key \<noteq> [] \<Longrightarrow> fst (apply_op fs m u (lit ''key '' @ key) d) = keyText (fst (hearing fs m u d)) key"
  by (simp add: apply_op_def operation_words split: prod.split)

lemma cut_words: "ch CHR '' '' \<notin> set w \<Longrightarrow> cut (w @ ch CHR '' '' # x) = (w, x, True)"
  by (simp add: cut_def takeWhile_append dropWhile_append)

lemma apply_env:
  "ch CHR '' '' \<notin> set key \<Longrightarrow> mget EnvVars key = name \<Longrightarrow> name \<noteq> [] \<Longrightarrow>
   apply_op fs m u (lit ''env '' @ key @ ch CHR '' '' # v) d =
     (lit ''ok'', d\<lparr>env := (if v = lit ''-'' then fmdrop name (env d)
        else setenv name (if v = lit ''empty'' then [] else v) (env d))\<rparr>)"
  by (simp add: apply_op_def operation_words(2) setEnv_def cut_words[simplified] Let_def)

subsection \<open>Properties\<close>

text \<open>C37: between two questions for the stamp, whatever else was played, the second is answered \<open>same\<close> exactly when the
  settings are those of the first, wherever they came from, provided both answers are valid UTF-8: for others
  two answers may have one stamp (\<open>stamp_collides\<close>).\<close>

theorem stamp_follows_answer:
  assumes "snd (apply_op fs m u (lit ''stamp'') d) = d1" and "snd (play fs m u n ls d1) = d2"
    and "\<forall>l\<in>set ls. fst (cut l) \<noteq> lit ''stamp''"
    and "valid_Config (fst (hearing fs m u d))" and "valid_Config (fst (hearing fs m u d2))"
  shows "fst (apply_op fs m u (lit ''stamp'') d2) =
    (if settings (fst (hearing fs m u d2)) = settings (fst (hearing fs m u d)) then lit ''ok same'' else lit ''ok differs'')"
proof -
  have "lastStamp d2 = Config_Stamp (fst (hearing fs m u d)) \<and> \<not> firstStamp d2"
    using play_stamp_kept[OF assms(3), of fs m u n d1] assms(1,2) apply_stamp(2,3)[of fs m u d] by simp
  then show ?thesis using Marshal_eq[OF assms(5,4)] by (simp add: apply_stamp(1) Config_Stamp_def)
qed


text \<open>C39: The variable of a key decides the key, whatever the files say, and the answer names the environment; an
  empty variable is no override: whatever is played after it is answered as after taking the variable away.\<close>

theorem environment_overrides:
  assumes "key \<in> set Keys" and "key \<noteq> lit ''off''" and "v \<noteq> []" and "v \<noteq> lit ''-''" and "v \<noteq> lit ''empty''"
    and "0 \<notin> set v"
  shows "fst (apply_op fs m u (lit ''key '' @ key) (snd (apply_op fs m u (lit ''env '' @ key @ ch CHR '' '' # v) d)))
      = lit ''ok value='' @ v @ lit '' from=environment''
    \<and> fst (play fs m u n ls (snd (apply_op fs m u (lit ''env '' @ key @ ch CHR '' '' # lit ''empty'') d)))
      = fst (play fs m u n ls (snd (apply_op fs m u (lit ''env '' @ key @ ch CHR '' '' # lit ''-'') d)))"
proof -
  have key: "ch CHR '' '' \<notin> set key" "key \<noteq> []" "mget EnvVars key \<noteq> []"
    using assms(1,2) by (auto simp: Keys_def EnvVars_def mget_def lit_Cons)
  note env = apply_env[OF key(1) refl key(3)]
  let ?d = "d\<lparr>env := fmupd (mget EnvVars key) v (env d)\<rparr>"
  let ?c = "fst (hearing fs m u ?d)"
  have "view ?c key = Some (Text v, \<lparr>ConfigOrigin.Rung = Environment, Path = []\<rparr>)"
    using overridesIn_key[OF assms(1,2)] assms(1-3)
    by (simp add: hearing_eq Let_def LoadWithOverrides_def view_load environment_view_def mget_changes map_add_Some_iff)
  then have "keyText ?c key = lit ''ok value='' @ v @ lit '' from=environment''"
    by (auto simp: view_def keyText_def valueText_def Environment_def lit_def split: if_splits option.splits)
  moreover have "alike (d\<lparr>env := setenv (mget EnvVars key) [] (env d)\<rparr>) (d\<lparr>env := fmdrop (mget EnvVars key) (env d)\<rparr>)"
    by (simp add: alike_def setenv_def mget_changes)
  ultimately show ?thesis using assms(3-6) key(2) by (simp add: env[simplified] apply_key setenv_def play_alike)
qed


lemma environment_overrides_witness:
  "fst (apply_op plainFiles (lit ''m'') (lit ''u'') (lit ''key '' @ lit ''store'')
      (snd (apply_op plainFiles (lit ''m'') (lit ''u'') (lit ''env '' @ lit ''store'' @ ch CHR '' '' # lit ''B'') (newDriver Map.empty fmempty))))
    = lit ''ok value='' @ lit ''B'' @ lit '' from=environment''"
  by (rule environment_overrides[THEN conjunct1]) (simp_all add: Keys_def lit_Cons)

lemma nothing_loaded:
  assumes "disk d = Map.empty" and "env d = fmempty"
  shows "fst (hearing plainFiles m u d) = Config_zero"
proof -
  have e: "applyEnvironment (mget (overridesIn fmempty)) Config_zero = applyEnvironment (\<lambda>name. []) Config_zero"
    using overridesIn_key[of _ fmempty] by (intro applyEnvironment_cong) (simp add: mget_def)
  have "applyEnvironment (\<lambda>name. []) Config_zero = Config_zero"
    by (simp add: applyEnvironment_def environmentKey_def Keys_def Let_def split: option.split)
  with e assms show ?thesis
    by (simp add: hearing_eq Let_def LoadWithOverrides_def load_def searchPaths_def loadSource_def readFrom_def readSaying_def
        plainFiles_def)
qed

lemma asking_keeps:
  "disk (snd (apply_op fs m u (lit ''load'') d)) = disk d" "env (snd (apply_op fs m u (lit ''load'') d)) = env d"
  "disk (snd (apply_op fs m u (lit ''stamp'') d)) = disk d" "env (snd (apply_op fs m u (lit ''stamp'') d)) = env d"
  by (simp_all add: apply_op_def operation_words hearing_eq stampOf_def Let_def)

text \<open>Nothing is there, so the stamp is the same after a look at everything.\<close>

lemma stamp_follows_answer_witness:
  "fst (apply_op plainFiles (lit ''m'') (lit ''u'') (lit ''stamp'')
      (snd (play plainFiles (lit ''m'') (lit ''u'') 1 [lit ''load''] (snd (apply_op plainFiles (lit ''m'') (lit ''u'') (lit ''stamp'')
        (newDriver Map.empty fmempty)))))) = lit ''ok same''"
proof -
  let ?m = "lit ''m''" and ?u = "lit ''u''"
  let ?d = "newDriver Map.empty fmempty :: files driver"
  let ?d1 = "snd (apply_op plainFiles ?m ?u (lit ''stamp'') ?d)"
  let ?d2 = "snd (play plainFiles ?m ?u 1 [lit ''load''] ?d1)"
  have c: "fst (hearing plainFiles ?m ?u ?d) = Config_zero" "fst (hearing plainFiles ?m ?u ?d2) = Config_zero"
    by (rule nothing_loaded, simp_all add: newDriver_def play_Cons asking_keeps del: play.simps(2))+
  have "\<forall>l\<in>set [lit ''load'']. fst (cut l) \<noteq> lit ''stamp''" by code_simp
  from stamp_follows_answer[OF refl refl this, of plainFiles ?m ?u ?d 1] show ?thesis
    by (simp only: c valid_Config_zero if_True simp_thms)
qed

text \<open>Recorded transcripts of \<open>testdata/scenarios\<close>, in part.\<close>

lemma malformed_is_said:
  "played [''user no'', ''load'', ''noise''] =
   textOf [''01 user no -> ok'', ''02 load -> ok -'', ''03 noise -> ok said'']"
  by code_simp

lemma environment_over_user:
  "played [''user {}'', ''env store B'', ''key store''] =
   textOf [''01 user {} -> ok'', ''02 env store B -> ok'', ''03 key store -> ok value=B from=environment'']"
  by code_simp

end
