(* ===== verification/Service.thy ===== *)
theory Service
  imports UserStore RpcSpec
begin

section \<open>The service\<close>

text \<open>
  Models the receiver of \<open>go/service/service.go\<close> and \<open>go/service/editor.go\<close>: \<open>authorize\<close>, \<open>Read\<close>,
  \<open>ReadUser\<close> and \<open>ReplaceUser\<close>, with the edit policy, and the host's configuration
  (\<open>EnableEditPolicy\<close>, \<open>OmitMachineRung\<close>). Who calls is the business of another module: \<open>Peer\<close> and
  \<open>AtLeast\<close> are functions of the receiver, as are the policy, the context's \<open>Err\<close>, the trust check and
  the machine's file, all of them functions of the world at the moment of the call. The lemmas show
  that these handlers keep the contract of \<open>rpc\<close>, so a client sees exactly what they answer.
\<close>

subsection \<open>The host and its receiver\<close>

record kernelUser =
  Kind :: bytes
  SID :: bytes
  UID :: u64

datatype policyVerdict = Authorized | PolicyUnavailable | Refused

record ('w, 'v, 'p) Host =
  owner :: bytes
  loadHook :: "(bytes gomap \<Rightarrow> Config) option"
  userStore :: "('w, 'v) Store option"
  userPath :: bytes
  withoutMachine :: bool
  editPolicy :: "('p \<Rightarrow> 'w \<Rightarrow> policyVerdict \<times> 'w) option"

text \<open>The part of the host behind the mutex of its observation, and whether its context is cancelled.
  \<open>slots\<close> counts the waiting calls.\<close>

record observationState =
  serving :: bool
  initialized :: bool
  failed :: bool
  configured :: bool
  epoch :: bytes
  slots :: nat
  cancelled :: bool

record 'w hostState =
  world :: 'w
  live :: watchState
  observation :: observationState

record ('w, 'v, 'p) receiver =
  host :: "('w, 'v, 'p) Host"
  Peer :: "'w \<Rightarrow> 'p option"
  AtLeast :: "'p \<Rightarrow> kernelUser option"
  CtxErr :: "'w \<Rightarrow> bool"
  MachinePath :: bytes
  MachineTrust :: "'w \<Rightarrow> bytes \<Rightarrow> bytes option"
  MachineRead :: "'w \<Rightarrow> bytes \<Rightarrow> nat \<Rightarrow> bytes + bytes option"

definition EnableEditPolicy ::
    "('p \<Rightarrow> 'w \<Rightarrow> policyVerdict \<times> 'w) option \<Rightarrow> observationState \<Rightarrow> ('w, 'v, 'p) Host
      \<Rightarrow> bytes + ('w, 'v, 'p) Host" where
  "EnableEditPolicy policy o' h =
     (if serving o' \<or> cancelled o' then Inl (lit ''config: configure edit policy before Serve'')
      else if policy = None then Inl (lit ''config: explicit edit policy required'')
      else Inr (h\<lparr>editPolicy := policy\<rparr>))"

definition OmitMachineRung :: "observationState \<Rightarrow> ('w, 'v, 'p) Host \<Rightarrow> bytes + ('w, 'v, 'p) Host" where
  "OmitMachineRung o' h =
     (if serving o' \<or> cancelled o' then Inl (lit ''config: omit the machine rung before Serve'')
      else Inr (h\<lparr>withoutMachine := True\<rparr>))"

subsection \<open>Handlers\<close>

definition principalOf :: "kernelUser \<Rightarrow> bytes" where
  "principalOf u =
     (if Kind u = lit ''windows'' then SID u else if Kind u = lit ''posix'' then num [] (UID u) else [])"

definition authorize :: "('w, 'v, 'p) receiver \<Rightarrow> 'w \<Rightarrow> goerror option" where
  "authorize r w =
     (case Peer r w of
        None \<Rightarrow> Some (ErrService (lit ''caller_unavailable'') (lit ''caller identity could not be rechecked''))
      | Some p \<Rightarrow>
          (case AtLeast r p of
             None \<Rightarrow> Some (ErrService (lit ''identity_required'') (lit ''kernel user identity required''))
           | Some u \<Rightarrow>
               if principalOf u = [] \<or> principalOf u \<noteq> owner (host r)
               then Some (ErrService (lit ''wrong_user'') (lit ''configuration service belongs to another user''))
               else None))"

definition overridesMap :: "RunOverrides \<Rightarrow> bytes gomap" where
  "overridesMap v = fmap_of_list
     [(lit ''ABSTRACTION_NAS_STORE'', RunOverrides.NasStore v), (lit ''ABSTRACTION_STORE'', RunOverrides.Store v),
      (lit ''ABSTRACTION_LOG'', RunOverrides.LogSink v), (lit ''ABSTRACTION_LOG_SERVICE'', RunOverrides.LogService v)]"

definition wireOrigin :: "Config \<Rightarrow> String.string \<Rightarrow> Origin" where
  "wireOrigin c key = (let r = Config_Origin c (lit key) in
     \<lparr>Origin.Rung = ConfigOrigin.Rung r, Path = ConfigOrigin.Path r\<rparr>)"

definition wireSnapshot :: "Config \<Rightarrow> Snapshot" where
  "wireSnapshot c =
     \<lparr>Snapshot.NasStore = Config.NASStore c, Store = Config.Store c, LogSink = Config.LogSink c,
      LogService = Config.LogService c, Off = Config.Off c,
      Origins = \<lparr>Origins.NasStore = wireOrigin c ''nas_store'', Store = wireOrigin c ''store'',
        LogSink = wireOrigin c ''log_sink'', LogService = wireOrigin c ''log_service'', Off = wireOrigin c ''off''\<rparr>,
      Stamp = Config_Stamp c\<rparr>"

definition hostLoad :: "('w, 'v, 'p) receiver \<Rightarrow> bytes gomap \<Rightarrow> 'w \<Rightarrow> (storeError + Config) \<times> 'w" where
  "hostLoad r overrides w =
     (case loadHook (host r) of Some f \<Rightarrow> (Inr (f overrides), w)
      | None \<Rightarrow>
          loadWithSources (userStore (host r)) (userPath (host r))
            (if withoutMachine (host r) then [] else MachinePath r) (MachineTrust r) (MachineRead r) overrides w)"

definition receiver_Read :: "('w, 'v, 'p) receiver \<Rightarrow> RunOverrides \<Rightarrow> 'w hostState \<Rightarrow> Snapshot handled \<times> 'w hostState" where
  "receiver_Read r overrides s =
     (case authorize r (world s) of Some e \<Rightarrow> (Fails e, s)
      | None \<Rightarrow>
          (case hostLoad r (overridesMap overrides) (world s) of
             (Inl e, w) \<Rightarrow> (Fails (ErrService (lit ''storage_unavailable'') (lit ''user configuration could not be read'')),
                 s\<lparr>world := w\<rparr>)
           | (Inr c, w) \<Rightarrow> (Returns (wireSnapshot c), s\<lparr>world := w\<rparr>)))"

definition userWire :: "UserFileSnapshot \<Rightarrow> UserSnapshot" where
  "userWire s =
     (let v = UserFileSnapshot.Values s in
      \<lparr>UserSnapshot.Values = \<lparr>UserSettings.NasStore = Config.NASStore v, Store = Config.Store v,
         LogSink = Config.LogSink v, LogService = Config.LogService v, Off = Config.Off v\<rparr>,
       Revision = UserFileSnapshot.Revision s\<rparr>)"

definition receiver_ReadUser :: "('w, 'v, 'p) receiver \<Rightarrow> 'w hostState \<Rightarrow> UserSnapshot handled \<times> 'w hostState" where
  "receiver_ReadUser r s =
     (case authorize r (world s) of Some e \<Rightarrow> (Fails e, s)
      | None \<Rightarrow>
          (case ReadUserStore (userStore (host r)) (userPath (host r)) (world s) of
             (Inl e, w) \<Rightarrow> (Fails (ErrService (lit ''storage_unavailable'') (lit ''user configuration could not be read'')),
                 s\<lparr>world := w\<rparr>)
           | (Inr snapshot, w) \<Rightarrow> (Returns (userWire snapshot), s\<lparr>world := w\<rparr>)))"

definition refusedReplace :: "u32 \<Rightarrow> UserReplaceResult" where
  "refusedReplace outcome =
     \<lparr>UserReplaceResult.Outcome = outcome,
      Snapshot = \<lparr>UserSnapshot.Values = UserSettings_zero, Revision = []\<rparr>\<rparr>"

definition wireValues :: "UserSettings \<Rightarrow> Config" where
  "wireValues v =
     \<lparr>Config.NASStore = UserSettings.NasStore v, Store = UserSettings.Store v, LogSink = UserSettings.LogSink v,
      LogService = UserSettings.LogService v, Off = UserSettings.Off v, Origins = fmempty\<rparr>"

text \<open>The policy's part of \<open>ReplaceUser\<close>: \<open>None\<close> lets the replacement go on.\<close>

definition consultPolicy ::
    "('w, 'v, 'p) receiver \<Rightarrow> 'w \<Rightarrow> UserReplaceResult handled option \<times> 'w" where
  "consultPolicy r w =
     (case editPolicy (host r) of None \<Rightarrow> (None, w)
      | Some policy \<Rightarrow>
          (case Peer r w of
             None \<Rightarrow> (Some (Fails (ErrService (lit ''caller_unavailable'') (lit ''caller identity could not be rechecked''))), w)
           | Some peer \<Rightarrow>
               (case policy peer w of (verdict, w) \<Rightarrow>
                  (if verdict \<noteq> Authorized then
                     (if CtxErr r w \<or> verdict = PolicyUnavailable
                      then Some (Returns (refusedReplace UserReplaceOutcomeUnavailable))
                      else Some (Returns (refusedReplace UserReplaceOutcomeForbidden)))
                   else if CtxErr r w then Some (Returns (refusedReplace UserReplaceOutcomeUnavailable))
                   else None, w))))"

definition receiver_ReplaceUser ::
    "('w, 'v, 'p) receiver \<Rightarrow> bytes \<Rightarrow> UserSettings \<Rightarrow> 'w hostState \<Rightarrow> UserReplaceResult handled \<times> 'w hostState" where
  "receiver_ReplaceUser r expected values s =
     (case authorize r (world s) of Some e \<Rightarrow> (Fails e, s)
      | None \<Rightarrow>
          if expected = [] then (Fails (ErrService (lit ''invalid_revision'') (lit ''expected revision required'')), s)
          else (case consultPolicy r (world s) of
              (Some x, w) \<Rightarrow> (x, s\<lparr>world := w\<rparr>)
            | (None, w) \<Rightarrow>
                (case ReplaceUserStore (userStore (host r)) (userPath (host r)) expected (wireValues values) (w, live s) of
                   (Inl e, (w, l)) \<Rightarrow>
                     (Fails (ErrService (lit ''storage_unavailable'') (lit ''user configuration could not be replaced'')),
                       s\<lparr>world := w, live := l\<rparr>)
                 | (Inr (snapshot, applied), (w, l)) \<Rightarrow>
                     (Returns \<lparr>UserReplaceResult.Outcome =
                          (if applied then UserReplaceOutcomeApplied else UserReplaceOutcomeConflict),
                        Snapshot = userWire snapshot\<rparr>, s\<lparr>world := w, live := l\<rparr>))))"

definition receiverReader :: "('w, 'v, 'p) receiver \<Rightarrow> 'w hostState ConfigReader" where
  "receiverReader r = \<lparr>ConfigReader.Read = receiver_Read r, ReaderInfo = plainInfo\<rparr>"

definition receiverEditor :: "('w, 'v, 'p) receiver \<Rightarrow> 'w hostState ConfigEditor" where
  "receiverEditor r =
     \<lparr>ConfigEditor.ReadUser = receiver_ReadUser r, ReplaceUser = receiver_ReplaceUser r, EditorInfo = plainInfo\<rparr>"

subsection \<open>A handler that keeps the contract\<close>

text \<open>What a client sees of a handler's answer.\<close>

definition clientSees :: "('x \<Rightarrow> 'y) \<Rightarrow> 'x handled \<times> 's \<Rightarrow> (goerror + 'y) \<times> 's" where
  "clientSees f result =
     (case result of
        (Returns x, s) \<Rightarrow> (Inr (f x), s)
      | (h, s) \<Rightarrow> (case handler_error h of
            Some e \<Rightarrow> (Inl (ErrService (oaServiceError.Code (errorRecord e)) (oaServiceError.Message (errorRecord e))), s)
          | None \<Rightarrow> (Inl invalidResult, s)))"

definition sendable :: "goerror \<Rightarrow> bool" where
  "sendable e \<longleftrightarrow> valid_oaServiceError (errorRecord e) \<and> oaServiceError.Code (errorRecord e) \<noteq> []"

locale honest = rpc +
  fixes condition
  assumes returns: "condition w \<Longrightarrow> validA a \<Longrightarrow> handler a w = (Returns x, w') \<Longrightarrow> validR x"
    and fails: "handler_error (fst (handler a w)) = Some e \<Longrightarrow> sendable e"
begin

text \<open>Under the condition on the host, nothing is lost or added on the way: never \<open>invalid_result\<close>, never a refused frame.\<close>

lemma transparent:
  assumes ok: "condition w" and a: "validA a" "encA [] a 1 = Inr arguments"
  shows "callService name word arguments decR exchange w = clientSees id (handler a w)"
proof (cases "handler a w")
  case (Pair h w')
  show ?thesis
  proof (cases "handler_error h")
    case None
    then obtain x where "h = Returns x" by (cases h) auto
    with Pair call_returns [OF a, of w x w'] returns [OF ok a(1), of x w'] show ?thesis
      by (simp add: clientSees_def)
  next
    case (Some e)
    with Pair fails [of a w e] have e: "sendable e" by simp
    from Some Pair have "invoke encR decR (handler a w) = (Inl e, w')" by (simp add: invoke_error)
    from call_fails [OF a this] e Some Pair show ?thesis
      by (cases h) (auto simp: clientSees_def sendable_def)
  qed
qed

end

lemma clientSees_wrapped:
  "apfst (map_sum id f) (clientSees id (apfst (map_handled g) p)) = clientSees (\<lambda>x. f (g x)) p"
proof (cases p)
  case (Pair h s)
  then show ?thesis by (cases h) (simp_all add: clientSees_def)
qed

lemma sendable_words:
  "w \<noteq> [] \<Longrightarrow> list_all (\<lambda>c. (of_char c :: byte) < 0x80) w \<Longrightarrow> list_all (\<lambda>c. (of_char c :: byte) < 0x80) m \<Longrightarrow>
   sendable (ErrService (lit w) (lit m))"
  by (simp add: sendable_def valid_oaServiceError_def lit_valid)

lemma authorize_sendable: "authorize r w = Some e \<Longrightarrow> sendable e"
  by (auto simp: authorize_def sendable_words split: option.splits if_splits)

subsection \<open>The editor's methods\<close>

lemma hexEncode_digits: "c \<in> set (hexEncode s) \<Longrightarrow> c \<in> set hexdigits"
proof (induction s)
  case (Cons b s)
  have "unat (drop_bit 4 b) < 16" using unsigned_less [of b, where ?'a = nat] by (simp add: unat_drop)
  moreover have "unat (b AND 0xF) < 16" using unat_and_mask [of b 4] by (simp add: mask_eq_exp_minus_1)
  ultimately have "unat (drop_bit 4 b) < length hexdigits" "unat (b AND 0xF) < length hexdigits"
    by (simp_all add: hexdigits_def)
  with Cons show ?case by (auto simp: hexEncode_def hexByte_def)
qed (simp add: hexEncode_def)

lemma hexByte_eq: "hexByte c = hexByte d \<Longrightarrow> c = d"
proof -
  assume e: "hexByte c = hexByte d"
  have n: "unat (drop_bit 4 b) < 16" "unat (b AND 0xF) < 16" for b :: byte
    using unsigned_less [of b, where ?'a = nat] unat_and_mask [of b 4] by (simp_all add: unat_drop mask_eq_exp_minus_1)
  have "distinct hexdigits" "length hexdigits = 16" by code_simp+
  with e n [of c] n [of d] have "unat (drop_bit 4 c) = unat (drop_bit 4 d)" "unat (c AND 0xF) = unat (d AND 0xF)"
    by (auto simp: hexByte_def nth_eq_iff_index_eq)
  then have "drop_bit 4 c = drop_bit 4 d" "take_bit 4 c = take_bit 4 d"
    by (auto simp: take_bit_eq_mask mask_eq_exp_minus_1 word_unat_eq_iff)
  then show ?thesis by (metis bits_ident)
qed

lemma hexEncode_eq: "hexEncode s = hexEncode t \<longleftrightarrow> s = t"
proof
  show "hexEncode s = hexEncode t \<Longrightarrow> s = t"
  proof (induction s arbitrary: t)
    case Nil
    then show ?case by (cases t) (auto simp: hexEncode_def hexByte_def)
  next
    case (Cons c s)
    then obtain d u where "t = d # u" by (cases t) (auto simp: hexEncode_def hexByte_def)
    moreover from this Cons.prems have "hexByte c = hexByte d" "hexEncode s = hexEncode u"
      by (simp_all add: hexEncode_def hexByte_def)
    ultimately show ?case using Cons.IH hexByte_eq by blast
  qed
qed simp

lemma hexEncode_valid: "validUTF8 (hexEncode s)"
proof -
  have "list_all (\<lambda>c. c < 0x80) hexdigits" by (simp add: hexdigits_def lit_Cons)
  then show ?thesis
    by (intro ascii_valid) (auto simp: ascii_def list_all_iff dest: hexEncode_digits)
qed

lemma revisionOf_valid: "validUTF8 (revisionOf c)"
  by (simp add: revisionOf_def validUTF8_append hexEncode_valid lit_valid)

lemma valid_wireUser: "userSnapshot data = Inr s \<Longrightarrow> valid_UserSnapshot (userWire s)"
  using userSnapshot_values [of data s] revisionOf_valid
  by (cases s) (auto simp: userWire_def Let_def valid_UserSnapshot_def valid_UserSettings_def valid_Config_def
      snapshotOf_def)

lemma replaceLoop_snapshot:
  "replaceLoop n store path expected data new s = (Inr (snapshot, applied), s') \<Longrightarrow>
   snapshot = new \<or> (\<exists>data. userSnapshot data = Inr snapshot)"
  by (induction n store path expected data new s rule: replaceLoop.induct)
    (auto simp: readUserStore_def split: prod.splits sum.splits if_splits option.splits storeError.splits)

lemma ReplaceUserStore_snapshot:
  assumes "ReplaceUserStore store path expected values s = (Inr (snapshot, applied), s')"
  shows "\<exists>data. userSnapshot data = Inr snapshot"
  using assms replaceLoop_snapshot [of maxAttempts store path expected "userText values" _ s snapshot applied s']
  by (auto simp: ReplaceUserStore_def split: if_splits sum.splits)

lemma ReadUserStore_snapshot:
  "ReadUserStore store path w = (Inr snapshot, w') \<Longrightarrow> \<exists>data. userSnapshot data = Inr snapshot"
  by (auto simp: ReadUserStore_def readUserStore_def apfst_def split: prod.splits sum.splits)

lemma valid_refusedReplace:
  "UserReplaceOutcome_Known outcome \<Longrightarrow> valid_UserReplaceResult (refusedReplace outcome)"
  by (simp add: valid_UserReplaceResult_def refusedReplace_def valid_UserSnapshot_def valid_UserSettings_def
      UserSettings_zero_def valid_map_def)

lemma outcomes_known [simp]:
  "UserReplaceOutcome_Known UserReplaceOutcomeApplied" "UserReplaceOutcome_Known UserReplaceOutcomeConflict"
  "UserReplaceOutcome_Known UserReplaceOutcomeForbidden" "UserReplaceOutcome_Known UserReplaceOutcomeUnavailable"
  by (simp_all add: UserReplaceOutcome_Known_iff UserReplaceOutcomeValues_def)

lemma receiver_ReadUser_valid: "receiver_ReadUser r s = (Returns x, s') \<Longrightarrow> valid_UserSnapshot x"
  by (auto simp: receiver_ReadUser_def split: option.splits prod.splits sum.splits
      dest!: ReadUserStore_snapshot intro: valid_wireUser)

lemma receiver_ReadUser_fails:
  "handler_error (fst (receiver_ReadUser r s)) = Some e \<Longrightarrow> sendable e"
  by (auto simp: receiver_ReadUser_def sendable_words dest: authorize_sendable
      split: option.splits prod.splits sum.splits)

lemma consultPolicy_valid:
  "consultPolicy r w = (Some (Returns x), w') \<Longrightarrow> valid_UserReplaceResult x"
  by (auto simp: consultPolicy_def valid_refusedReplace split: option.splits prod.splits if_splits)

lemma consultPolicy_fails:
  "consultPolicy r w = (Some h, w') \<Longrightarrow> handler_error h = Some e \<Longrightarrow> sendable e"
  by (auto simp: consultPolicy_def sendable_words split: option.splits prod.splits if_splits)

text \<open>A policy that stops the replacement never answers that it was applied.\<close>

lemma consultPolicy_outcome:
  "consultPolicy r w = (Some (Returns x), w') \<Longrightarrow> UserReplaceResult.Outcome x \<noteq> UserReplaceOutcomeApplied"
  by (auto simp: consultPolicy_def refusedReplace_def UserReplaceOutcome_tags split: option.splits prod.splits if_splits)

lemma consultPolicy_env:
  assumes "consultPolicy r w = (p, w')" and "env w w"
    and "\<forall>policy p w. editPolicy (host r) = Some policy \<longrightarrow> env w (snd (policy p w))"
  shows "env w w'"
  using assms by (auto simp: consultPolicy_def split: option.splits prod.splits) (metis snd_conv)+

lemma receiver_ReplaceUser_valid:
  "receiver_ReplaceUser r expected values s = (Returns x, s') \<Longrightarrow> valid_UserReplaceResult x"
  by (auto simp: receiver_ReplaceUser_def valid_UserReplaceResult_def [of "UserReplaceResult.make _ _", unfolded UserReplaceResult.defs]
      split: option.splits prod.splits sum.splits if_splits
      dest!: ReplaceUserStore_snapshot intro: valid_wireUser consultPolicy_valid)

lemma receiver_ReplaceUser_fails:
  "handler_error (fst (receiver_ReplaceUser r expected values s)) = Some e \<Longrightarrow> sendable e"
  by (auto simp: receiver_ReplaceUser_def sendable_words dest: authorize_sendable consultPolicy_fails
      split: option.splits prod.splits sum.splits if_splits)

lemma map_handled_Returns: "apfst (map_handled f) p = (Returns y, s') \<longleftrightarrow> (\<exists>x. p = (Returns x, s') \<and> y = f x)"
proof (cases p)
  case (Pair h s)
  then show ?thesis by (cases h) auto
qed

interpretation serviceReadUser: honest "\<lambda>out v d. Inr (encOAConfigEditorReadUserArguments out v d)"
    decodeOAConfigEditorReadUserArguments OAConfigEditorReadUserArguments_json "\<lambda>v. True" 1
    "\<lambda>out v d. Inr (encOAConfigEditorReadUserResult out v d)"
    decodeOAConfigEditorReadUserResult OAConfigEditorReadUserResult_json valid_oaConfigEditorReadUserResult 4
    editorName "''ReadUser''"
    "\<lambda>args s. apfst (map_handled (\<lambda>result. \<lparr>oaConfigEditorReadUserResult.Value = result\<rparr>)) (receiver_ReadUser r s)"
    "ConfigEditor_ExchangeFrame (receiverEditor r)" "\<lambda>s. True" for r :: "('w, 'v, 'p) receiver"
  by unfold_locales
    (auto simp: exchange_defs lit_valid receiverEditor_def map_handled_Returns valid_oaConfigEditorReadUserResult_def
      dest: receiver_ReadUser_valid receiver_ReadUser_fails)

interpretation serviceReplaceUser: honest "\<lambda>out v d. Inr (encOAConfigEditorReplaceUserArguments out v d)"
    decodeOAConfigEditorReplaceUserArguments OAConfigEditorReplaceUserArguments_json
    valid_oaConfigEditorReplaceUserArguments 3
    encOAConfigEditorReplaceUserResult
    decodeOAConfigEditorReplaceUserResult OAConfigEditorReplaceUserResult_json
    valid_oaConfigEditorReplaceUserResult 5
    editorName "''ReplaceUser''"
    "\<lambda>args s. apfst (map_handled (\<lambda>result. \<lparr>oaConfigEditorReplaceUserResult.Value = result\<rparr>))
       (receiver_ReplaceUser r (oaConfigEditorReplaceUserArguments.ExpectedRevision args)
         (oaConfigEditorReplaceUserArguments.Values args) s)"
    "ConfigEditor_ExchangeFrame (receiverEditor r)" "\<lambda>s. True" for r :: "('w, 'v, 'p) receiver"
  by unfold_locales
    (auto simp: exchange_defs lit_valid receiverEditor_def map_handled_Returns valid_oaConfigEditorReplaceUserResult_def
      dest: receiver_ReplaceUser_valid receiver_ReplaceUser_fails)

lemma service_ReadUser:
  "ConfigEditorClient_ReadUser (ConfigEditor_ExchangeFrame (receiverEditor r)) s = clientSees id (receiver_ReadUser r s)"
  using serviceReadUser.transparent [OF TrueI, of "()" _ r s]
  by (simp add: ConfigEditorClient_ReadUser_def clientSees_wrapped id_def [symmetric])

lemma service_ReplaceUser:
  assumes "validUTF8 expected" and "valid_UserSettings values"
  shows "ConfigEditorClient_ReplaceUser (ConfigEditor_ExchangeFrame (receiverEditor r)) expected values s =
    clientSees id (receiver_ReplaceUser r expected values s)"
  using serviceReplaceUser.transparent [OF TrueI, of "\<lparr>oaConfigEditorReplaceUserArguments.ExpectedRevision = expected,
      Values = values\<rparr>" _ r s] assms
  by (simp add: ConfigEditorClient_ReplaceUser_def clientSees_wrapped valid_oaConfigEditorReplaceUserArguments_def
      id_def [symmetric])

subsection \<open>The reader's method\<close>

definition valid_layers :: "Config \<Rightarrow> bool" where
  "valid_layers c \<longleftrightarrow> valid_Config c \<and>
     fmpred (\<lambda>key r. validUTF8 (ConfigOrigin.Rung r) \<and> validUTF8 (ConfigOrigin.Path r)) (Config.Origins c)"

lemma rungs_valid [simp]: "validUTF8 Machine" "validUTF8 User" "validUTF8 Environment" "validUTF8 Default"
  by (simp_all add: Machine_def User_def Environment_def Default_def lit_valid)

lemma valid_layers_from:
  "valid_layers c \<Longrightarrow> validUTF8 rung \<Longrightarrow> validUTF8 path \<Longrightarrow> valid_layers (Config_from c key rung path)"
  by (auto simp: valid_layers_def valid_Config_def Config_from_def intro: fmpred_upd)

lemma valid_layers_assign: "valid_layers c \<Longrightarrow> validUTF8 v \<Longrightarrow> valid_layers (Config_assign c key v)"
  by (auto simp: valid_layers_def valid_Config_def Config_assign_def)

lemma valid_layers_text: "valid_layers c \<Longrightarrow> Config_text c key = Some p \<Longrightarrow> validUTF8 p"
  by (auto simp: valid_layers_def valid_Config_def Config_text_def split: if_splits)

lemma valid_layers_origin:
  "valid_layers c \<Longrightarrow> validUTF8 (ConfigOrigin.Rung (Config_Origin c key)) \<and> validUTF8 (ConfigOrigin.Path (Config_Origin c key))"
  by (auto simp: valid_layers_def Config_Origin_def dest: fmpredD split: option.split)

lemma valid_layers_zero: "valid_layers Config_zero"
  using valid_Config_zero by (simp add: valid_layers_def Config_zero_def)

lemma valid_layers_mergeConfig:
  assumes "valid_layers over" and "valid_layers base"
  shows "valid_layers (mergeConfig base over)"
  unfolding mergeConfig_def
proof (rule foldl_keeps [where P = valid_layers, OF _ assms(2)])
  fix c key assume c: "valid_layers c"
  then have "valid_layers (c\<lparr>Config.Off := Config.Off over\<rparr>)"
    using assms(1) by (auto simp: valid_layers_def valid_Config_def)
  with c show "valid_layers (mergeKey over c key)"
    using valid_layers_origin [OF assms(1)]
    by (auto simp: mergeKey_def Let_def split: option.split
        intro!: valid_layers_from valid_layers_assign dest: valid_layers_text [OF assms(1)])
qed

lemma valid_layers_applyEnvironment:
  assumes "\<And>name. validUTF8 (environment name)" and "valid_layers c"
  shows "valid_layers (applyEnvironment environment c)"
  unfolding applyEnvironment_def
  by (rule foldl_keeps [where P = valid_layers, OF _ assms(2)])
    (auto simp: environmentKey_def Let_def assms(1) split: option.split intro!: valid_layers_from valid_layers_assign)

lemma valid_layers_mark:
  "valid_layers c \<Longrightarrow> validUTF8 path \<Longrightarrow> validUTF8 rung \<Longrightarrow> valid_layers (foldl (markKey path rung) c ks)"
  by (rule foldl_keeps) (auto simp: markKey_def intro: valid_layers_from)

lemma valid_layers_Unmarshal: "Config_Unmarshal b = Inr c \<Longrightarrow> valid_layers c"
  using Unmarshal_valid [of b c]
  by (auto simp: valid_layers_def Config_Unmarshal_def dest: Config_decode_Origins split: option.splits)

lemma valid_layers_decodeSource:
  "decodeSource b path rung = Inr c \<Longrightarrow> validUTF8 path \<Longrightarrow> validUTF8 rung \<Longrightarrow> valid_layers c"
  by (auto simp: decodeSource_eq split: option.splits sum.splits intro: valid_layers_mark valid_layers_Unmarshal)

lemma valid_layers_loadWithSources:
  assumes "loadWithSources store path machinePath trust readLimit overrides w = (Inr c, w')"
    and "validUTF8 path" and "validUTF8 machinePath" and "\<And>name. validUTF8 (mget overrides name)"
  shows "valid_layers c"
proof -
  let ?machine = "\<lambda>w. if machinePath \<noteq> [] then
      (case readMachineSource (readLimit w) (trust w) machinePath of Inr loaded \<Rightarrow> loaded | Inl e \<Rightarrow> Config_zero)
    else Config_zero"
  let ?user = "\<lambda>b. case decodeSource b path User of Inr user \<Rightarrow> user | Inl e \<Rightarrow> Config_zero"
  have "valid_layers (?machine w)" for w
    using assms(3) by (auto simp: readMachineSource_eq valid_layers_zero split: option.split sum.split
        dest: valid_layers_decodeSource)
  moreover have "valid_layers (?user b)" for b
    using assms(2) by (auto simp: valid_layers_zero split: sum.split dest: valid_layers_decodeSource)
  moreover obtain u v where "c = applyEnvironment (mget overrides)
      (mergeConfig (?machine u) (foldl (markKey path User) (?user (dataIn store v)) Keys))"
    using assms(1) by (cases "readUserValue store path w"; cases "fst (readUserValue store path w)")
      (auto simp: loadWithSources_def Let_def)
  ultimately show ?thesis
    using assms(2,4)
    by (auto intro!: valid_layers_applyEnvironment valid_layers_mergeConfig valid_layers_mark)
qed

lemma overridesMap_valid: "valid_RunOverrides v \<Longrightarrow> validUTF8 (mget (overridesMap v) name)"
  by (auto simp: valid_RunOverrides_def overridesMap_def mget_def)

text \<open>A host whose paths are UTF-8 (and whose loader, when a test replaces it, answers valid configurations).\<close>

definition host_ok :: "('w, 'v, 'p) receiver \<Rightarrow> bool" where
  "host_ok r \<longleftrightarrow> validUTF8 (userPath (host r)) \<and> validUTF8 (MachinePath r) \<and>
     (\<forall>f overrides. loadHook (host r) = Some f \<longrightarrow> valid_layers (f overrides))"

lemma valid_layers_hostLoad:
  "hostLoad r (overridesMap v) w = (Inr c, w') \<Longrightarrow> host_ok r \<Longrightarrow> valid_RunOverrides v \<Longrightarrow> valid_layers c"
  by (auto simp: hostLoad_def host_ok_def overridesMap_valid split: option.splits if_splits
      dest: valid_layers_loadWithSources)

lemma valid_wireSnapshot: "valid_layers c \<Longrightarrow> valid_Snapshot (wireSnapshot c)"
  using valid_layers_origin [of c]
  by (simp add: valid_Snapshot_def wireSnapshot_def valid_Origins_def valid_Origin_def wireOrigin_def Let_def Stamp_valid
      valid_layers_def valid_Config_def)

lemma receiver_Read_valid:
  "receiver_Read r v s = (Returns x, s') \<Longrightarrow> host_ok r \<Longrightarrow> valid_RunOverrides v \<Longrightarrow> valid_Snapshot x"
  by (auto simp: receiver_Read_def split: option.splits prod.splits sum.splits
      intro: valid_wireSnapshot valid_layers_hostLoad)

lemma receiver_Read_fails: "handler_error (fst (receiver_Read r v s)) = Some e \<Longrightarrow> sendable e"
  by (auto simp: receiver_Read_def sendable_words dest: authorize_sendable
      split: option.splits prod.splits sum.splits)

interpretation serviceRead: honest "\<lambda>out v d. Inr (encOAConfigReaderReadArguments out v d)"
    decodeOAConfigReaderReadArguments OAConfigReaderReadArguments_json valid_oaConfigReaderReadArguments 2
    "\<lambda>out v d. Inr (encOAConfigReaderReadResult out v d)"
    decodeOAConfigReaderReadResult OAConfigReaderReadResult_json valid_oaConfigReaderReadResult 4
    readerName "''Read''"
    "\<lambda>args s. apfst (map_handled (\<lambda>result. \<lparr>oaConfigReaderReadResult.Value = result\<rparr>))
       (receiver_Read r (oaConfigReaderReadArguments.Overrides args) s)"
    "ConfigReader_ExchangeFrame (receiverReader r)" "\<lambda>s. host_ok r" for r :: "('w, 'v, 'p) receiver"
  by unfold_locales
    (auto simp: exchange_defs lit_valid receiverReader_def map_handled_Returns valid_oaConfigReaderReadResult_def
      valid_oaConfigReaderReadArguments_def dest: receiver_Read_valid receiver_Read_fails)

lemma service_Read:
  assumes "host_ok r" and "valid_RunOverrides overrides"
  shows "ConfigReaderClient_Read (ConfigReader_ExchangeFrame (receiverReader r)) overrides s =
    clientSees id (receiver_Read r overrides s)"
  using serviceRead.transparent [OF assms(1), of "\<lparr>oaConfigReaderReadArguments.Overrides = overrides\<rparr>" _ s] assms(2)
  by (simp add: ConfigReaderClient_Read_def clientSees_wrapped valid_oaConfigReaderReadArguments_def id_def [symmetric])

end
