(* ===== verification/Observer.thy ===== *)
theory Observer
  imports Service
begin

section \<open>Observation\<close>

text \<open>
  Models \<open>go/service/observer.go\<close>: the observation's set-up (\<open>EnableObservation\<close>, \<open>startObservation\<close>,
  \<open>ObservationAvailable\<close>) and the handler \<open>Observe\<close> with its cursor. The client's side,
  \<open>ObserveContext\<close> of \<open>go/client/observer.go\<close>, checks the answer.

  While a call waits, other programs act. What the \<open>select\<close> will see is a schedule: the wakes by a
  change, in order, each with what happened to the store, the subscribers and the source, and at
  last the timer, which Go fires after \<open>waitMS\<close>, or the end of the caller's context. The slots held
  by other calls are those counted at the start of the call.
\<close>

subsection \<open>Cursors\<close>

definition observationRequest :: "RunOverrides \<Rightarrow> bytes \<Rightarrow> u64 \<Rightarrow> bool" where
  "observationRequest overrides cursor waitMS =
     (if waitMS <s 0 \<or> 30000 <s waitMS \<or> 512 < length cursor \<or> \<not> validUTF8 cursor then False
      else list_all (\<lambda>v. \<not> (4096 < length v \<or> \<not> validUTF8 v))
        [RunOverrides.NasStore overrides, RunOverrides.Store overrides, RunOverrides.LogSink overrides,
         RunOverrides.LogService overrides])"

text \<open>\<open>json.Marshal\<close> of the overrides: the record has no tags.\<close>

definition overridesText :: "RunOverrides \<Rightarrow> bytes" where
  "overridesText v = goWrite compact 0 (Vobj
     [(lit ''NasStore'', Vstr (RunOverrides.NasStore v)), (lit ''Store'', Vstr (RunOverrides.Store v)),
      (lit ''LogSink'', Vstr (RunOverrides.LogSink v)), (lit ''LogService'', Vstr (RunOverrides.LogService v))])"

definition observationBinding :: "RunOverrides \<Rightarrow> bytes" where
  "observationBinding overrides = hexEncode (sum256 (overridesText overrides))"

text \<open>\<open>strings.Split\<close> on a byte, and whether \<open>hex.DecodeString\<close> accepts.\<close>

fun splitOn :: "byte \<Rightarrow> bytes \<Rightarrow> bytes list" where
  "splitOn c [] = [[]]"
| "splitOn c (x # xs) =
     (if x = c then [] # splitOn c xs
      else (case splitOn c xs of [] \<Rightarrow> [[x]] | p # ps \<Rightarrow> (x # p) # ps))"

definition hexText :: "bytes \<Rightarrow> bool" where
  "hexText s \<longleftrightarrow> even (length s) \<and> list_all (\<lambda>c.
     ch CHR ''0'' \<le> c \<and> c \<le> ch CHR ''9'' \<or> ch CHR ''a'' \<le> c \<and> c \<le> ch CHR ''f'' \<or> ch CHR ''A'' \<le> c \<and> c \<le> ch CHR ''F'') s"

definition cursorOf :: "bytes \<Rightarrow> RunOverrides \<Rightarrow> Snapshot \<Rightarrow> bytes" where
  "cursorOf start overrides snapshot =
     start @ lit '':'' @ observationBinding overrides @ lit '':'' @ hexEncode (sum256 (Encode snapshot))"

subsection \<open>The source\<close>

datatype 'w ending = Expires "'w \<Rightarrow> 'w" | Ends "'w \<Rightarrow> 'w"

type_synonym 'w wake = "('w \<Rightarrow> 'w) \<times> (watchState \<Rightarrow> watchState) \<times> bool"

text \<open>\<open>StartSource\<close> is the call of the source: whether it gave a channel and a stop without an error.\<close>

record ('w, 'v, 'p) observer =
  receiver :: "('w, 'v, 'p) receiver"
  Random :: "'w \<Rightarrow> bytes option"
  StartSource :: "'w \<Rightarrow> bool \<times> 'w"
  WaitErr :: "'w \<Rightarrow> bytes option"
  Schedule :: "'w \<Rightarrow> 'w wake list \<times> 'w ending"

definition EnableObservation :: "observationState \<Rightarrow> bytes + observationState" where
  "EnableObservation o' =
     (if serving o' \<or> initialized o' then Inl (lit ''config: observation already serving'')
      else Inr (o'\<lparr>configured := True\<rparr>))"

definition ObservationAvailable :: "observationState \<Rightarrow> bool" where
  "ObservationAvailable o' \<longleftrightarrow> \<not> cancelled o' \<and> configured o' \<and> \<not> failed o'"

definition startObservation :: "('w, 'v, 'p) observer \<Rightarrow> 'w hostState \<Rightarrow> bool \<times> 'w hostState" where
  "startObservation d s =
     (let o' = observation s in
      if cancelled o' then (False, s)
      else if \<not> configured o' then (False, s)
      else if initialized o' then (\<not> failed o', s)
      else
        (let o' = o'\<lparr>initialized := True\<rparr> in
         case Random d (world s) of
           None \<Rightarrow> (False, s\<lparr>observation := o'\<lparr>failed := True\<rparr>\<rparr>)
         | Some r \<Rightarrow>
             (let o' = o'\<lparr>epoch := hexEncode r, slots := 0\<rparr> in
              case StartSource d (world s) of
                (False, w) \<Rightarrow> (False, s\<lparr>world := w, observation := o'\<lparr>failed := True\<rparr>\<rparr>)
              | (True, w) \<Rightarrow> (True, s\<lparr>world := w, observation := o'\<rparr>))))"

subsection \<open>The handler\<close>

definition refusal :: "bytes \<Rightarrow> u32 \<Rightarrow> ConfigObservation handled" where
  "refusal cursor outcome =
     Returns \<lparr>ConfigObservation.Outcome = outcome, Cursor = cursor, Snapshot = None\<rparr>"

definition wakeUp :: "'w wake \<Rightarrow> 'w hostState \<Rightarrow> 'w hostState" where
  "wakeUp k s = (case k of (f, g, broken) \<Rightarrow>
     s\<lparr>world := f (world s), live := g (live s),
       observation := (observation s)\<lparr>failed := failed (observation s) \<or> broken\<rparr>\<rparr>)"

definition release :: "bool \<Rightarrow> 'w hostState \<Rightarrow> 'w hostState" where
  "release held s =
     (if held then s\<lparr>observation := (observation s)\<lparr>slots := slots (observation s) - 1\<rparr>\<rparr> else s)"

text \<open>One turn of the loop, up to the \<open>select\<close>: an answer, or the state it waits in.\<close>

definition observeTurn ::
    "('w, 'v, 'p) observer \<Rightarrow> RunOverrides \<Rightarrow> bytes \<Rightarrow> bool \<Rightarrow> bool \<Rightarrow> 'w hostState
      \<Rightarrow> ConfigObservation handled option \<times> bool \<times> 'w hostState" where
  "observeTurn d overrides cursor expired held s =
     (case WaitErr d (world s) of Some e \<Rightarrow> (Some (Fails (ErrOther e)), held, s)
      | None \<Rightarrow>
        if failed (observation s) then (Some (refusal cursor ConfigObservationOutcomeUnavailable), held, s)
        else (case receiver_Read (receiver d) overrides s of
            (Returns snapshot, s) \<Rightarrow>
              (let new = cursorOf (epoch (observation s)) overrides snapshot in
               case authorize (receiver d) (world s) of Some e \<Rightarrow> (Some (Fails e), held, s)
               | None \<Rightarrow>
                 if new \<noteq> cursor then
                   (Some (Returns \<lparr>ConfigObservation.Outcome = ConfigObservationOutcomeSnapshot, Cursor = new,
                      Snapshot = Some snapshot\<rparr>), held, s)
                 else if expired then (Some (refusal cursor ConfigObservationOutcomeUnchanged), held, s)
                 else if \<not> held \<and> 32 \<le> slots (observation s)
                 then (Some (refusal cursor ConfigObservationOutcomeUnavailable), held, s)
                 else (None, True,
                   if held then s else s\<lparr>observation := (observation s)\<lparr>slots := slots (observation s) + 1\<rparr>\<rparr>))
          | (Fails e, s) \<Rightarrow> (Some (Fails e), held, s)
          | (PanicsRefusal e, s) \<Rightarrow> (Some (PanicsRefusal e), held, s)
          | (Panics, s) \<Rightarrow> (Some Panics, held, s)))"

text \<open>The loop, with the deferred release of the slot. After the timer the turn always answers.\<close>

fun observeLoop ::
    "('w, 'v, 'p) observer \<Rightarrow> RunOverrides \<Rightarrow> bytes \<Rightarrow> bool \<Rightarrow> bool \<Rightarrow> 'w wake list \<Rightarrow> 'w ending \<Rightarrow> 'w hostState
      \<Rightarrow> ConfigObservation handled \<times> 'w hostState" where
  "observeLoop d overrides cursor expired held wakes ending s =
     (case observeTurn d overrides cursor expired held s of
        (Some h, held, s) \<Rightarrow> (h, release held s)
      | (None, held, s) \<Rightarrow>
          (case wakes of
             k # ks \<Rightarrow> observeLoop d overrides cursor expired held ks ending (wakeUp k s)
           | [] \<Rightarrow>
               (case ending of
                  Expires f \<Rightarrow>
                    (case observeTurn d overrides cursor True held (wakeUp (f, id, False) s) of
                       (Some h, held, s) \<Rightarrow> (h, release held s)
                     | (None, held, s) \<Rightarrow> (Panics, release held s))
                | Ends f \<Rightarrow>
                    (let s = wakeUp (f, id, False) s in
                     (Fails (ErrOther (case WaitErr d (world s) of Some e \<Rightarrow> e | None \<Rightarrow> [])), release held s)))))"

definition checkCursor :: "bytes \<Rightarrow> RunOverrides \<Rightarrow> bytes \<Rightarrow> u32 option" where
  "checkCursor start overrides cursor =
     (if cursor = [] then None
      else (let parts = splitOn (ch CHR '':'') cursor in
        if length parts \<noteq> 3 \<or> length (parts ! 0) \<noteq> 32 \<or> length (parts ! 1) \<noteq> 64 \<or> length (parts ! 2) \<noteq> 64
        then Some ConfigObservationOutcomeInvalid
        else if \<not> list_all hexText parts then Some ConfigObservationOutcomeInvalid
        else if parts ! 0 \<noteq> start \<or> parts ! 1 \<noteq> observationBinding overrides
        then Some ConfigObservationOutcomeGap
        else None))"

definition receiver_Observe ::
    "('w, 'v, 'p) observer \<Rightarrow> RunOverrides \<Rightarrow> bytes \<Rightarrow> u64 \<Rightarrow> 'w hostState \<Rightarrow> ConfigObservation handled \<times> 'w hostState" where
  "receiver_Observe d overrides cursor waitMS s =
     (case authorize (receiver d) (world s) of Some e \<Rightarrow> (Fails e, s)
      | None \<Rightarrow>
        if \<not> observationRequest overrides cursor waitMS then (refusal cursor ConfigObservationOutcomeInvalid, s)
        else if \<not> configured (observation s) then (refusal cursor ConfigObservationOutcomeUnsupported, s)
        else (case startObservation d s of
            (False, s) \<Rightarrow> (refusal cursor ConfigObservationOutcomeUnavailable, s)
          | (True, s) \<Rightarrow>
              (case checkCursor (epoch (observation s)) overrides cursor of
                 Some outcome \<Rightarrow> (refusal cursor outcome, s)
               | None \<Rightarrow>
                   (case Schedule d (world s) of (wakes, ending) \<Rightarrow>
                      observeLoop d overrides cursor (waitMS = 0) False wakes ending s))))"

definition receiverObserver :: "('w, 'v, 'p) observer \<Rightarrow> 'w hostState ConfigObserver" where
  "receiverObserver d = \<lparr>ConfigObserver.Observe = receiver_Observe d, ObserverInfo = plainInfo\<rparr>"

subsection \<open>The client's check\<close>

definition malformedObservation :: "bytes \<Rightarrow> ConfigObservation \<Rightarrow> bytes option" where
  "malformedObservation cursor result =
     (if ConfigObservation.Outcome result = ConfigObservationOutcomeSnapshot then
        (if ConfigObservation.Snapshot result = None \<or> ConfigObservation.Cursor result = []
            \<or> ConfigObservation.Cursor result = cursor \<or> 512 < length (ConfigObservation.Cursor result)
         then Some (lit ''config: malformed observation snapshot'') else None)
      else if ConfigObservation.Snapshot result \<noteq> None \<or> ConfigObservation.Cursor result \<noteq> cursor
          \<or> (ConfigObservation.Outcome result = ConfigObservationOutcomeUnchanged \<and> cursor = [])
      then Some (lit ''config: observation refusal changed cursor'') else None)"

definition ObserveContext ::
    "'s exchange \<Rightarrow> bytes option \<Rightarrow> RunOverrides \<Rightarrow> bytes \<Rightarrow> u64 \<Rightarrow> 's \<Rightarrow> (goerror + ConfigObservation) \<times> 's" where
  "ObserveContext transport ctxErr overrides cursor waitMS s =
     (case ctxErr of Some e \<Rightarrow> (Inl (ErrOther e), s)
      | None \<Rightarrow>
        if waitMS <s 0 \<or> 30000 <s waitMS \<or> 512 < length cursor \<or> \<not> validUTF8 cursor
        then (Inl (ErrOther (lit ''config: invalid observation bounds'')), s)
        else if list_ex (\<lambda>v. 4096 < length v) [RunOverrides.NasStore overrides, RunOverrides.Store overrides,
            RunOverrides.LogSink overrides, RunOverrides.LogService overrides]
        then (Inl (ErrOther (lit ''config: oversized override'')), s)
        else (case ConfigObserverClient_Observe transport overrides cursor waitMS s of
            (Inl e, s) \<Rightarrow> (Inl e, s)
          | (Inr result, s) \<Rightarrow>
              (case malformedObservation cursor result of
                 Some e \<Rightarrow> (Inl (ErrOther e), s)
               | None \<Rightarrow> (Inr result, s))))"

subsection \<open>Cursors read back\<close>

lemma splitOn_append: "c \<notin> set a \<Longrightarrow> splitOn c (a @ c # b) = a # splitOn c b"
  by (induction a) auto

lemma splitOn_whole: "c \<notin> set a \<Longrightarrow> splitOn c a = [a]"
  by (induction a) auto

lemma hexEncode_no_colon: "ch CHR '':'' \<notin> set (hexEncode s)"
proof -
  have "ch CHR '':'' \<notin> set hexdigits" by (simp add: hexdigits_def lit_Cons)
  then show ?thesis using hexEncode_digits by blast
qed

lemma hexText_hexEncode: "hexText (hexEncode s)"
proof -
  have "list_all (\<lambda>c. ch CHR ''0'' \<le> c \<and> c \<le> ch CHR ''9'' \<or> ch CHR ''a'' \<le> c \<and> c \<le> ch CHR ''f''
      \<or> ch CHR ''A'' \<le> c \<and> c \<le> ch CHR ''F'') hexdigits"
    by code_simp
  then show ?thesis
    using hexEncode_digits [of _ s] by (simp add: hexText_def list_all_iff length_hexEncode)
qed

text \<open>A cursor of this host for these overrides passes the check; the three parts come back.\<close>

lemma splitOn_cursorOf:
  "splitOn (ch CHR '':'') (cursorOf (hexEncode r) overrides snapshot) =
    [hexEncode r, observationBinding overrides, hexEncode (sum256 (Encode snapshot))]"
  using splitOn_append [OF hexEncode_no_colon] splitOn_whole [OF hexEncode_no_colon]
  by (simp add: cursorOf_def observationBinding_def lit_Cons)

lemma length_cursorOf: "length r = 16 \<Longrightarrow> length (cursorOf (hexEncode r) overrides snapshot) = 162"
  by (simp add: cursorOf_def observationBinding_def length_hexEncode length_sum256)

lemma cursorOf_valid: "validUTF8 (cursorOf (hexEncode r) overrides snapshot)"
  by (simp add: cursorOf_def observationBinding_def validUTF8_append hexEncode_valid lit_valid)

lemma cursorOf_nonempty [simp]: "cursorOf start overrides snapshot \<noteq> []"
  by (simp add: cursorOf_def)

lemma checkCursor_cursorOf:
  assumes "length r = 16" and "length r' = 16"
  shows "checkCursor (hexEncode r') overrides' (cursorOf (hexEncode r) overrides snapshot) =
    (if hexEncode r \<noteq> hexEncode r' \<or> observationBinding overrides \<noteq> observationBinding overrides'
     then Some ConfigObservationOutcomeGap else None)"
  using assms unfolding checkCursor_def Let_def
  by (simp add: splitOn_cursorOf [simplified] hexText_hexEncode)
    (simp add: observationBinding_def hexText_hexEncode length_hexEncode length_sum256)

subsection \<open>The loop\<close>

definition source_ok :: "observationState \<Rightarrow> bool" where
  "source_ok o' \<longleftrightarrow> initialized o' \<longrightarrow> (\<exists>r. length r = 16 \<and> epoch o' = hexEncode r)"

definition observer_ok :: "('w, 'v, 'p) observer \<Rightarrow> bool" where
  "observer_ok d \<longleftrightarrow> host_ok (receiver d) \<and> (\<forall>w r. Random d w = Some r \<longrightarrow> length r = 16)"

lemma receiver_Read_observation: "receiver_Read r overrides s = (h, s') \<Longrightarrow> observation s' = observation s"
  by (auto simp: receiver_Read_def split: option.splits prod.splits sum.splits)

lemma receiver_Read_calm: "receiver_Read r overrides s = (h, s') \<Longrightarrow> h \<noteq> Panics \<and> h \<noteq> PanicsRefusal e"
  by (auto simp: receiver_Read_def split: option.splits prod.splits sum.splits)

lemma observeTurn_observation:
  assumes "observeTurn d overrides cursor expired held s = (h, held', s')"
  shows "observation s' = (observation s)\<lparr>slots := slots (observation s) + (if h = None \<and> \<not> held then 1 else 0)\<rparr>
    \<and> (h = None \<longrightarrow> held' \<and> \<not> expired) \<and> (h \<noteq> None \<longrightarrow> held' = held)"
  using assms
  by (auto simp: observeTurn_def Let_def dest: receiver_Read_observation split: option.splits if_splits prod.splits handled.splits)

lemma wakeUp_observation [simp]:
  "epoch (observation (wakeUp k s)) = epoch (observation s)" "slots (observation (wakeUp k s)) = slots (observation s)"
  "initialized (observation (wakeUp k s)) = initialized (observation s)"
  "configured (observation (wakeUp k s)) = configured (observation s)"
  "cancelled (observation (wakeUp k s)) = cancelled (observation s)"
  by (auto simp: wakeUp_def split: prod.splits)

text \<open>Every answer of the loop is the answer of one of its turns, or the end of the caller's context.\<close>

lemma observeLoop_answer:
  "observeLoop d overrides cursor expired held wakes ending s = (h, s') \<Longrightarrow>
   (\<exists>expired held held' u v. observeTurn d overrides cursor expired held u = (Some h, held', v)
      \<and> epoch (observation u) = epoch (observation s) \<and> s' = release held' v) \<or> (\<exists>e. h = Fails (ErrOther e))"
proof (induction wakes arbitrary: held s)
  case Nil
  obtain x held1 s1 where x: "observeTurn d overrides cursor expired held s = (x, held1, s1)" by (metis prod.collapse)
  show ?case
  proof (cases x)
    case (Some y)
    with Nil x show ?thesis
      by (intro disjI1 exI [of _ expired] exI [of _ held] exI [of _ held1] exI [of _ s] exI [of _ s1]) simp
  next
    case None
    show ?thesis
    proof (cases ending)
      case (Expires f)
      obtain y held2 s2 where y: "observeTurn d overrides cursor True held1 (wakeUp (f, id, False) s1) = (y, held2, s2)"
        by (metis prod.collapse)
      with observeTurn_observation [OF y] obtain z where "y = Some z" by auto
      with Nil x None Expires y observeTurn_observation [OF x] show ?thesis
        by (intro disjI1 exI [of _ True] exI [of _ held1] exI [of _ held2] exI [of _ "wakeUp (f, id, False) s1"] exI [of _ s2])
          simp
    next
      case (Ends f)
      with Nil x None show ?thesis by (auto simp: Let_def)
    qed
  qed
next
  case (Cons k ks)
  obtain x held1 s1 where x: "observeTurn d overrides cursor expired held s = (x, held1, s1)" by (metis prod.collapse)
  show ?case
  proof (cases x)
    case (Some y)
    with Cons.prems x show ?thesis
      by (intro disjI1 exI [of _ expired] exI [of _ held] exI [of _ held1] exI [of _ s] exI [of _ s1]) simp
  next
    case None
    with Cons.prems x have "observeLoop d overrides cursor expired held1 ks ending (wakeUp k s1) = (h, s')" by simp
    from Cons.IH [OF this] observeTurn_observation [OF x] show ?thesis by auto
  qed
qed

text \<open>A call gives back the slot it took, and leaves the source as it is.\<close>

definition same_source :: "observationState \<Rightarrow> observationState \<Rightarrow> bool" where
  "same_source a b \<longleftrightarrow> epoch b = epoch a \<and> initialized b = initialized a \<and> configured b = configured a
     \<and> cancelled b = cancelled a"

lemma observeLoop_slots:
  "observeLoop d overrides cursor expired held wakes ending s = (h, s') \<Longrightarrow> held \<longrightarrow> 0 < slots (observation s) \<Longrightarrow>
   slots (observation s') = slots (observation s) - (if held then 1 else 0) \<and> same_source (observation s) (observation s')"
proof (induction wakes arbitrary: held s)
  case Nil
  obtain x held1 s1 where x: "observeTurn d overrides cursor expired held s = (x, held1, s1)" by (metis prod.collapse)
  obtain f where f: "ending = Expires f \<or> ending = Ends f" by (cases ending) auto
  obtain y held2 s2 where y: "observeTurn d overrides cursor True held1 (wakeUp (f, id, False) s1) = (y, held2, s2)"
    by (metis prod.collapse)
  from Nil x y f observeTurn_observation [OF x] observeTurn_observation [OF y] show ?case
    by (cases x; cases y) (auto simp: release_def Let_def same_source_def split: if_splits)
next
  case (Cons k ks)
  obtain x held1 s1 where x: "observeTurn d overrides cursor expired held s = (x, held1, s1)" by (metis prod.collapse)
  show ?case
  proof (cases x)
    case (Some y)
    with Cons.prems x observeTurn_observation [OF x] show ?thesis by (auto simp: release_def same_source_def)
  next
    case None
    with Cons.prems x have l: "observeLoop d overrides cursor expired held1 ks ending (wakeUp k s1) = (h, s')" by simp
    from None observeTurn_observation [OF x] have "held1 \<longrightarrow> 0 < slots (observation (wakeUp k s1))"
      using Cons.prems(2) by auto
    from Cons.IH [OF l this] None observeTurn_observation [OF x] Cons.prems(2) show ?thesis
      by (auto simp: same_source_def)
  qed
qed

subsection \<open>What the handler answers\<close>

lemma observation_outcomes [simp]:
  "ConfigObservationOutcome_Known ConfigObservationOutcomeSnapshot"
  "ConfigObservationOutcome_Known ConfigObservationOutcomeUnchanged"
  "ConfigObservationOutcome_Known ConfigObservationOutcomeGap"
  "ConfigObservationOutcome_Known ConfigObservationOutcomeUnavailable"
  "ConfigObservationOutcome_Known ConfigObservationOutcomeUnsupported"
  "ConfigObservationOutcome_Known ConfigObservationOutcomeInvalid"
  by (simp_all add: ConfigObservationOutcome_Known_iff ConfigObservationOutcomeValues_def)

text \<open>An answer the client accepts.\<close>

definition acceptable :: "bytes \<Rightarrow> ConfigObservation \<Rightarrow> bool" where
  "acceptable cursor x \<longleftrightarrow> valid_ConfigObservation x \<and> malformedObservation cursor x = None"

lemma refusal_acceptable:
  assumes "refusal cursor outcome = Returns x" and "ConfigObservationOutcome_Known outcome" and "validUTF8 cursor"
    and "outcome \<noteq> ConfigObservationOutcomeSnapshot" and "outcome = ConfigObservationOutcomeUnchanged \<longrightarrow> cursor \<noteq> []"
  shows "acceptable cursor x"
  using assms by (auto simp: refusal_def acceptable_def valid_ConfigObservation_def malformedObservation_def)

declare observeLoop.simps [simp del]

lemma startObservation_started:
  "startObservation d s = (True, s') \<Longrightarrow> observer_ok d \<Longrightarrow> source_ok (observation s) \<Longrightarrow>
   initialized (observation s') \<and> (\<exists>r. length r = 16 \<and> epoch (observation s') = hexEncode r)"
  by (auto simp: startObservation_def Let_def source_ok_def observer_ok_def
      split: if_splits option.splits prod.splits bool.splits) blast

text \<open>What a turn answers: it refuses, or it read a snapshot whose cursor is or is not the caller's.\<close>

lemma observeTurn_returns:
  assumes "observeTurn d overrides cursor expired held u = (Some (Returns x), held', v)"
  obtains (refused) "refusal cursor ConfigObservationOutcomeUnavailable = Returns x"
  | (moved) y where "receiver_Read (receiver d) overrides u = (Returns y, v)"
      and "cursorOf (epoch (observation u)) overrides y \<noteq> cursor"
      and "x = \<lparr>ConfigObservation.Outcome = ConfigObservationOutcomeSnapshot,
        Cursor = cursorOf (epoch (observation u)) overrides y, Snapshot = Some y\<rparr>"
  | (same) y where "receiver_Read (receiver d) overrides u = (Returns y, v)"
      and "cursorOf (epoch (observation u)) overrides y = cursor" and expired
      and "refusal cursor ConfigObservationOutcomeUnchanged = Returns x"
  using assms
  by (auto simp: observeTurn_def Let_def dest: receiver_Read_observation
      split: option.splits if_splits prod.splits handled.splits)

lemma observeTurn_acceptable:
  assumes "observeTurn d overrides cursor expired held u = (Some (Returns x), held', v)"
    and "epoch (observation u) = hexEncode r" and "length r = 16" and "host_ok (receiver d)"
    and "valid_RunOverrides overrides" and "validUTF8 cursor"
  shows "acceptable cursor x"
proof -
  have new: "acceptable cursor \<lparr>ConfigObservation.Outcome = ConfigObservationOutcomeSnapshot,
      Cursor = cursorOf (hexEncode r) overrides y, Snapshot = Some y\<rparr>"
    if "cursorOf (hexEncode r) overrides y \<noteq> cursor" "valid_Snapshot y" for y
    using that length_cursorOf [OF assms(3)]
    by (simp add: acceptable_def valid_ConfigObservation_def malformedObservation_def cursorOf_valid)
  from assms(1) show ?thesis
  proof (cases rule: observeTurn_returns)
    case refused
    then show ?thesis by (rule refusal_acceptable) (simp_all add: assms(6), simp_all add: ConfigObservationOutcome_tags)
  next
    case (moved y)
    with new [of y] assms(2) receiver_Read_valid [OF moved(1) assms(4,5)] show ?thesis by simp
  next
    case (same y)
    from same(4) show ?thesis
      by (rule refusal_acceptable) (use same(2) in \<open>auto simp: assms(6)\<close>, simp_all add: ConfigObservationOutcome_tags)
  qed
qed

lemma receiver_Observe_acceptable:
  assumes "receiver_Observe d overrides cursor waitMS s = (Returns x, s')" and d: "observer_ok d"
    and s: "source_ok (observation s)" and a: "valid_RunOverrides overrides" "validUTF8 cursor"
  shows "acceptable cursor x"
proof -
  have refused: "acceptable cursor x" if "refusal cursor outcome = Returns x"
    "outcome \<in> {ConfigObservationOutcomeGap, ConfigObservationOutcomeUnavailable, ConfigObservationOutcomeUnsupported,
        ConfigObservationOutcomeInvalid}" for outcome
    by (rule refusal_acceptable [OF that(1) _ a(2)])
      (use that(2) in \<open>auto\<close>, simp_all add: ConfigObservationOutcome_tags)
  have checked: "outcome \<in> {ConfigObservationOutcomeGap, ConfigObservationOutcomeInvalid}"
    if "checkCursor start overrides cursor = Some outcome" for start outcome
    using that by (auto simp: checkCursor_def Let_def split: if_splits)
  show ?thesis
  proof (cases "startObservation d s")
    case (Pair started s1)
    have loop: "acceptable cursor x"
      if l: "observeLoop d overrides cursor (waitMS = 0) False wakes ending s1 = (Returns x, s')" and started for wakes ending
    proof -
      obtain r where r: "length r = 16" "epoch (observation s1) = hexEncode r"
        using startObservation_started [OF _ d s] Pair \<open>started\<close> by metis
      with observeLoop_answer [OF l] observeTurn_acceptable [of d overrides cursor _ _ _ x _ _ r] d a show ?thesis
        unfolding observer_ok_def by (metis handled.distinct(1))
    qed
    show ?thesis
      using assms(1) Pair
      by (auto simp: receiver_Observe_def split: option.splits if_splits bool.splits prod.splits
          intro: refused loop dest!: checked)
  qed
qed

lemma sendable_other: "sendable (ErrOther e)"
  by (simp add: sendable_def valid_oaServiceError_def lit_valid)

lemma observeTurn_fails:
  "observeTurn d overrides cursor expired held u = (Some h, held', v) \<Longrightarrow> handler_error h = Some e \<Longrightarrow> sendable e"
  using receiver_Read_fails [of "receiver d" overrides u]
  by (auto simp: observeTurn_def Let_def sendable_other refusal_def dest: authorize_sendable
      split: option.splits if_splits prod.splits handled.splits)

lemma receiver_Observe_fails:
  assumes "handler_error (fst (receiver_Observe d overrides cursor waitMS s)) = Some e"
  shows "sendable e"
proof -
  have loop: "sendable e" if "handler_error (fst (observeLoop d overrides cursor expired held wakes ending t)) = Some e"
    for expired held wakes ending t
    using that observeTurn_fails sendable_other observeLoop_answer [of d overrides cursor expired held wakes ending t]
    by (metis handler_error.simps(2) option.inject prod.collapse)
  show ?thesis
    using assms
    by (auto simp: receiver_Observe_def refusal_def dest: authorize_sendable loop
        split: option.splits if_splits prod.splits bool.splits)
qed

subsection \<open>A cursor that was handed out\<close>

lemma observed_snapshot:
  assumes "receiver_Observe d overrides cursor waitMS s = (Returns x, s')"
    and "ConfigObservation.Outcome x = ConfigObservationOutcomeSnapshot"
    and d: "observer_ok d" and s: "source_ok (observation s)"
  shows "observationRequest overrides cursor waitMS \<and> initialized (observation s') \<and>
    (\<exists>r y. length r = 16 \<and> epoch (observation s') = hexEncode r
      \<and> ConfigObservation.Cursor x = cursorOf (hexEncode r) overrides y \<and> ConfigObservation.Snapshot x = Some y)"
proof -
  have no: "refusal cursor outcome \<noteq> Returns x" if "outcome \<noteq> ConfigObservationOutcomeSnapshot" for outcome
    using that assms(2) by (auto simp: refusal_def)
  have checked: "outcome \<noteq> ConfigObservationOutcomeSnapshot" if "checkCursor start overrides cursor = Some outcome"
    for start outcome
    using that by (auto simp: checkCursor_def Let_def ConfigObservationOutcome_tags split: if_splits)
  obtain started s1 where s1: "startObservation d s = (started, s1)" by fastforce
  obtain wakes ending where k: "Schedule d (world s1) = (wakes, ending)" by fastforce
  have request: "observationRequest overrides cursor waitMS"
    and loop: "observeLoop d overrides cursor (waitMS = 0) False wakes ending s1 = (Returns x, s')" and started
    using assms(1) s1 k no checked
    by (auto simp: receiver_Observe_def ConfigObservationOutcome_tags split: option.splits if_splits bool.splits)
  then obtain r where r: "length r = 16" "epoch (observation s1) = hexEncode r" "initialized (observation s1)"
    using startObservation_started [OF _ d s] s1 by metis
  have same: "same_source (observation s1) (observation s')" using observeLoop_slots [OF loop] by simp
  obtain expired held held' u v where turn: "observeTurn d overrides cursor expired held u = (Some (Returns x), held', v)"
    and u: "epoch (observation u) = epoch (observation s1)"
    using observeLoop_answer [OF loop] by blast
  from turn obtain y where "x = \<lparr>ConfigObservation.Outcome = ConfigObservationOutcomeSnapshot,
      Cursor = cursorOf (epoch (observation u)) overrides y, Snapshot = Some y\<rparr>"
    by (cases rule: observeTurn_returns) (use no in \<open>auto simp: ConfigObservationOutcome_tags\<close>)
  with request same r u show ?thesis by (auto simp: same_source_def)
qed

lemma wait_zero: "\<not> (30000 :: u64) <s 0"
  by code_simp

lemma observationRequest_again:
  "observationRequest overrides cursor waitMS \<Longrightarrow> length c \<le> 512 \<Longrightarrow> validUTF8 c \<Longrightarrow> observationRequest overrides c 0"
  by (simp add: observationRequest_def wait_zero split: if_splits)

lemma observe_known_cursor:
  assumes r: "length r = 16" "epoch (observation s) = hexEncode r"
    and s: "initialized (observation s)" "configured (observation s)" "\<not> cancelled (observation s)"
      "\<not> failed (observation s)" "WaitErr d (world s) = None"
    and request: "observationRequest overrides cursor waitMS" and c: "c = cursorOf (hexEncode r) overrides x"
    and read: "receiver_Read (receiver d) overrides s = (Returns y, s')"
    and "authorize (receiver d) (world s') = None"
  shows "receiver_Observe d overrides c 0 s =
    (if cursorOf (hexEncode r) overrides y = c then refusal c ConfigObservationOutcomeUnchanged
     else Returns \<lparr>ConfigObservation.Outcome = ConfigObservationOutcomeSnapshot,
       Cursor = cursorOf (hexEncode r) overrides y, Snapshot = Some y\<rparr>, s')"
proof -
  have "authorize (receiver d) (world s) = None"
    using read by (auto simp: receiver_Read_def split: option.splits)
  moreover have "observationRequest overrides c 0"
    using observationRequest_again [OF request] c length_cursorOf [OF r(1)] cursorOf_valid by simp
  moreover have "startObservation d s = (True, s)" using s by (simp add: startObservation_def Let_def)
  moreover have "checkCursor (hexEncode r) overrides c = None"
    using checkCursor_cursorOf [OF r(1) r(1)] c by simp
  moreover have "epoch (observation s') = hexEncode r" using receiver_Read_observation [OF read] r(2) by simp
  ultimately show ?thesis
    using assms
    by (auto simp: receiver_Observe_def observeLoop.simps observeTurn_def release_def split: prod.split)
qed

interpretation serviceObserve: honest "\<lambda>out v d. Inr (encOAConfigObserverObserveArguments out v d)"
    decodeOAConfigObserverObserveArguments OAConfigObserverObserveArguments_json
    valid_oaConfigObserverObserveArguments 2
    encOAConfigObserverObserveResult
    decodeOAConfigObserverObserveResult OAConfigObserverObserveResult_json
    valid_oaConfigObserverObserveResult 5
    observerName "''Observe''"
    "\<lambda>args s. apfst (map_handled (\<lambda>result. \<lparr>oaConfigObserverObserveResult.Value = result\<rparr>))
       (receiver_Observe d (oaConfigObserverObserveArguments.Overrides args)
         (oaConfigObserverObserveArguments.Cursor args) (oaConfigObserverObserveArguments.WaitMs args) s)"
    "ConfigObserver_ExchangeFrame (receiverObserver d)" "\<lambda>s. observer_ok d \<and> source_ok (observation s)"
  for d :: "('w, 'v, 'p) observer"
  by unfold_locales
    (auto simp: exchange_defs lit_valid receiverObserver_def map_handled_Returns valid_oaConfigObserverObserveResult_def
      valid_oaConfigObserverObserveArguments_def acceptable_def
      dest: receiver_Observe_acceptable receiver_Observe_fails)

lemma service_Observe:
  assumes "observer_ok d" and "source_ok (observation s)" and "valid_RunOverrides overrides" and "validUTF8 cursor"
  shows "ConfigObserverClient_Observe (ConfigObserver_ExchangeFrame (receiverObserver d)) overrides cursor waitMS s =
    clientSees id (receiver_Observe d overrides cursor waitMS s)"
  using serviceObserve.transparent [of d s "\<lparr>oaConfigObserverObserveArguments.Overrides = overrides, Cursor = cursor,
      WaitMs = waitMS\<rparr>"] assms
  by (simp add: ConfigObserverClient_Observe_def clientSees_wrapped valid_oaConfigObserverObserveArguments_def
      id_def [symmetric])

end
