(* ===== verification/HostSpec.thy ===== *)
theory HostSpec
  imports Observer
begin

section \<open>The host\<close>

text \<open>
  What \<open>Serve\<close> of \<open>go/service/service.go\<close> does with one received frame: \<open>ServeEndpoint\<close> over the three
  dispatchers of one receiver. The properties are those of the whole path, from a client of
  \<open>go/client\<close> through the wire, the endpoint and the receiver to the store and back.
\<close>

definition servedReader :: "'s ConfigReader \<Rightarrow> 's ServedService" where
  "servedReader d = \<lparr>described = dispatcherService readerName (ReaderInfo d), ServiceContract = readerName,
     exchanger = Some (ConfigReader_ExchangeFrame d)\<rparr>"

definition servedEditor :: "'s ConfigEditor \<Rightarrow> 's ServedService" where
  "servedEditor d = \<lparr>described = dispatcherService editorName (EditorInfo d), ServiceContract = editorName,
     exchanger = Some (ConfigEditor_ExchangeFrame d)\<rparr>"

definition servedObserver :: "'s ConfigObserver \<Rightarrow> 's ServedService" where
  "servedObserver d = \<lparr>described = dispatcherService observerName (ObserverInfo d), ServiceContract = observerName,
     exchanger = Some (ConfigObserver_ExchangeFrame d)\<rparr>"

definition serveFrame :: "('w, 'v, 'p) observer \<Rightarrow> 'w hostState exchange" where
  "serveFrame d = ServeEndpoint (lit ''openabstractions'') []
     [servedReader (receiverReader (receiver d)), servedEditor (receiverEditor (receiver d)),
      servedObserver (receiverObserver d)]"

lemma names_distinct [simp]:
  "readerName \<noteq> editorName" "editorName \<noteq> readerName" "readerName \<noteq> observerName" "observerName \<noteq> readerName"
  "editorName \<noteq> observerName" "observerName \<noteq> editorName"
  by (simp_all add: readerName_def editorName_def observerName_def)

lemma served_fields [simp]:
  "ServiceContract (servedReader a) = readerName" "exchanger (servedReader a) = Some (ConfigReader_ExchangeFrame a)"
  "ServiceContract (servedEditor b) = editorName" "exchanger (servedEditor b) = Some (ConfigEditor_ExchangeFrame b)"
  "ServiceContract (servedObserver c) = observerName" "exchanger (servedObserver c) = Some (ConfigObserver_ExchangeFrame c)"
  by (simp_all add: servedReader_def servedEditor_def servedObserver_def)

subsection \<open>From the client to the handler\<close>

lemma host_Read:
  assumes "host_ok (receiver d)" and "valid_RunOverrides overrides"
  shows "ConfigReaderClient_Read (serveFrame d) overrides s = clientSees id (receiver_Read (receiver d) overrides s)"
proof -
  have "ConfigReaderClient_Read (serveFrame d) overrides s =
      ConfigReaderClient_Read (ConfigReader_ExchangeFrame (receiverReader (receiver d))) overrides s"
    using Read_rpc.call_routed [of "\<lparr>oaConfigReaderReadArguments.Overrides = overrides\<rparr>" _
        "servedReader (receiverReader (receiver d))" _ "[]"] assms(2)
    by (simp add: ConfigReaderClient_Read_def serveFrame_def valid_oaConfigReaderReadArguments_def)
  with service_Read [OF assms] show ?thesis by simp
qed

lemma host_ReadUser:
  "ConfigEditorClient_ReadUser (serveFrame d) s = clientSees id (receiver_ReadUser (receiver d) s)"
proof -
  have "ConfigEditorClient_ReadUser (serveFrame d) s =
      ConfigEditorClient_ReadUser (ConfigEditor_ExchangeFrame (receiverEditor (receiver d))) s"
    using ReadUser_rpc.call_routed [of "()" _ "servedEditor (receiverEditor (receiver d))" _
        "[servedReader (receiverReader (receiver d))]"]
    by (simp add: ConfigEditorClient_ReadUser_def serveFrame_def)
  with service_ReadUser show ?thesis by simp
qed

lemma host_ReplaceUser:
  assumes "validUTF8 expected" and "valid_UserSettings values"
  shows "ConfigEditorClient_ReplaceUser (serveFrame d) expected values s =
    clientSees id (receiver_ReplaceUser (receiver d) expected values s)"
proof -
  have "ConfigEditorClient_ReplaceUser (serveFrame d) expected values s =
      ConfigEditorClient_ReplaceUser (ConfigEditor_ExchangeFrame (receiverEditor (receiver d))) expected values s"
    using ReplaceUser_rpc.call_routed [of "\<lparr>oaConfigEditorReplaceUserArguments.ExpectedRevision = expected,
        Values = values\<rparr>" _ "servedEditor (receiverEditor (receiver d))" _ "[servedReader (receiverReader (receiver d))]"]
      assms
    by (simp add: ConfigEditorClient_ReplaceUser_def serveFrame_def valid_oaConfigEditorReplaceUserArguments_def)
  with service_ReplaceUser [OF assms] show ?thesis by simp
qed

lemma host_Observe:
  assumes "observer_ok d" and "source_ok (observation s)" and "valid_RunOverrides overrides" and "validUTF8 cursor"
  shows "ConfigObserverClient_Observe (serveFrame d) overrides cursor waitMS s =
    clientSees id (receiver_Observe d overrides cursor waitMS s)"
proof -
  have "ConfigObserverClient_Observe (serveFrame d) overrides cursor waitMS s =
      ConfigObserverClient_Observe (ConfigObserver_ExchangeFrame (receiverObserver d)) overrides cursor waitMS s"
    using Observe_rpc.call_routed [of "\<lparr>oaConfigObserverObserveArguments.Overrides = overrides, Cursor = cursor,
        WaitMs = waitMS\<rparr>" _ "servedObserver (receiverObserver d)" _
        "[servedReader (receiverReader (receiver d)), servedEditor (receiverEditor (receiver d))]"] assms(3,4)
    by (simp add: ConfigObserverClient_Observe_def serveFrame_def valid_oaConfigObserverObserveArguments_def)
  with service_Observe [OF assms] show ?thesis by simp
qed

text \<open>What an authorized read answers: the layers of the machine, the store and the overrides.\<close>

lemma host_read_layered:
  assumes "host_ok (receiver d)" and "valid_RunOverrides overrides" and "authorize (receiver d) (world s) = None"
    and "loadHook (host (receiver d)) = None"
    and "readUserValue (userStore (host (receiver d))) (userPath (host (receiver d))) (world s) = (Inr v, w)"
  shows "\<exists>c. ConfigReaderClient_Read (serveFrame d) overrides s = (Inr (wireSnapshot c), s\<lparr>world := w\<rparr>)
    \<and> view c =
      (if withoutMachine (host (receiver d)) \<or> MachinePath (receiver d) = [] then Map.empty
       else contribution (readMachineSource (MachineRead (receiver d) w) (MachineTrust (receiver d) w)
         (MachinePath (receiver d))))
      ++ contribution (decodeSource (dataIn (userStore (host (receiver d))) v) (userPath (host (receiver d))) User)
      ++ environment_view (mget (overridesMap overrides))"
proof -
  let ?path = "if withoutMachine (host (receiver d)) then [] else MachinePath (receiver d)"
  obtain c where c: "loadWithSources (userStore (host (receiver d))) (userPath (host (receiver d))) ?path
        (MachineTrust (receiver d)) (MachineRead (receiver d)) (overridesMap overrides) (world s) = (Inr c, w)"
    and view: "view c = (if ?path = [] then Map.empty
        else contribution (readMachineSource (MachineRead (receiver d) w) (MachineTrust (receiver d) w) ?path))
      ++ contribution (decodeSource (dataIn (userStore (host (receiver d))) v) (userPath (host (receiver d))) User)
      ++ environment_view (mget (overridesMap overrides))"
    using view_loadWithSources [OF assms(5)] by blast
  have "receiver_Read (receiver d) overrides s = (Returns (wireSnapshot c), s\<lparr>world := w\<rparr>)"
    using c assms(3,4) by (simp add: receiver_Read_def hostLoad_def)
  with host_Read [OF assms(1,2)] view show ?thesis
    by (intro exI [of _ c]) (auto simp: clientSees_def)
qed

lemma consultPolicy_refuses:
  "consultPolicy r w = (Some (Returns x), w') \<Longrightarrow>
   \<exists>outcome \<in> {UserReplaceOutcomeForbidden, UserReplaceOutcomeUnavailable}. x = refusedReplace outcome"
  by (auto simp: consultPolicy_def split: option.splits prod.splits if_splits)

text \<open>A call that returns was ended by the policy or by the store.\<close>

lemma ReplaceUser_returns:
  assumes "receiver_ReplaceUser r expected values s = (Returns x, s')"
  obtains outcome where "outcome \<in> {UserReplaceOutcomeForbidden, UserReplaceOutcomeUnavailable}" and "x = refusedReplace outcome"
      and "s' = s\<lparr>world := snd (consultPolicy r (world s))\<rparr>"
  | snapshot applied w where "consultPolicy r (world s) = (None, w)"
      and "ReplaceUserStore (userStore (host r)) (userPath (host r)) expected (wireValues values) (w, live s)
        = (Inr (snapshot, applied), (world s', live s'))"
      and "x = \<lparr>UserReplaceResult.Outcome = (if applied then UserReplaceOutcomeApplied else UserReplaceOutcomeConflict),
        Snapshot = userWire snapshot\<rparr>"
proof -
  obtain p w where p: "consultPolicy r (world s) = (p, w)" by fastforce
  show thesis
  proof (cases p)
    case (Some h)
    with assms p have h: "h = Returns x" "s' = s\<lparr>world := w\<rparr>"
      by (auto simp: receiver_ReplaceUser_def split: option.splits if_splits)
    with consultPolicy_refuses [of r "world s" x w] p Some that(1) show thesis by auto
  next
    case None
    obtain q w' l where q: "ReplaceUserStore (userStore (host r)) (userPath (host r)) expected (wireValues values) (w, live s)
        = (q, (w', l))"
      by (metis prod.collapse)
    from assms p None q that(2) show thesis
      by (auto simp: receiver_ReplaceUser_def split: option.splits if_splits sum.splits prod.splits)
  qed
qed

subsection \<open>A concrete host\<close>

type_synonym memory = "bytes \<rightharpoonup> bytes"

definition sampleReceiver :: "(memory, bytes option, unit) receiver" where
  "sampleReceiver =
     \<lparr>host = \<lparr>owner = lit ''u'', loadHook = None, userStore = Some memoryStore, userPath = sampleHome,
        withoutMachine = True, editPolicy = None\<rparr>,
      Peer = (\<lambda>w. Some ()), AtLeast = (\<lambda>p. Some \<lparr>Kind = lit ''windows'', SID = lit ''u'', UID = 0\<rparr>),
      CtxErr = (\<lambda>w. False), MachinePath = [], MachineTrust = (\<lambda>w path. None), MachineRead = (\<lambda>w path n. Inr None)\<rparr>"

definition sampleHost :: "(memory, bytes option, unit) observer" where
  "sampleHost =
     \<lparr>receiver = sampleReceiver, Random = (\<lambda>w. Some (replicate 16 0)), StartSource = (\<lambda>w. (True, w)),
      WaitErr = (\<lambda>w. None), Schedule = (\<lambda>w. ([], Expires id))\<rparr>"

definition sampleState :: "memory hostState" where
  "sampleState =
     \<lparr>world = Map.empty, live = watchStart,
      observation = \<lparr>serving = True, initialized = False, failed = False, configured = True, epoch = [], slots = 0,
        cancelled = False\<rparr>\<rparr>"

lemma sample_authorized: "authorize sampleReceiver w = None"
  by (simp add: authorize_def sampleReceiver_def principalOf_def)

lemma sample_receiver: "receiver sampleHost = sampleReceiver" "host_ok sampleReceiver" "observer_ok sampleHost"
  "source_ok (observation sampleState)"
  by (simp_all add: sampleHost_def sampleReceiver_def host_ok_def observer_ok_def source_ok_def sampleState_def
      sampleHome_def lit_valid)

lemma sample_fields [simp]:
  "userStore (host sampleReceiver) = Some memoryStore" "userPath (host sampleReceiver) = sampleHome"
  "editPolicy (host sampleReceiver) = None" "loadHook (host sampleReceiver) = None"
  "withoutMachine (host sampleReceiver) = True" "world sampleState = Map.empty" "live sampleState = watchStart"
  by (simp_all add: sampleReceiver_def sampleState_def)

text \<open>The same host, for a caller of another account.\<close>

definition foreignHost :: "(memory, bytes option, unit) observer" where
  "foreignHost = sampleHost\<lparr>receiver := sampleReceiver\<lparr>AtLeast := (\<lambda>p. None)\<rparr>\<rparr>"

subsection \<open>Properties\<close>

text \<open>C6: a frame from a caller the receiver does not authorize, whatever its bytes, whichever service and
  method it names, changes nothing: not the store, not the observation, not the subscribers.\<close>

theorem foreign_caller_changes_nothing:
  assumes "authorize (receiver d) (world s) \<noteq> None"
  shows "snd (serveFrame d frame s) = s"
proof -
  obtain e where "authorize (receiver d) (world s) = Some e" using assms by blast
  then have "receiver_Read (receiver d) v s = (Fails e, s)" "receiver_ReadUser (receiver d) s = (Fails e, s)"
    "receiver_ReplaceUser (receiver d) expected vs s = (Fails e, s)"
    "receiver_Observe d v cursor waitMS s = (Fails e, s)" for v expected vs cursor waitMS
    by (simp_all add: receiver_Read_def receiver_ReadUser_def receiver_ReplaceUser_def receiver_Observe_def)
  then show ?thesis
    by (simp add: serveFrame_def ServeEndpoint_def ConfigReader_ExchangeFrame_def ConfigEditor_ExchangeFrame_def
        ConfigObserver_ExchangeFrame_def exchangeFrame_def snd_answer unknownMethod_def invokeRead_def
        invokeReadUser_def invokeReplaceUser_def invokeObserve_def receiverReader_def receiverEditor_def
        receiverObserver_def split: sum.split)
qed

lemma foreign_caller_changes_nothing_witness: "snd (serveFrame foreignHost (lit ''{}'') sampleState) = sampleState"
  by (rule foreign_caller_changes_nothing) (simp add: foreignHost_def authorize_def sampleReceiver_def)

text \<open>C2: an editor that is told its replacement was applied, through the whole path, replaced in one step a
  record of the revision it expected by the values it sent, and announced it; told anything else, by a
  conflict, the policy or an error short of the store's own, it replaced nothing.\<close>

theorem applied_edit_was_made:
  assumes "userStore (host (receiver d)) = Some st" and "compareSet st content env"
    and "\<forall>policy p w. editPolicy (host (receiver d)) = Some policy \<longrightarrow> env w (snd (policy p w))"
    and "validUTF8 expected" and "valid_UserSettings values"
    and "ConfigEditorClient_ReplaceUser (serveFrame d) expected values s = (Inr x, s')"
  shows "if UserReplaceResult.Outcome x = UserReplaceOutcomeApplied
    then live s' = announce (live s) \<and> (\<exists>u u' current. env (world s) u
      \<and> userSnapshot (content u (userPath (host (receiver d)))) = Inr current \<and> Revision current = expected
      \<and> content u' = (content u)(userPath (host (receiver d)) \<mapsto> userText (wireValues values))
      \<and> env u' (world s'))
    else live s' = live s \<and> env (world s) (world s')"
proof -
  have "receiver_ReplaceUser (receiver d) expected values s = (Returns x, s')"
    using assms(6) host_ReplaceUser [OF assms(4,5), of d s]
    by (auto simp: clientSees_def split: prod.splits handled.splits option.splits)
  then show ?thesis
  proof (cases rule: ReplaceUser_returns)
    case (1 outcome)
    obtain p w where p: "consultPolicy (receiver d) (world s) = (p, w)" by fastforce
    have "env (world s) w" by (rule consultPolicy_env [OF p compareSet_env(1) [OF assms(2)] assms(3)])
    with 1 p show ?thesis by (auto simp: refusedReplace_def UserReplaceOutcome_tags)
  next
    case (2 snapshot applied w)
    let ?path = "userPath (host (receiver d))"
    note ok = ReplaceUserStore_ok [OF assms(2) 2(2) [unfolded assms(1)]]
    have w: "env (world s) w" by (rule consultPolicy_env [OF 2(1) compareSet_env(1) [OF assms(2)] assms(3)])
    show ?thesis
    proof (cases applied)
      case True
      with ok obtain old current where "userSnapshot old = Inr current" "Revision current = expected" "live s' = announce (live s)"
        and swap: "swapped content env ?path old (userText (wireValues values)) w (world s')"
        by (auto simp: replaced_def)
      with swapped_after [OF assms(2) w swap] True show ?thesis by (auto simp: 2(3) swapped_def)
    next
      case False
      with ok obtain u where "live s' = live s" and u: "env w u" "env u (world s')" by auto
      moreover have "env (world s) (world s')" using compareSet_env(2) [OF assms(2)] w u by blast
      ultimately show ?thesis using False by (simp add: 2(3) UserReplaceOutcome_tags)
    qed
  qed
qed

definition sampleEdit :: UserSettings where
  "sampleEdit = UserSettings_zero\<lparr>UserSettings.Store := lit ''/data''\<rparr>"

lemma sample_edit: "valid_UserSettings sampleEdit" "wireValues sampleEdit = sampleValues"
  by (simp_all add: sampleEdit_def valid_UserSettings_def UserSettings_zero_def lit_valid valid_map_def wireValues_def
      sampleValues_def Config_zero_def)

lemma applied_edit_was_made_witness:
  "\<exists>x s'. ConfigEditorClient_ReplaceUser (serveFrame sampleHost) (revisionOf Config_zero) sampleEdit sampleState = (Inr x, s')
    \<and> UserReplaceResult.Outcome x = UserReplaceOutcomeApplied
    \<and> live s' = announce (live sampleState) \<and> (\<exists>current. userSnapshot None = Inr current
      \<and> Revision current = revisionOf Config_zero \<and> world s' sampleHome = Some (userText sampleValues))"
proof -
  obtain w where w: "ReplaceUserStore (Some memoryStore) sampleHome (revisionOf Config_zero) sampleValues
      (Map.empty, watchStart) = (Inr (snapshotOf sampleValues, True), (w, announce watchStart))"
    using sample_replace by blast
  let ?x = "\<lparr>UserReplaceResult.Outcome = UserReplaceOutcomeApplied, Snapshot = userWire (snapshotOf sampleValues)\<rparr>"
  let ?s = "sampleState\<lparr>world := w, live := announce watchStart\<rparr>"
  have "revisionOf Config_zero \<noteq> []" by (simp add: revisionOf_def)
  then have "receiver_ReplaceUser sampleReceiver (revisionOf Config_zero) sampleEdit sampleState = (Returns ?x, ?s)"
    using w by (simp add: receiver_ReplaceUser_def sample_authorized consultPolicy_def sample_edit)
  then have call: "ConfigEditorClient_ReplaceUser (serveFrame sampleHost) (revisionOf Config_zero) sampleEdit sampleState
      = (Inr ?x, ?s)"
    using host_ReplaceUser [OF revisionOf_valid sample_edit(1), of sampleHost Config_zero sampleState]
    by (simp add: sample_receiver clientSees_def)
  have "\<exists>current. userSnapshot None = Inr current \<and> Revision current = revisionOf Config_zero
      \<and> world ?s sampleHome = Some (userText sampleValues)"
    using applied_edit_was_made [OF _ memoryStore_compareSet _ revisionOf_valid sample_edit(1) call]
    by (auto simp: sample_receiver sample_edit)
  with call show ?thesis by (intro exI [of _ ?x] exI [of _ ?s]) simp
qed

text \<open>C9: for a request within the bounds the observing client always accepts what the service answers: the
  check of \<open>ObserveContext\<close> never calls the observation malformed, so the client sees exactly the handler's
  answer, snapshot, refusal or error.\<close>

theorem client_accepts_observation:
  assumes "observer_ok d" and "source_ok (observation s)" and "observationRequest overrides cursor waitMS"
  shows "ObserveContext (serveFrame d) None overrides cursor waitMS s = clientSees id (receiver_Observe d overrides cursor waitMS s)"
proof -
  have a: "valid_RunOverrides overrides" "validUTF8 cursor"
    using assms(3) by (simp_all add: observationRequest_def valid_RunOverrides_def split: if_splits)
  obtain h s' where h: "receiver_Observe d overrides cursor waitMS s = (h, s')" by fastforce
  have "malformedObservation cursor x = None" if "h = Returns x" for x
    using receiver_Observe_acceptable [OF _ assms(1,2) a] h that by (simp add: acceptable_def)
  with host_Observe [OF assms(1,2) a, of waitMS] h assms(3) show ?thesis
    by (cases h) (auto simp: ObserveContext_def observationRequest_def clientSees_def split: if_splits)
qed

lemma sample_request: "observationRequest sampleOverrides [] 0"
  using valid_sampleOverrides
  by (simp add: observationRequest_def wait_zero sampleOverrides_def RunOverrides_zero_def valid_RunOverrides_def)

lemma client_accepts_observation_witness:
  "ObserveContext (serveFrame sampleHost) None sampleOverrides [] 0 sampleState =
    clientSees id (receiver_Observe sampleHost sampleOverrides [] 0 sampleState)"
  by (rule client_accepts_observation [OF sample_receiver(3,4) sample_request])

text \<open>C8: a cursor is a bookmark: after an observation answered a snapshot, observing with its cursor for the
  same overrides, without waiting (\<open>waitMS\<close> 0), answers \<open>unchanged\<close> when the configuration now reads as a
  snapshot of the same hash, whatever happened in between, and otherwise the new snapshot with its own
  cursor. With a time to wait a call may also be refused for want of a slot, or answer a later snapshot.\<close>

theorem cursor_is_bookmark:
  assumes "receiver_Observe d overrides cursor waitMS s = (Returns x, s')"
    and "ConfigObservation.Outcome x = ConfigObservationOutcomeSnapshot"
    and "observer_ok d" and "source_ok (observation s)"
    and "same_source (observation s') (observation t)" and "configured (observation t)" and "\<not> cancelled (observation t)"
    and "\<not> failed (observation t)" and "WaitErr d (world t) = None"
    and "receiver_Read (receiver d) overrides t = (Returns y, t')" and "authorize (receiver d) (world t') = None"
  shows "\<exists>seen. ConfigObservation.Snapshot x = Some seen \<and>
    receiver_Observe d overrides (ConfigObservation.Cursor x) 0 t =
      (if sum256 (Encode y) = sum256 (Encode seen)
       then refusal (ConfigObservation.Cursor x) ConfigObservationOutcomeUnchanged
       else Returns \<lparr>ConfigObservation.Outcome = ConfigObservationOutcomeSnapshot,
         Cursor = cursorOf (epoch (observation t)) overrides y, Snapshot = Some y\<rparr>, t')"
proof -
  obtain r seen where r: "length r = 16" "epoch (observation s') = hexEncode r"
    and request: "observationRequest overrides cursor waitMS" and started: "initialized (observation s')"
    and x: "ConfigObservation.Cursor x = cursorOf (hexEncode r) overrides seen" "ConfigObservation.Snapshot x = Some seen"
    using observed_snapshot [OF assms(1-4)] by blast
  have t: "epoch (observation t) = hexEncode r" "initialized (observation t)"
    using assms(5) r(2) started by (simp_all add: same_source_def)
  show ?thesis
    using observe_known_cursor [OF r(1) t assms(6-9) request x(1) assms(10,11)] x t
    by (simp add: cursorOf_def hexEncode_eq)
qed

lemma sample_observed:
  "\<exists>y. receiver_Read sampleReceiver sampleOverrides s = (Returns y, s)" if "world s sampleHome = None"
  using that sample_home(2)
  by (simp add: receiver_Read_def sample_authorized hostLoad_def loadWithSources_def readUserValue_def memoryStore_def sizeOf_def
      Let_def)

lemma cursor_is_bookmark_witness:
  "\<exists>x s' seen. receiver_Observe sampleHost sampleOverrides [] 0 sampleState = (Returns x, s')
    \<and> ConfigObservation.Snapshot x = Some seen \<and> receiver_Observe sampleHost sampleOverrides (ConfigObservation.Cursor x) 0 s'
      = (refusal (ConfigObservation.Cursor x) ConfigObservationOutcomeUnchanged, s')"
proof -
  let ?s = "sampleState\<lparr>observation := (observation sampleState)\<lparr>initialized := True, epoch := hexEncode (replicate 16 0)\<rparr>\<rparr>"
  obtain y where y: "receiver_Read sampleReceiver sampleOverrides ?s = (Returns y, ?s)" using sample_observed [of ?s] by auto
  let ?x = "\<lparr>ConfigObservation.Outcome = ConfigObservationOutcomeSnapshot,
      Cursor = cursorOf (hexEncode (replicate 16 0)) sampleOverrides y, Snapshot = Some y\<rparr>"
  have "startObservation sampleHost sampleState = (True, ?s)"
    by (simp add: startObservation_def sampleState_def sampleHost_def)
  then have o: "receiver_Observe sampleHost sampleOverrides [] 0 sampleState = (Returns ?x, ?s)"
    using y sample_request
    by (simp add: receiver_Observe_def sample_receiver sample_authorized checkCursor_def observeLoop.simps observeTurn_def
        release_def sampleState_def sampleHost_def)
  from cursor_is_bookmark [OF o _ sample_receiver(3,4), of ?s y ?s] y o show ?thesis
    by (auto simp: sample_receiver sample_authorized same_source_def sampleHost_def sampleState_def)
qed

end
