(* ===== verification/Opaque.thy ===== *)
theory Opaque
  imports Reader Emit
begin

section \<open>Opaque values and the vocabulary of error codes\<close>

text \<open>
  Models \<open>raw\<close> and \<open>rawmap\<close> of \<open>rec.go\<close>, the writers of values that the codec carries without reading
  them, \<open>decimal\<close> and \<open>Refusal.Error\<close>, and the vocabulary \<open>ServiceErrorCode\<close>. Cutting a string past its
  end is a panic in Go; \<open>raw\<close> does so for a text that ends inside a string right after a backslash, where it
  answers \<open>None\<close> here.
\<close>

subsection \<open>Layout of an opaque value\<close>

definition rawSpace :: "byte \<Rightarrow> bool" where
  "rawSpace c \<longleftrightarrow> c = ch CHR '' '' \<or> c = ch CHR 0x09 \<or> c = ch CHR 0x0A \<or> c = ch CHR 0x0D"

text \<open>The loop on \<open>j\<close>, from behind the opening quote: the rest of the string and what follows it.\<close>

fun rawString :: "bytes \<Rightarrow> (bytes \<times> bytes) option" where
  "rawString [] = Some ([], [])"
| "rawString (c # s) =
     (if c = ch CHR 0x5C then
        (case s of [] \<Rightarrow> None
         | e # s \<Rightarrow> (case rawString s of None \<Rightarrow> None | Some (q, rest) \<Rightarrow> Some (c # e # q, rest)))
      else if c = ch CHR 0x22 then Some ([c], s)
      else (case rawString s of None \<Rightarrow> None | Some (q, rest) \<Rightarrow> Some (c # q, rest)))"

lemma rawString_split: "rawString s = Some (q, rest) \<Longrightarrow> s = q @ rest"
  by (induction s arbitrary: q rest rule: rawString.induct) (auto split: if_splits list.splits option.splits)

definition opens :: "byte \<Rightarrow> bool" where
  "opens c \<longleftrightarrow> c = ch CHR 0x7B \<or> c = ch CHR 0x5B"

definition closes :: "byte \<Rightarrow> bool" where
  "closes c \<longleftrightarrow> c = ch CHR 0x7D \<or> c = ch CHR 0x5D"

lemma dropWhile_Cons_length: "dropWhile P s = e # rest \<Longrightarrow> length rest < length s"
  by (metis length_dropWhile_le length_Cons less_eq_Suc_le)

function (sequential) raw :: "bytes \<Rightarrow> bytes \<Rightarrow> int \<Rightarrow> bytes option" where
  "raw out [] depth = Some out"
| "raw out (c # s) depth =
     (if rawSpace c then raw out s depth
      else if c = ch CHR 0x22 then
        (case rawString s of None \<Rightarrow> None | Some (q, rest) \<Rightarrow> raw (out @ c # q) rest depth)
      else if opens c then
        (case dropWhile rawSpace s of
           e # rest \<Rightarrow>
             if closes e then raw (out @ [c, e]) rest depth
             else raw (pad (out @ [c, ch CHR 0x0A]) (depth + 1)) s (depth + 1)
         | [] \<Rightarrow> raw (pad (out @ [c, ch CHR 0x0A]) (depth + 1)) s (depth + 1))
      else if closes c then raw (pad (out @ [ch CHR 0x0A]) (depth - 1) @ [c]) s (depth - 1)
      else if c = ch CHR '','' then raw (pad (out @ [c, ch CHR 0x0A]) depth) s depth
      else if c = ch CHR '':'' then raw (out @ [c, ch CHR '' '']) s depth
      else raw (out @ [c]) s depth)"
  by pat_completeness auto

termination raw
  by (relation "measure (\<lambda>(out, s, depth). length s)")
    (auto dest: rawString_split dropWhile_Cons_length)

fun rawmap_loop :: "bytes \<Rightarrow> bytes gomap \<Rightarrow> bytes list \<Rightarrow> int \<Rightarrow> bytes option" where
  "rawmap_loop out m [] depth = Some out"
| "rawmap_loop out m (k # keys) depth =
     (let out = pad out (depth + 1); out = esc out k; out = out @ [ch CHR '':'', ch CHR '' ''] in
      case raw out (mget m k) (depth + 1) of None \<Rightarrow> None
      | Some out \<Rightarrow>
          (let out = (if keys \<noteq> [] then out @ [ch CHR '','']  else out) in
           rawmap_loop (out @ [ch CHR 0x0A]) m keys depth))"

definition rawmap :: "bytes \<Rightarrow> bytes gomap \<Rightarrow> int \<Rightarrow> bytes option" where
  "rawmap out m depth =
     (let keys = sortedKeys m in
      if keys = [] then Some (out @ lit ''{}'')
      else (case rawmap_loop (out @ [ch CHR 0x7B, ch CHR 0x0A]) m keys depth of
          None \<Rightarrow> None | Some out \<Rightarrow> Some (pad out depth @ [ch CHR 0x7D])))"

subsection \<open>The layout as a function of the tokens\<close>

text \<open>The tokens of a text are its strings and, outside of strings, every byte that is not white space.\<close>

function (sequential) tokens :: "bytes \<Rightarrow> bytes list option" where
  "tokens [] = Some []"
| "tokens (c # s) =
     (if rawSpace c then tokens s
      else if c = ch CHR 0x22 then
        (case rawString s of None \<Rightarrow> None | Some (q, rest) \<Rightarrow> map_option ((#) (c # q)) (tokens rest))
      else map_option ((#) [c]) (tokens s))"
  by pat_completeness auto
termination tokens by (relation "measure length") (auto dest: rawString_split)

fun printTokens :: "bytes list \<Rightarrow> int \<Rightarrow> bytes" where
  "printTokens [] depth = []"
| "printTokens (t # ts) depth =
     (if opens (hd t) then
        (case ts of
           e # rest \<Rightarrow>
             if closes (hd e) then t @ e @ printTokens rest depth
             else t @ pad [ch CHR 0x0A] (depth + 1) @ printTokens ts (depth + 1)
         | [] \<Rightarrow> t @ pad [ch CHR 0x0A] (depth + 1))
      else if closes (hd t) then pad [ch CHR 0x0A] (depth - 1) @ t @ printTokens ts (depth - 1)
      else if hd t = ch CHR '','' then t @ pad [ch CHR 0x0A] depth @ printTokens ts depth
      else if hd t = ch CHR '':'' then t @ [ch CHR '' ''] @ printTokens ts depth
      else t @ printTokens ts depth)"

lemma pad_after: "pad (out @ a) depth = out @ pad a depth" "pad [c, d] depth = c # pad [d] depth"
  by (simp_all add: pad_def)

lemma marks_plain [simp]: "\<not> opens 34" "\<not> closes 34" "\<not> rawSpace 34" "\<not> opens 44" "\<not> closes 44" "\<not> opens 58"
    "\<not> closes 58" "rawSpace 32"
  by (simp_all add: opens_def closes_def rawSpace_def)

lemma closing_plain: "closes c \<Longrightarrow> \<not> opens c \<and> c \<noteq> ch CHR 0x22 \<and> \<not> rawSpace c"
  by (auto simp: opens_def closes_def rawSpace_def)

lemma tokens_dropWhile: "tokens (dropWhile rawSpace s) = tokens s"
  by (induction s) auto

lemma tokens_spaces: "\<forall>c\<in>set sp. rawSpace c \<Longrightarrow> tokens (sp @ s) = tokens s"
  by (induction sp) auto

lemma tokens_head: "\<not> rawSpace c \<Longrightarrow> tokens (c # s) = Some ts \<Longrightarrow> \<exists>t ts'. ts = t # ts' \<and> hd t = c"
  by (auto split: if_splits option.splits)

lemma raw_tokens: "raw out s depth = map_option (\<lambda>ts. out @ printTokens ts depth) (tokens s)"
proof (induction out s depth rule: raw.induct)
  case (2 out c s depth)
  consider (space) "rawSpace c" | (quoted) "c = ch CHR 0x22" | (opened) "opens c" "c \<noteq> ch CHR 0x22" "\<not> rawSpace c" | (other) "\<not> opens c" "c \<noteq> ch CHR 0x22" "\<not> rawSpace c"
    by blast
  then show ?case
  proof cases
    case space
    then show ?thesis using 2(1) by simp
  next
    case quoted
    then show ?thesis using 2(2) by (auto simp: option.map_comp comp_def split: option.splits)
  next
    case opened
    show ?thesis
    proof (cases "dropWhile rawSpace s")
      case Nil
      then have "tokens s = Some []" using tokens_spaces[of s "[]"] by simp
      with opened 2(3)[OF _ _ _ Nil] Nil show ?thesis by (simp add: pad_after Nil del: dropWhile_eq_Nil_conv)
    next
      case (Cons e rest)
      then have e: "\<not> rawSpace e" using hd_dropWhile[of rawSpace s] by simp
      have s: "tokens s = tokens (e # rest)" using tokens_dropWhile[of s] Cons by simp
      show ?thesis
      proof (cases "closes e")
        case True
        with Cons opened 2(4) s e closing_plain[OF True] show ?thesis
          by (auto simp: option.map_comp comp_def)
      next
        case False
        note later = 2(5)[OF opened(3,2,1) Cons False]
        show ?thesis
        proof (cases "tokens s")
          case None
          with Cons opened False later show ?thesis by simp
        next
          case (Some ts)
          then obtain t ts' where "ts = t # ts'" "hd t = e" using s tokens_head[OF e] by metis
          with Cons opened False later Some show ?thesis by (simp add: pad_after)
        qed
      qed
    qed
  next
    case other
    then show ?thesis using 2(6-9) by (auto simp: pad_after option.map_comp comp_def)
  qed
qed simp


text \<open>Reading back: a string that is closed ends where it ended, whatever follows.\<close>

definition endsAt :: "bytes \<Rightarrow> bool \<Rightarrow> bool" where
  "endsAt q final \<longleftrightarrow> (\<forall>x. rawString (q @ x) = Some (q, x)) \<or> final \<and> rawString q = Some (q, [])"

lemma endsAt_intros:
  "endsAt [] True" "endsAt [34] final" "endsAt q final \<Longrightarrow> endsAt (92 # e # q) final"
  "endsAt q final \<Longrightarrow> c \<noteq> 92 \<Longrightarrow> c \<noteq> 34 \<Longrightarrow> endsAt (c # q) final"
  by (auto simp: endsAt_def)

lemma rawString_ends: "rawString s = Some (q, rest) \<Longrightarrow> endsAt q (rest = [])"
proof (induction s arbitrary: q rest rule: rawString.induct)
  case (2 c s)
  then show ?case by (auto split: if_splits list.splits option.splits intro: endsAt_intros)
qed (simp add: endsAt_intros)

definition tokenBefore :: "bytes list \<Rightarrow> bytes \<Rightarrow> bool" where
  "tokenBefore ts t \<longleftrightarrow> (\<exists>c q. t = c # q \<and> \<not> rawSpace c \<and> (if c = 34 then endsAt q (ts = []) else q = []))"

fun tokenList :: "bytes list \<Rightarrow> bool" where
  "tokenList [] \<longleftrightarrow> True"
| "tokenList (t # ts) \<longleftrightarrow> tokenBefore ts t \<and> tokenList ts"

lemma tokens_ok: "tokens s = Some ts \<Longrightarrow> tokenList ts"
proof (induction s arbitrary: ts rule: tokens.induct)
  case (2 c s)
  have "endsAt q (ts = [])" if "rawString s = Some (q, rest)" "tokens rest = Some ts" for q rest ts
    using rawString_ends[OF that(1)] that(2) by (auto simp: endsAt_def)
  with 2 show ?case by (auto simp: tokenBefore_def split: if_splits option.splits)
qed simp

lemma tokens_token:
  assumes "tokenBefore ts t" and "ts = [] \<Longrightarrow> x = []"
  shows "tokens (t @ x) = map_option ((#) t) (tokens x)"
  using assms by (auto simp: tokenBefore_def endsAt_def split: if_splits)

lemma tokens_pad: "tokens (pad [10] depth @ x) = tokens x"
  unfolding pad_def by (simp add: tokens_spaces rawSpace_def)

lemma tokens_mark: "tokenBefore ts t \<Longrightarrow> hd t \<noteq> 34 \<Longrightarrow> tokens (t @ x) = map_option ((#) t) (tokens x)"
  by (auto simp: tokenBefore_def split: if_splits)

lemma tokens_print: "tokenList ts \<Longrightarrow> tokens (printTokens ts depth) = Some ts"
proof (induction ts depth rule: printTokens.induct)
  case (2 t ts depth)
  then have t: "tokenBefore ts t" "tokenList ts" by simp_all
  note token = tokens_token[OF t(1)]
  show ?case
  proof (cases "opens (hd t)")
    case True
    then have "hd t \<noteq> 34" by (auto simp: opens_def)
    note mark = tokens_mark[OF t(1) this]
    show ?thesis
    proof (cases ts)
      case Nil
      with True tokens_pad[of "depth + 1" "[]"] show ?thesis by (simp add: mark)
    next
      case (Cons e rest)
      show ?thesis
      proof (cases "closes (hd e)")
        case True
        have e: "tokenBefore rest e" "tokenList rest" using t(2) Cons by simp_all
        have "hd e \<noteq> 34" using True by auto
        note closing = tokens_mark[OF e(1) this]
        from 2(1)[OF \<open>opens (hd t)\<close> Cons True e(2)] \<open>opens (hd t)\<close> True Cons show ?thesis
          by (simp add: mark closing)
      next
        case False
        from 2(2)[OF \<open>opens (hd t)\<close> Cons False t(2)] \<open>opens (hd t)\<close> False Cons tokens_pad show ?thesis
          by (simp add: mark)
      qed
    qed
  next
    case other: False
    show ?thesis
    proof (cases "hd t = 34")
      case True
      with other 2(6) t(2) token[of "printTokens ts depth"] show ?thesis by simp
    next
      case False
      note mark = tokens_mark[OF t(1) this]
      from other 2(3-6) t(2) tokens_pad show ?thesis by (simp add: mark)
    qed
  qed
qed simp


subsection \<open>Properties\<close>

text \<open>Laying out an opaque value changes white space between its tokens and nothing else, at any depth; laying it
  out again, at whatever depth, gives what laying out the first text there would have given.\<close>

theorem raw_layout:
  assumes "raw [] s depth = Some t"
  shows "tokens t = tokens s \<and> raw [] t depth' = raw [] s depth'"
proof -
  obtain ts where ts: "tokens s = Some ts" "t = printTokens ts depth" using assms by (auto simp: raw_tokens)
  then have "tokens t = Some ts" using tokens_print[OF tokens_ok] by blast
  with ts(1) show ?thesis by (simp add: raw_tokens)
qed

definition sampleOpaque :: bytes where
  "sampleOpaque = lit ''{ \"a b\":[1, 2,{ }] }''"

lemma raw_layout_witness:
  "\<exists>t. raw [] sampleOpaque 1 = Some t \<and> tokens t = tokens sampleOpaque \<and> raw [] t 0 = raw [] sampleOpaque 0"
proof -
  have "raw [] sampleOpaque 1 \<noteq> None" by code_simp
  then obtain t where "raw [] sampleOpaque 1 = Some t" by blast
  with raw_layout[OF this, of 0] show ?thesis by blast
qed

text \<open>The map of opaque values is written whole when each of its values is.\<close>

lemma rawmap_loop_total: "\<forall>k\<in>set keys. tokens (mget m k) \<noteq> None \<Longrightarrow> rawmap_loop out m keys depth \<noteq> None"
  by (induction keys arbitrary: out) (auto simp: raw_tokens Let_def)

lemma rawmap_total: "\<forall>k. tokens (mget m k) \<noteq> None \<Longrightarrow> rawmap out m depth \<noteq> None"
  using rawmap_loop_total[of "sortedKeys m" m "out @ [ch CHR 0x7B, ch CHR 0x0A]" depth]
  by (auto simp: rawmap_def Let_def)

subsection \<open>Diagnostics\<close>

definition decimal :: "u64 \<Rightarrow> bytes" where
  "decimal n = num [] n"

definition Refusal_Error :: "Refusal \<Rightarrow> bytes" where
  "Refusal_Error r = lit ''refused: '' @ Word r @ lit '' at byte '' @ decimal (of_nat (Offset r))"

subsection \<open>Codes of errors\<close>

text \<open>\<open>ServiceErrorCode\<close> is open: any word is one, and \<open>Known\<close> tells the declared ones.\<close>

type_synonym ServiceErrorCode = bytes

definition ServiceErrorCodeValues :: "ServiceErrorCode list" where
  "ServiceErrorCodeValues = map lit [''handler_error'', ''invalid_result'', ''unknown_version'', ''unknown_service'',
     ''unknown_method'', ''wrong_mode'', ''storage_unavailable'', ''caller_unavailable'', ''identity_required'',
     ''wrong_user'', ''invalid_revision'']"

definition ServiceErrorCode_Known :: "ServiceErrorCode \<Rightarrow> bool" where
  "ServiceErrorCode_Known v \<longleftrightarrow> v \<in> set (map lit [''handler_error'', ''invalid_result'', ''unknown_version'',
     ''unknown_service'', ''unknown_method'', ''wrong_mode'', ''storage_unavailable'', ''caller_unavailable'',
     ''identity_required'', ''wrong_user'', ''invalid_revision''])"

definition ReaderErrorCodes :: "bytes list" where
  "ReaderErrorCodes = map lit [''storage_unavailable'', ''caller_unavailable'', ''identity_required'', ''wrong_user'']"

definition EditorErrorCodes :: "bytes list" where
  "EditorErrorCodes =
     map lit [''invalid_revision'', ''storage_unavailable'', ''caller_unavailable'', ''identity_required'', ''wrong_user'']"

lemma declared_known: "set ReaderErrorCodes \<subseteq> set EditorErrorCodes" "v \<in> set EditorErrorCodes \<Longrightarrow> ServiceErrorCode_Known v"
  by (auto simp: ReaderErrorCodes_def EditorErrorCodes_def ServiceErrorCode_Known_def)

lemma Known_values: "ServiceErrorCode_Known v \<longleftrightarrow> v \<in> set ServiceErrorCodeValues"
  by (simp add: ServiceErrorCode_Known_def ServiceErrorCodeValues_def)

end
