(* ===== verification/ErrorSpec.thy ===== *)
theory ErrorSpec
  imports HostSpec Opaque
begin

section \<open>The errors of the service\<close>

text \<open>
  The codes of the errors with which the service's handlers fail, against the lists \<open>ReaderErrorCodes\<close> and
  \<open>EditorErrorCodes\<close> of \<open>rec.go\<close> that declare them to clients.
\<close>

definition codeOf :: "goerror \<Rightarrow> bytes" where
  "codeOf e = oaServiceError.Code (errorRecord e)"

definition declaredBy :: "bytes list \<Rightarrow> goerror \<Rightarrow> bool" where
  "declaredBy codes e \<longleftrightarrow> codeOf e \<in> set codes"

lemma declared_words:
  "w \<in> set (map lit [''storage_unavailable'', ''caller_unavailable'', ''identity_required'', ''wrong_user'']) \<Longrightarrow>
   declaredBy ReaderErrorCodes (ErrService w m)"
  by (auto simp: declaredBy_def codeOf_def ReaderErrorCodes_def)

lemma declared_reader_editor: "declaredBy ReaderErrorCodes e \<Longrightarrow> declaredBy EditorErrorCodes e"
  using declared_known(1) by (auto simp: declaredBy_def)

lemma authorize_declared: "authorize r w = Some e \<Longrightarrow> declaredBy ReaderErrorCodes e"
  by (auto simp: authorize_def declared_words split: option.splits if_splits)

lemma receiver_Read_declared:
  "handler_error (fst (receiver_Read r v s)) = Some e \<Longrightarrow> declaredBy ReaderErrorCodes e"
  by (auto simp: receiver_Read_def declared_words dest: authorize_declared split: option.splits prod.splits sum.splits)

lemma receiver_ReadUser_declared:
  "handler_error (fst (receiver_ReadUser r s)) = Some e \<Longrightarrow> declaredBy EditorErrorCodes e"
  by (rule declared_reader_editor) (auto simp: receiver_ReadUser_def declared_words dest: authorize_declared
      split: option.splits prod.splits sum.splits)

lemma consultPolicy_declared:
  "consultPolicy r w = (Some h, w') \<Longrightarrow> handler_error h = Some e \<Longrightarrow> declaredBy ReaderErrorCodes e"
  by (auto simp: consultPolicy_def declared_words refusedReplace_def split: option.splits prod.splits if_splits)

lemma receiver_ReplaceUser_declared:
  "handler_error (fst (receiver_ReplaceUser r expected values s)) = Some e \<Longrightarrow> declaredBy EditorErrorCodes e"
proof (cases "authorize r (world s) = None \<and> expected = []")
  case True
  moreover assume "handler_error (fst (receiver_ReplaceUser r expected values s)) = Some e"
  ultimately show ?thesis
    by (auto simp: receiver_ReplaceUser_def declaredBy_def codeOf_def EditorErrorCodes_def)
next
  case False
  moreover assume "handler_error (fst (receiver_ReplaceUser r expected values s)) = Some e"
  ultimately have "declaredBy ReaderErrorCodes e"
    by (auto simp: receiver_ReplaceUser_def declared_words dest: authorize_declared consultPolicy_declared
        split: option.splits prod.splits sum.splits if_splits)
  then show ?thesis by (rule declared_reader_editor)
qed

text \<open>The client keeps the code of a handler's error.\<close>

lemma declared_nonempty: "v \<in> set EditorErrorCodes \<Longrightarrow> v \<noteq> []" "v \<in> set ReaderErrorCodes \<Longrightarrow> v \<noteq> []"
  by (auto simp: EditorErrorCodes_def ReaderErrorCodes_def)

lemma clientSees_declared:
  assumes "clientSees id (h, s) = (Inl e, s')" and "\<And>e. handler_error h = Some e \<Longrightarrow> codeOf e \<in> C" and "[] \<notin> C"
  shows "codeOf e \<in> C"
proof (cases h)
  case (Fails e')
  with assms(1) have e: "e = ErrService (codeOf e') (oaServiceError.Message (errorRecord e'))"
    by (simp add: clientSees_def codeOf_def)
  have "codeOf e' \<in> C" using assms(2) Fails by simp
  moreover from this assms(3) have "codeOf e' \<noteq> []" by metis
  ultimately show ?thesis unfolding e by (simp add: codeOf_def)
qed (use assms in \<open>auto simp: clientSees_def codeOf_def invalidResult_def\<close>)

lemma client_declared:
  assumes "fst (clientSees id p) = Inl e" and "\<And>e. handler_error (fst p) = Some e \<Longrightarrow> declaredBy codes e" and "[] \<notin> set codes"
  shows "codeOf e \<in> set codes"
  using clientSees_declared[of "fst p" "snd p" e "snd (clientSees id p)" "set codes"] assms
  by (metis declaredBy_def prod.collapse)

subsection \<open>Properties\<close>

text \<open>C35: the service fails only with codes it declares: an error that a client gets from a read through the whole
  path has a code of \<open>ReaderErrorCodes\<close>, one it gets from the editor a code of \<open>EditorErrorCodes\<close>, and all of
  them are known words of \<open>ServiceErrorCode\<close>. No error of the codec or the dispatcher appears among them.\<close>

theorem declared_errors:
  assumes "host_ok (receiver d)" and "valid_RunOverrides overrides" and "validUTF8 expected" and "valid_UserSettings values"
  shows "(fst (ConfigReaderClient_Read (serveFrame d) overrides s) = Inl e \<longrightarrow>
      codeOf e \<in> set ReaderErrorCodes \<and> ServiceErrorCode_Known (codeOf e))
    \<and> (fst (ConfigEditorClient_ReadUser (serveFrame d) s) = Inl e
      \<or> fst (ConfigEditorClient_ReplaceUser (serveFrame d) expected values s) = Inl e \<longrightarrow>
      codeOf e \<in> set EditorErrorCodes \<and> ServiceErrorCode_Known (codeOf e))"
proof -
  have none: "[] \<notin> set ReaderErrorCodes" "[] \<notin> set EditorErrorCodes"
    using declared_nonempty by blast+
  have "codeOf e \<in> set ReaderErrorCodes" if "fst (ConfigReaderClient_Read (serveFrame d) overrides s) = Inl e"
    by (rule client_declared[OF that[unfolded host_Read[OF assms(1,2)]] _ none(1)]) (rule receiver_Read_declared)
  moreover have "codeOf e \<in> set EditorErrorCodes" if "fst (ConfigEditorClient_ReadUser (serveFrame d) s) = Inl e"
    by (rule client_declared[OF that[unfolded host_ReadUser] _ none(2)]) (rule receiver_ReadUser_declared)
  moreover have "codeOf e \<in> set EditorErrorCodes"
    if "fst (ConfigEditorClient_ReplaceUser (serveFrame d) expected values s) = Inl e"
    by (rule client_declared[OF that[unfolded host_ReplaceUser[OF assms(3,4)]] _ none(2)]) (rule receiver_ReplaceUser_declared)
  ultimately show ?thesis using declared_known by (auto simp: subset_iff)
qed

lemma declared_errors_witness:
  "\<exists>e. fst (ConfigReaderClient_Read (serveFrame foreignHost) sampleOverrides sampleState) = Inl e
    \<and> codeOf e \<in> set ReaderErrorCodes"
proof -
  have ok: "host_ok (receiver foreignHost)"
    using sample_receiver(2) by (simp add: foreignHost_def sample_receiver(1) host_ok_def)
  have "receiver_Read (receiver foreignHost) sampleOverrides sampleState
      = (Fails (ErrService (lit ''identity_required'') (lit ''kernel user identity required'')), sampleState)"
    by (simp add: receiver_Read_def authorize_def foreignHost_def sampleReceiver_def)
  then obtain e where "fst (ConfigReaderClient_Read (serveFrame foreignHost) sampleOverrides sampleState) = Inl e"
    using host_Read[OF ok valid_sampleOverrides(1), of sampleState] by (simp add: clientSees_def)
  with declared_errors[OF ok valid_sampleOverrides(1) _ sample_edit(1), of "[]" sampleState e] show ?thesis by auto
qed

end
