(* ===== verification/Lifecycle.thy ===== *)
theory Lifecycle
  imports Prelude
begin

section \<open>The life of a host\<close>

text \<open>
  Models \<open>Serve\<close> and \<open>Close\<close> of \<open>go/service/service.go\<close> with \<open>startObservation\<close> and \<open>stopObservation\<close> of
  \<open>go/service/observer.go\<close> as the interleaving of their goroutines: the accept loop with its 64 calls,
  the workers, the one execution of \<open>closeOnce\<close>, and a caller of \<open>startObservation\<close> who holds the
  observation's mutex. Cancelling takes no lock, so it may happen while the source is being started;
  \<open>stopObservation\<close> reads the stop function under the mutex, and waits for the goroutine that follows the
  source. What a worker does with its frame is
  \<open>serveFrame\<close> of \<open>HostSpec\<close>; sockets are the events of the relation. What ends by itself and what is ended are different events:
  \<open>Accept\<close> may break at any time (\<open>AcceptBroken\<close>) and fails once the listener is closed (\<open>AcceptFailed\<close>), a
  worker may finish or run into its 35 seconds (\<open>WorkerDone\<close>) and is stopped by its context, which \<open>Close\<close>
  cancels (\<open>WorkerStopped\<close>), the source may close its channel (\<open>SourceEnded\<close>) and the goroutine that follows it
  sees the cancelled context (\<open>FollowerStopped\<close>). That calls with a done context return, and that the call of the source
  and its stop function do (the contract of \<open>ObservationSource\<close>), is what the events of \<open>certain\<close> say.
\<close>

subsection \<open>State\<close>

text \<open>\<open>Idle\<close> until \<open>Serve\<close>, \<open>Accepting\<close> in its loop, then its deferred calls: \<open>Close\<close>, \<open>OnStopped\<close>, the wait
  for the workers.\<close>

datatype servePhase = Idle | Accepting | Leaving | Draining | Returned

text \<open>How far the body of \<open>closeOnce.Do\<close> has come; \<open>StopRead\<close> holds whether it read a stop function, and
  \<open>Joining\<close> waits for the goroutine that follows the source.\<close>

datatype closePhase = Open | Cancelled | ListenerClosed | StopRead bool | Joining | Closed

record lifecycle =
  phase :: servePhase
  closing :: closePhase
  listening :: bool
  active :: nat
  refused :: nat
  notified :: nat
  locked :: bool
  initialized :: bool
  published :: bool
  sourceRuns :: bool
  following :: bool

definition newHost :: lifecycle where
  "newHost = \<lparr>phase = Idle, closing = Open, listening = True, active = 0, refused = 0, notified = 0, locked = False, initialized = False,
     published = False, sourceRuns = False,
     following = False\<rparr>"

definition maxCalls :: nat where
  "maxCalls = 64"

definition isCancelled :: "lifecycle \<Rightarrow> bool" where
  "isCancelled h \<longleftrightarrow> closing h \<noteq> Open"

subsection \<open>Operations\<close>

text \<open>The \<open>select\<close> on \<open>h.calls\<close> for an accepted connection.\<close>

definition admit :: "lifecycle \<Rightarrow> lifecycle" where
  "admit h = (if active h < maxCalls then h\<lparr>active := active h + 1\<rparr> else h\<lparr>refused := refused h + 1\<rparr>)"

text \<open>\<open>startObservation\<close> up to the call of the source, and after it.\<close>

definition beginStart :: "lifecycle \<Rightarrow> lifecycle" where
  "beginStart h =
     (if isCancelled h then h else if initialized h then h else h\<lparr>initialized := True, locked := True\<rparr>)"

definition endStart :: "bool \<Rightarrow> lifecycle \<Rightarrow> lifecycle" where
  "endStart ok h =
     (if ok then h\<lparr>locked := False, published := True, sourceRuns := True, following := True\<rparr>
      else h\<lparr>locked := False\<rparr>)"

text \<open>\<open>stopObservation\<close>, after the stop function was read: without one there is nothing to wait for.\<close>

definition stopSource :: "bool \<Rightarrow> lifecycle \<Rightarrow> lifecycle" where
  "stopSource stop h = (if stop then h\<lparr>sourceRuns := False, closing := Joining\<rparr> else h\<lparr>closing := Closed\<rparr>)"

definition closeListener :: "lifecycle \<Rightarrow> lifecycle" where
  "closeListener h = h\<lparr>closing := ListenerClosed, listening := False\<rparr>"

datatype hostEvent =
    Served | ServedTwice | Accepted | WorkerDone | WorkerStopped | AcceptBroken | AcceptFailed | Stopped | ServeReturned
  | Cancel | DeferredClose | CloseListener | ReadStop | StopCalled | StopDone
  | StartBegun | StartEnded bool | SourceEnded | FollowerStopped

inductive hostStep :: "lifecycle \<Rightarrow> hostEvent \<Rightarrow> lifecycle \<Rightarrow> bool" where
  served: "phase h = Idle \<Longrightarrow> hostStep h Served (h\<lparr>phase := Accepting\<rparr>)"
| served_twice: "phase h \<noteq> Idle \<Longrightarrow> hostStep h ServedTwice h"
| accepted: "phase h = Accepting \<Longrightarrow> hostStep h Accepted (admit h)"
| worker_done: "0 < active h \<Longrightarrow> hostStep h WorkerDone (h\<lparr>active := active h - 1\<rparr>)"
| worker_stopped: "0 < active h \<Longrightarrow> isCancelled h \<Longrightarrow> hostStep h WorkerStopped (h\<lparr>active := active h - 1\<rparr>)"
| accept_broken: "phase h = Accepting \<Longrightarrow> hostStep h AcceptBroken (h\<lparr>phase := Leaving\<rparr>)"
| accept_failed: "phase h = Accepting \<Longrightarrow> \<not> listening h \<Longrightarrow> hostStep h AcceptFailed (h\<lparr>phase := Leaving\<rparr>)"
| stopped: "phase h = Leaving \<Longrightarrow> closing h = Closed \<Longrightarrow>
    hostStep h Stopped (h\<lparr>phase := Draining, notified := notified h + 1\<rparr>)"
| serve_returned: "phase h = Draining \<Longrightarrow> active h = 0 \<Longrightarrow> hostStep h ServeReturned (h\<lparr>phase := Returned\<rparr>)"
| cancel: "closing h = Open \<Longrightarrow> hostStep h Cancel (h\<lparr>closing := Cancelled\<rparr>)"
| deferred_close: "phase h = Leaving \<Longrightarrow> closing h = Open \<Longrightarrow> hostStep h DeferredClose (h\<lparr>closing := Cancelled\<rparr>)"
| close_listener: "closing h = Cancelled \<Longrightarrow> hostStep h CloseListener (closeListener h)"
| read_stop: "closing h = ListenerClosed \<Longrightarrow> \<not> locked h \<Longrightarrow> hostStep h ReadStop (h\<lparr>closing := StopRead (published h)\<rparr>)"
| stop_called: "closing h = StopRead stop \<Longrightarrow> hostStep h StopCalled (stopSource stop h)"
| stop_done: "closing h = Joining \<Longrightarrow> \<not> following h \<Longrightarrow> hostStep h StopDone (h\<lparr>closing := Closed\<rparr>)"
| start_begun: "\<not> locked h \<Longrightarrow> hostStep h StartBegun (beginStart h)"
| start_ended: "locked h \<Longrightarrow> hostStep h (StartEnded ok) (endStart ok h)"
| source_ended: "following h \<Longrightarrow> \<not> locked h \<Longrightarrow> hostStep h SourceEnded (h\<lparr>following := False\<rparr>)"
| follower_stopped: "following h \<Longrightarrow> isCancelled h \<Longrightarrow> hostStep h FollowerStopped (h\<lparr>following := False\<rparr>)"

inductive hostSteps :: "lifecycle \<Rightarrow> hostEvent list \<Rightarrow> lifecycle \<Rightarrow> bool" where
  idle: "hostSteps h [] h"
| more: "hostSteps h es u \<Longrightarrow> hostStep u e v \<Longrightarrow> hostSteps h (es @ [e]) v"

inductive_cases hostStep_cases: "hostStep h e h'"

text \<open>The relation is a function of the event, so runs can be computed.\<close>

fun hostNext :: "lifecycle \<Rightarrow> hostEvent \<Rightarrow> lifecycle option" where
  "hostNext h Served = (if phase h = Idle then Some (h\<lparr>phase := Accepting\<rparr>) else None)"
| "hostNext h ServedTwice = (if phase h = Idle then None else Some h)"
| "hostNext h Accepted = (if phase h = Accepting then Some (admit h) else None)"
| "hostNext h WorkerDone = (if 0 < active h then Some (h\<lparr>active := active h - 1\<rparr>) else None)"
| "hostNext h WorkerStopped = (if 0 < active h \<and> isCancelled h then Some (h\<lparr>active := active h - 1\<rparr>) else None)"
| "hostNext h AcceptBroken = (if phase h = Accepting then Some (h\<lparr>phase := Leaving\<rparr>) else None)"
| "hostNext h AcceptFailed = (if phase h = Accepting \<and> \<not> listening h then Some (h\<lparr>phase := Leaving\<rparr>) else None)"
| "hostNext h Stopped =
     (if phase h = Leaving \<and> closing h = Closed then Some (h\<lparr>phase := Draining, notified := notified h + 1\<rparr>) else None)"
| "hostNext h ServeReturned = (if phase h = Draining \<and> active h = 0 then Some (h\<lparr>phase := Returned\<rparr>) else None)"
| "hostNext h Cancel = (if closing h = Open then Some (h\<lparr>closing := Cancelled\<rparr>) else None)"
| "hostNext h DeferredClose =
     (if phase h = Leaving \<and> closing h = Open then Some (h\<lparr>closing := Cancelled\<rparr>) else None)"
| "hostNext h CloseListener = (if closing h = Cancelled then Some (closeListener h) else None)"
| "hostNext h ReadStop =
     (if closing h = ListenerClosed \<and> \<not> locked h then Some (h\<lparr>closing := StopRead (published h)\<rparr>) else None)"
| "hostNext h StopCalled = (case closing h of StopRead stop \<Rightarrow> Some (stopSource stop h) | _ \<Rightarrow> None)"
| "hostNext h StopDone = (if closing h = Joining \<and> \<not> following h then Some (h\<lparr>closing := Closed\<rparr>) else None)"
| "hostNext h StartBegun = (if locked h then None else Some (beginStart h))"
| "hostNext h (StartEnded ok) = (if locked h then Some (endStart ok h) else None)"
| "hostNext h SourceEnded = (if following h \<and> \<not> locked h then Some (h\<lparr>following := False\<rparr>) else None)"
| "hostNext h FollowerStopped = (if following h \<and> isCancelled h then Some (h\<lparr>following := False\<rparr>) else None)"

lemma hostStep_iff_next: "hostStep h e h' \<longleftrightarrow> hostNext h e = Some h'"
proof
  show "hostStep h e h' \<Longrightarrow> hostNext h e = Some h'" by (induction rule: hostStep.induct) auto
  show "hostNext h e = Some h' \<Longrightarrow> hostStep h e h'"
    by (cases e) (auto split: if_splits closePhase.splits intro: hostStep.intros hostStep.intros[simplified])
qed

fun hostRun :: "lifecycle \<Rightarrow> hostEvent list \<Rightarrow> lifecycle option" where
  "hostRun h [] = Some h"
| "hostRun h (e # es) = (case hostNext h e of None \<Rightarrow> None | Some u \<Rightarrow> hostRun u es)"

lemma hostSteps_append: "hostSteps u fs v \<Longrightarrow> hostSteps h es u \<Longrightarrow> hostSteps h (es @ fs) v"
  by (induction rule: hostSteps.induct) (auto simp flip: append_assoc intro: hostSteps.intros)

lemma hostSteps_first: "hostStep h e u \<Longrightarrow> hostSteps u es v \<Longrightarrow> hostSteps h (e # es) v"
  using hostSteps_append[OF _ more[OF idle]] by fastforce

lemma hostRun_steps: "hostRun h es = Some h' \<Longrightarrow> hostSteps h es h'"
  by (induction es arbitrary: h) (auto intro: idle hostSteps_first simp: hostStep_iff_next split: option.splits)

subsection \<open>Invariant\<close>

definition beyond :: "servePhase \<Rightarrow> bool" where
  "beyond p \<longleftrightarrow> p = Draining \<or> p = Returned"

definition sound_host :: "lifecycle \<Rightarrow> bool" where
  "sound_host h \<longleftrightarrow> active h \<le> maxCalls
     \<and> notified h = (if beyond (phase h) then 1 else 0)
     \<and> (phase h = Idle \<longrightarrow> active h = 0) \<and> (phase h = Returned \<longrightarrow> active h = 0)
     \<and> (beyond (phase h) \<longrightarrow> closing h = Closed)
     \<and> (listening h \<longrightarrow> closing h = Open \<or> closing h = Cancelled)
     \<and> (sourceRuns h \<or> following h \<longrightarrow> published h) \<and> (published h \<or> locked h \<longrightarrow> initialized h) \<and> (published h \<longrightarrow> \<not> locked h)
     \<and> (case closing h of
          StopRead stop \<Rightarrow> \<not> locked h \<and> (sourceRuns h \<or> following h \<longrightarrow> stop)
        | Joining \<Rightarrow> \<not> locked h \<and> \<not> sourceRuns h
        | Closed \<Rightarrow> \<not> locked h \<and> \<not> sourceRuns h \<and> \<not> following h
        | _ \<Rightarrow> True)"

lemma newHost_sound: "sound_host newHost"
  by (simp add: sound_host_def newHost_def beyond_def)

lemma hostStep_sound: "hostStep h e h' \<Longrightarrow> sound_host h \<Longrightarrow> sound_host h'"
proof (induction rule: hostStep.induct)
  case (accepted h)
  then show ?case by (cases "closing h") (auto simp: sound_host_def admit_def beyond_def)
next
  case (start_begun h)
  then show ?case by (auto simp: sound_host_def beginStart_def isCancelled_def split: closePhase.splits)
next
  case (start_ended h ok)
  then show ?case by (auto simp: sound_host_def endStart_def split: closePhase.splits)
next
  case (stop_called h stop)
  then show ?case by (cases "phase h") (auto simp: sound_host_def stopSource_def beyond_def)
qed (auto simp: sound_host_def beyond_def closeListener_def split: closePhase.splits)

lemma hostSteps_sound: "hostSteps h es h' \<Longrightarrow> sound_host h \<Longrightarrow> sound_host h'"
  by (induction rule: hostSteps.induct) (auto intro: hostStep_sound)


definition reachedHost :: "lifecycle \<Rightarrow> bool" where
  "reachedHost h \<longleftrightarrow> (\<exists>es. hostSteps newHost es h)"

lemma reached_sound: "reachedHost h \<Longrightarrow> sound_host h"
  unfolding reachedHost_def using hostSteps_sound newHost_sound by blast

subsection \<open>The end of \<open>Serve\<close>\<close>

text \<open>What happens without a client, a caller or the system doing anything more.\<close>

fun certain :: "hostEvent \<Rightarrow> bool" where
  "certain Served = False"
| "certain ServedTwice = False"
| "certain Accepted = False"
| "certain WorkerDone = False"
| "certain AcceptBroken = False"
| "certain Cancel = False"
| "certain StartBegun = False"
| "certain SourceEnded = False"
| "certain _ = True"

definition shuttingDown :: "lifecycle \<Rightarrow> bool" where
  "shuttingDown h \<longleftrightarrow> phase h \<noteq> Idle \<and> (isCancelled h \<or> phase h = Leaving)"

fun phaseLeft :: "servePhase \<Rightarrow> nat" where
  "phaseLeft Returned = 0"
| "phaseLeft Draining = 1"
| "phaseLeft Leaving = 2"
| "phaseLeft _ = 3"

fun closeLeft :: "closePhase \<Rightarrow> nat" where
  "closeLeft Closed = 0"
| "closeLeft Joining = 1"
| "closeLeft (StopRead stop) = 2"
| "closeLeft ListenerClosed = 3"
| "closeLeft Cancelled = 4"
| "closeLeft Open = 5"

definition hostLeft :: "lifecycle \<Rightarrow> nat" where
  "hostLeft h = phaseLeft (phase h) + closeLeft (closing h) + active h + (if locked h then 2 else 0)
     + (if following h then 1 else 0)"

lemma certain_decreases:
  "hostStep h e h' \<Longrightarrow> certain e \<Longrightarrow> shuttingDown h \<Longrightarrow> shuttingDown h' \<and> hostLeft h' < hostLeft h"
  by (induction rule: hostStep.induct)
    (auto simp: shuttingDown_def hostLeft_def isCancelled_def closeListener_def stopSource_def endStart_def)

lemma certain_bounded:
  "hostSteps h es h' \<Longrightarrow> list_all certain es \<Longrightarrow> shuttingDown h \<Longrightarrow> shuttingDown h' \<and> hostLeft h' + length es \<le> hostLeft h"
proof (induction rule: hostSteps.induct)
  case (more h es u e v)
  then show ?case using certain_decreases [OF more.hyps(2)] by fastforce
qed simp

lemma hostLeft_bound: "sound_host h \<Longrightarrow> shuttingDown h \<Longrightarrow> hostLeft h \<le> 73"
  by (cases "phase h"; cases "closing h")
    (auto simp: sound_host_def shuttingDown_def isCancelled_def hostLeft_def maxCalls_def beyond_def)

lemma certain_possible:
  assumes "sound_host h" and "shuttingDown h" and "phase h \<noteq> Returned"
  shows "\<exists>e u. certain e \<and> hostStep h e u"
proof -
  have goes: ?thesis if "certain e" "hostNext h e \<noteq> None" for e
    using that by (auto simp: hostStep_iff_next)
  show ?thesis
  proof (cases "closing h")
    case Open
    with assms(2) show ?thesis by (intro goes [of DeferredClose]) (auto simp: shuttingDown_def isCancelled_def)
  next
    case Cancelled
    then show ?thesis by (intro goes [of CloseListener]) auto
  next
    case ListenerClosed
    then show ?thesis using goes [of "StartEnded False"] goes [of ReadStop] by (cases "locked h") simp_all
  next
    case (StopRead stop)
    then show ?thesis by (intro goes [of StopCalled]) auto
  next
    case Joining
    then show ?thesis
      using goes [of FollowerStopped] goes [of StopDone] by (cases "following h") (simp_all add: isCancelled_def)
  next
    case Closed
    show ?thesis
    proof (cases "phase h")
      case Accepting
      with Closed assms(1) show ?thesis by (intro goes [of AcceptFailed]) (auto simp: sound_host_def)
    next
      case Leaving
      with Closed show ?thesis by (intro goes [of Stopped]) auto
    next
      case Draining
      with Closed show ?thesis
        using goes [of ServeReturned] goes [of WorkerStopped] by (cases "active h = 0") (simp_all add: isCancelled_def)
    qed (use assms in \<open>auto simp: shuttingDown_def\<close>)
  qed
qed

subsection \<open>Properties\<close>

text \<open>C34: at most 64 calls are served at a time; \<open>OnStopped\<close> runs once, after everything is closed and before
  \<open>Serve\<close> returns; and when \<open>Serve\<close> has returned, no call is under way, no source of changes runs and
  nobody follows one.\<close>

theorem host_lifecycle:
  assumes "hostSteps newHost es h"
  shows "active h \<le> 64 \<and> notified h \<le> 1
    \<and> (phase h = Returned \<longrightarrow> active h = 0 \<and> notified h = 1 \<and> closing h = Closed \<and> \<not> sourceRuns h \<and> \<not> following h)"
  using hostSteps_sound[OF assms newHost_sound] by (auto simp: sound_host_def beyond_def maxCalls_def)

text \<open>C14: once \<open>Close\<close> has returned there is no source of changes any more, and no later step of any goroutine
  starts one again.\<close>

theorem closed_stays_closed:
  assumes "hostSteps newHost es h" "closing h = Closed" "hostSteps h fs h'"
  shows "closing h' = Closed \<and> \<not> sourceRuns h' \<and> \<not> following h' \<and> active h' \<le> 64"
proof -
  have "sound_host h" by (rule hostSteps_sound[OF assms(1) newHost_sound])
  then have sound: "sound_host h'" by (rule hostSteps_sound[OF assms(3)])
  have "closing h' = Closed" using assms(3,2)
    by (induction rule: hostSteps.induct) (auto elim!: hostStep_cases simp: admit_def beginStart_def endStart_def stopSource_def)
  with sound show ?thesis by (simp add: sound_host_def maxCalls_def)
qed

text \<open>C32: no interleaving leaves the shutdown stuck: from wherever the goroutines are once the context is cancelled,
  or \<open>Accept\<close> has failed, \<open>Serve\<close> returns after at most 73 steps more, and until then the next one is always
  possible and needs no client, no caller and no further event of the source: \<open>Accept\<close> is ended by the closed
  listener, the calls and the goroutine that follows the source by the cancelled context.\<close>

theorem serve_can_return:
  assumes "hostSteps newHost es h" and "phase h \<noteq> Idle" and "closing h \<noteq> Open \<or> phase h = Leaving"
    and "hostSteps h fs h'" and "list_all certain fs"
  shows "length fs \<le> 73 \<and> (phase h' \<noteq> Returned \<longrightarrow> (\<exists>e u. certain e \<and> hostStep h' e u))"
proof -
  have h: "sound_host h" by (rule hostSteps_sound [OF assms(1) newHost_sound])
  have "shuttingDown h" using assms(2,3) by (auto simp: shuttingDown_def isCancelled_def)
  with certain_bounded [OF assms(4,5)] hostLeft_bound [OF h] certain_possible [OF hostSteps_sound [OF assms(4) h]]
  show ?thesis by fastforce
qed

subsection \<open>A run\<close>

text \<open>A source is still being started when the context is cancelled; a call is under way.\<close>

definition closingRun :: "hostEvent list" where
  "closingRun = [Served, Accepted, StartBegun, Cancel, CloseListener]"

definition closedRun :: "hostEvent list" where
  "closedRun = closingRun @ [StartEnded True, ReadStop, StopCalled, FollowerStopped, StopDone]"

definition returnedRun :: "hostEvent list" where
  "returnedRun = closedRun @ [AcceptFailed, Stopped, WorkerStopped, ServeReturned]"

lemmas hostRun_defs = closingRun_def closedRun_def returnedRun_def newHost_def admit_def beginStart_def endStart_def
  stopSource_def closeListener_def isCancelled_def maxCalls_def

lemma returnedRun_runs: "hostSteps newHost returnedRun (the (hostRun newHost returnedRun))"
  by (rule hostRun_steps) (simp add: hostRun_defs)

lemma closedRun_runs: "hostSteps newHost closedRun (the (hostRun newHost closedRun))"
  by (rule hostRun_steps) (simp add: hostRun_defs)

lemma closingRun_runs: "hostSteps newHost closingRun (the (hostRun newHost closingRun))"
  by (rule hostRun_steps) (simp add: hostRun_defs)

lemma after_closedRun: "hostSteps (the (hostRun newHost closedRun)) [AcceptFailed, StartBegun]
    (the (hostRun (the (hostRun newHost closedRun)) [AcceptFailed, StartBegun]))"
  by (rule hostRun_steps) (simp add: hostRun_defs)

theorem host_lifecycle_witness:
  "active (the (hostRun newHost returnedRun)) \<le> 64 \<and> notified (the (hostRun newHost returnedRun)) = 1
    \<and> \<not> sourceRuns (the (hostRun newHost returnedRun))"
  using host_lifecycle[OF returnedRun_runs] by (simp add: hostRun_defs)

theorem closed_stays_closed_witness:
  "closing (the (hostRun (the (hostRun newHost closedRun)) [AcceptFailed, StartBegun])) = Closed"
  using closed_stays_closed[OF closedRun_runs _ after_closedRun] by (simp add: hostRun_defs)

text \<open>The rest of that run is made of such steps, and one is missing at its end.\<close>

theorem serve_can_return_witness:
  "length [StartEnded True, ReadStop, StopCalled, FollowerStopped, StopDone, AcceptFailed, Stopped, WorkerStopped] \<le> 73
    \<and> (\<exists>e u. certain e \<and> hostStep (the (hostRun (the (hostRun newHost closingRun))
        [StartEnded True, ReadStop, StopCalled, FollowerStopped, StopDone, AcceptFailed, Stopped, WorkerStopped])) e u)"
proof -
  let ?fs = "[StartEnded True, ReadStop, StopCalled, FollowerStopped, StopDone, AcceptFailed, Stopped, WorkerStopped]"
  let ?h = "the (hostRun newHost closingRun)"
  have "hostSteps ?h ?fs (the (hostRun ?h ?fs))" by (rule hostRun_steps) (simp add: hostRun_defs)
  from serve_can_return [OF closingRun_runs _ _ this] show ?thesis by (simp add: hostRun_defs)
qed

end
