(* ===== verification/Notify.thy ===== *)
theory Notify
  imports Paths
begin

section \<open>Directory notification on Unix\<close>

text \<open>
  Models \<open>notifyDirs\<close> of \<open>go/notify_linux.go\<close> and \<open>go/notify_bsd.go\<close>. The calls of the operating system are
  records of functions on a world \<open>'w\<close>. Beside the world the state keeps the descriptors the process
  owns: a call that opens one adds it, \<open>close\<close> takes it away, and closing what is not owned is recorded. The
  lemmas show that every way out of \<open>notifyDirs\<close> that fails gives back what it took, and that whatever
  the goroutine, the stop function and the system do, in any order, nothing is closed twice and
  nothing is left open.
\<close>

subsection \<open>Descriptors\<close>

datatype osError = NotExist | OsError bytes

record 'w process =
  kernel :: 'w
  owned :: "nat multiset"
  misclosed :: bool

definition asks :: "('w \<Rightarrow> 'a \<times> 'w) \<Rightarrow> 'w process \<Rightarrow> 'a \<times> 'w process" where
  "asks f s = (case f (kernel s) of (x, w) \<Rightarrow> (x, s\<lparr>kernel := w\<rparr>))"

definition closeFd :: "nat \<Rightarrow> 'w process \<Rightarrow> 'w process" where
  "closeFd fd s = s\<lparr>owned := owned s - {#fd#}, misclosed := misclosed s \<or> fd \<notin># owned s\<rparr>"

definition holdFd :: "nat \<Rightarrow> 'w process \<Rightarrow> 'w process" where
  "holdFd fd s = s\<lparr>owned := add_mset fd (owned s)\<rparr>"

definition closeAll :: "nat list \<Rightarrow> 'w process \<Rightarrow> 'w process" where
  "closeAll fds s = foldl (\<lambda>s fd. closeFd fd s) s fds"

text \<open>What a part of the program answers for: beside what others own, exactly the descriptors \<open>M\<close>.\<close>

definition holds :: "nat multiset \<Rightarrow> nat multiset \<Rightarrow> 'w process \<Rightarrow> bool" where
  "holds others M s \<longleftrightarrow> owned s = others + M \<and> \<not> misclosed s"

lemma holds_asks: "asks f s = (x, s') \<Longrightarrow> holds others M s' = holds others M s"
  by (auto simp: asks_def holds_def split: prod.splits)

lemma holds_open [simp]: "holds others (add_mset fd M) (holdFd fd s) = holds others M s"
  by (simp add: holds_def holdFd_def)

lemma holds_close: "holds others (add_mset fd M) s \<Longrightarrow> holds others M (closeFd fd s)"
  by (simp add: holds_def closeFd_def)

lemma holds_closeAll: "holds others (M + mset fds) s \<Longrightarrow> holds others M (closeAll fds s)"
proof (induction fds arbitrary: s)
  case (Cons fd fds)
  from Cons.prems have "holds others (M + mset fds) (closeFd fd s)" by (intro holds_close) simp
  with Cons.IH show ?case by (simp add: closeAll_def)
qed (simp add: closeAll_def)

subsection \<open>A notification as a protocol\<close>

text \<open>
  What both systems promise: a state says which process it runs in and which descriptors it still has to close;
  every step keeps that account, and when the goroutine is over and the stop function was called there is
  nothing left to close.
\<close>

locale notification =
  fixes step :: "'s \<Rightarrow> 'e \<Rightarrow> 's \<Rightarrow> bool"
    and process :: "'s \<Rightarrow> 'w process"
    and owes :: "'s \<Rightarrow> nat multiset"
    and sound :: "'s \<Rightarrow> bool"
    and over :: "'s \<Rightarrow> bool"
  assumes step_keeps: "step s e s' \<Longrightarrow> sound s \<Longrightarrow> holds others (owes s) (process s) \<Longrightarrow>
      sound s' \<and> holds others (owes s') (process s')"
    and over_owes: "sound s \<Longrightarrow> over s \<Longrightarrow> owes s = {#}"
begin

lemma steps_keep:
  assumes "(\<lambda>s t. \<exists>e. step s e t)\<^sup>*\<^sup>* s t" and "sound s" and "holds others (owes s) (process s)"
  shows "sound t \<and> holds others (owes t) (process t)"
  using assms by (induction rule: rtranclp_induct) (auto dest: step_keeps)

lemma nothing_left:
  assumes "(\<lambda>s t. \<exists>e. step s e t)\<^sup>*\<^sup>* s t" and "sound s" and "holds others (owes s) (process s)" and "over t"
  shows "holds others {#} (process t)"
  using steps_keep [OF assms(1-3)] over_owes assms(4) by metis

end

subsection \<open>inotify\<close>

record 'w inotifyOs =
  InotifyInit :: "'w \<Rightarrow> (bytes + nat) \<times> 'w"
  AddWatch :: "nat \<Rightarrow> bytes \<Rightarrow> 'w \<Rightarrow> bool \<times> 'w"

fun addWatches :: "'w inotifyOs \<Rightarrow> nat \<Rightarrow> bytes list \<Rightarrow> nat \<Rightarrow> 'w process \<Rightarrow> nat \<times> 'w process" where
  "addWatches os fd [] added s = (added, s)"
| "addWatches os fd (dir # dirs) added s =
     (case asks (AddWatch os fd dir) s of (ok, s) \<Rightarrow> addWatches os fd dirs (if ok then added + 1 else added) s)"

text \<open>The goroutine and the stop function share an \<open>os.File\<close>, which closes its descriptor once; the channel
  holds at most one event.\<close>

record 'w inotifyWatch =
  descriptor :: nat
  fileOpen :: bool
  reading :: bool
  event :: bool
  running :: "'w process"

definition inotifyDirs :: "'w inotifyOs \<Rightarrow> bytes list \<Rightarrow> 'w process \<Rightarrow> (bytes \<times> 'w process) + 'w inotifyWatch" where
  "inotifyDirs os dirs s =
     (if dirs = [] then Inl (lit ''no configuration directory exists yet'', s)
      else (case asks (InotifyInit os) s of
          (Inl e, s) \<Rightarrow> Inl (e, s)
        | (Inr fd, s) \<Rightarrow>
            (case addWatches os fd dirs 0 (holdFd fd s) of
               (added, s) \<Rightarrow>
                 if added = 0 then Inl (lit ''the configuration directory cannot be watched'', closeFd fd s)
                 else Inr \<lparr>descriptor = fd, fileOpen = True, reading = True, event = False, running = s\<rparr>)))"

definition closeFile :: "'w inotifyWatch \<Rightarrow> 'w inotifyWatch" where
  "closeFile s = (if fileOpen s then s\<lparr>fileOpen := False, running := closeFd (descriptor s) (running s)\<rparr> else s)"

datatype inotifyEvent = ReadOk | ReadFailed | Received | StopCalled

inductive inotifyStep :: "'w inotifyWatch \<Rightarrow> inotifyEvent \<Rightarrow> 'w inotifyWatch \<Rightarrow> bool" where
  read_ok: "reading s \<Longrightarrow> fileOpen s \<Longrightarrow> inotifyStep s ReadOk (s\<lparr>event := True\<rparr>)"
| read_failed: "reading s \<Longrightarrow> inotifyStep s ReadFailed (closeFile (s\<lparr>reading := False\<rparr>))"
| received: "event s \<Longrightarrow> inotifyStep s Received (s\<lparr>event := False\<rparr>)"
| stop_called: "inotifyStep s StopCalled (closeFile s)"

definition inotifyOwes :: "'w inotifyWatch \<Rightarrow> nat multiset" where
  "inotifyOwes s = (if fileOpen s then {#descriptor s#} else {#})"

definition inotifySound :: "'w inotifyWatch \<Rightarrow> bool" where
  "inotifySound s \<longleftrightarrow> (fileOpen s \<longrightarrow> reading s)"

lemma closeFile_keeps:
  "holds others (inotifyOwes s) (running s) \<Longrightarrow> holds others (inotifyOwes (closeFile s)) (running (closeFile s))"
  by (auto simp: inotifyOwes_def closeFile_def intro: holds_close)

lemma closeFile_closed [simp]: "\<not> fileOpen (closeFile s)"
  by (simp add: closeFile_def)

interpretation inotify: notification inotifyStep running inotifyOwes inotifySound "\<lambda>s. \<not> fileOpen s"
proof
  fix s :: "'w inotifyWatch" and e s' others
  assume "inotifyStep s e s'" "inotifySound s" "holds others (inotifyOwes s) (running s)"
  then show "inotifySound s' \<and> holds others (inotifyOwes s') (running s')"
  proof cases
    case read_failed
    then show ?thesis using closeFile_keeps [of others "s\<lparr>reading := False\<rparr>"] \<open>holds _ _ _\<close>
      by (cases "fileOpen s") (simp_all add: inotifyOwes_def inotifySound_def)
  next
    case stop_called
    then show ?thesis using closeFile_keeps [OF \<open>holds _ _ _\<close>] by (simp add: inotifySound_def)
  qed (auto simp: inotifyOwes_def inotifySound_def)
next
  show "inotifySound s \<Longrightarrow> \<not> fileOpen s \<Longrightarrow> inotifyOwes s = {#}" for s :: "'w inotifyWatch"
    by (simp add: inotifyOwes_def)
qed

lemma addWatches_holds: "addWatches os fd dirs added s = (n, s') \<Longrightarrow> holds others M s' = holds others M s"
  by (induction os fd dirs added s rule: addWatches.induct) (auto simp: holds_asks split: prod.splits)

lemma inotifyDirs_holds:
  assumes "holds others {#} s"
  shows "case inotifyDirs os dirs s of Inl (e, s') \<Rightarrow> holds others {#} s'
    | Inr t \<Rightarrow> inotifySound t \<and> holds others (inotifyOwes t) (running t)"
  using assms
  by (auto simp: inotifyDirs_def inotifySound_def inotifyOwes_def holds_asks holds_open addWatches_holds
      split: prod.splits sum.splits intro!: holds_close)


subsection \<open>kqueue\<close>

record ('w, 'i) kqueueOs =
  Kqueue :: "'w \<Rightarrow> (bytes + nat) \<times> 'w"
  MakePipe :: "'w \<Rightarrow> (bytes + nat \<times> nat) \<times> 'w"
  OpenNode :: "bytes \<Rightarrow> 'w \<Rightarrow> (osError + nat) \<times> 'w"
  StatNode :: "nat \<Rightarrow> 'w \<Rightarrow> (osError + 'i) \<times> 'w"
  Plain :: "'i \<Rightarrow> bool"
  Subscribe :: "nat \<Rightarrow> nat \<Rightarrow> 'w \<Rightarrow> osError option \<times> 'w"
  SubscribeWake :: "nat \<Rightarrow> nat \<Rightarrow> 'w \<Rightarrow> bytes option \<times> 'w"
  StatPath :: "bytes \<Rightarrow> 'w \<Rightarrow> (osError + 'i) \<times> 'w"
  SameFile :: "'i \<Rightarrow> 'i \<Rightarrow> bool"

text \<open>\<open>opened\<close>: the watched paths, the descriptor of each and what \<open>Stat\<close> told of it. An assignment to a
  present key replaces the entry, and the descriptor in it is forgotten.\<close>

type_synonym 'i nodes = "(bytes \<times> nat \<times> 'i) list"

definition forget :: "bytes \<Rightarrow> 'i nodes \<Rightarrow> 'i nodes" where
  "forget path nodes = filter (\<lambda>n. fst n \<noteq> path) nodes"

definition nodeFds :: "'i nodes \<Rightarrow> nat list" where
  "nodeFds nodes = map (\<lambda>n. fst (snd n)) nodes"

definition addNode ::
    "('w, 'i) kqueueOs \<Rightarrow> nat \<Rightarrow> bytes \<Rightarrow> 'i nodes \<times> 'w process \<Rightarrow> osError option \<times> 'i nodes \<times> 'w process" where
  "addNode os kq path st =
     (case st of (nodes, s) \<Rightarrow>
       (case asks (OpenNode os path) s of
          (Inl e, s) \<Rightarrow> (Some e, nodes, s)
        | (Inr fd, s) \<Rightarrow>
            (case asks (StatNode os fd) (holdFd fd s) of
               (Inl e, s) \<Rightarrow> (Some e, nodes, closeFd fd s)
             | (Inr info, s) \<Rightarrow>
                 if \<not> Plain os info then (None, nodes, closeFd fd s)
                 else (case asks (Subscribe os kq fd) s of
                     (Some e, s) \<Rightarrow> (Some e, nodes, closeFd fd s)
                   | (None, s) \<Rightarrow> (None, (path, fd, info) # forget path nodes, s)))))"

text \<open>The first loop: the directories that can be watched, each once, with the paths so far.\<close>

fun addDirs ::
    "('w, 'i) kqueueOs \<Rightarrow> nat \<Rightarrow> bytes list \<Rightarrow> bytes list \<Rightarrow> 'i nodes \<times> 'w process \<Rightarrow> bytes list \<times> 'i nodes \<times> 'w process"
  where
  "addDirs os kq [] paths st = (paths, st)"
| "addDirs os kq (dir # dirs) paths st =
     (if dir \<in> set paths then addDirs os kq dirs paths st
      else (case addNode os kq dir st of
          (Some e, st) \<Rightarrow> addDirs os kq dirs paths st
        | (None, st) \<Rightarrow>
            if dir \<notin> fst ` set (fst st) then addDirs os kq dirs paths st
            else addDirs os kq dirs (paths @ [dir]) st))"

text \<open>One round of the loop of \<open>refresh\<close>, and the loop; the failures are collected.\<close>

definition refreshOne ::
    "('w, 'i) kqueueOs \<Rightarrow> nat \<Rightarrow> bytes \<Rightarrow> 'i nodes \<times> 'w process \<Rightarrow> osError option \<times> 'i nodes \<times> 'w process" where
  "refreshOne os kq path st =
     (case st of (nodes, s) \<Rightarrow>
       (case asks (StatPath os path) s of (answer, s) \<Rightarrow>
         (let old = map_of nodes path in
          if (case answer of Inl e \<Rightarrow> e \<noteq> NotExist | Inr _ \<Rightarrow> False)
          then ((case answer of Inl e \<Rightarrow> Some e | Inr _ \<Rightarrow> None), nodes, s)
          else if (case (answer, old) of (Inr info, Some (fd, was)) \<Rightarrow> SameFile os info was | _ \<Rightarrow> False)
          then (None, nodes, s)
          else
            (let (nodes, s) = (case old of Some (fd, was) \<Rightarrow> (forget path nodes, closeFd fd s) | None \<Rightarrow> (nodes, s)) in
             if answer = Inl NotExist then (None, nodes, s)
             else (case addNode os kq path (nodes, s) of
                 (Some e, st) \<Rightarrow> (if e \<noteq> NotExist then Some e else None, st)
               | (None, st) \<Rightarrow> (None, st))))))"

fun refresh ::
    "('w, 'i) kqueueOs \<Rightarrow> nat \<Rightarrow> bytes list \<Rightarrow> 'i nodes \<times> 'w process \<Rightarrow> osError list \<times> 'i nodes \<times> 'w process" where
  "refresh os kq [] st = ([], st)"
| "refresh os kq (path # paths) st =
     (case refreshOne os kq path st of (failure, st) \<Rightarrow>
       (case refresh os kq paths st of (failures, st) \<Rightarrow> (case failure of Some e \<Rightarrow> e # failures | None \<Rightarrow> failures, st)))"

text \<open>\<open>cleanup\<close>, and the same with the writing end of the pipe for \<open>fail\<close>.\<close>

definition cleanup :: "nat \<Rightarrow> nat \<Rightarrow> 'i nodes \<Rightarrow> 'w process \<Rightarrow> 'w process" where
  "cleanup kq wake nodes s = closeAll (nodeFds nodes) (closeFd wake (closeFd kq s))"


text \<open>The watch that runs: what the goroutine and the stop function share. \<open>stopSent\<close> is the \<open>sync.Once\<close> of
  \<open>signalStop\<close>, \<open>following\<close> ends with \<open>close(done)\<close>, \<open>notice\<close> is the one place of the channel.\<close>

record ('w, 'i) kqueueWatch =
  queue :: nat
  wakeRead :: nat
  wakeWrite :: nat
  paths :: "bytes list"
  nodes :: "'i nodes"
  stopSent :: bool
  following :: bool
  notice :: bool
  rearmFailed :: "osError list"
  host :: "'w process"

definition errorText :: "osError \<Rightarrow> bytes" where
  "errorText e = (case e of NotExist \<Rightarrow> lit ''file does not exist'' | OsError t \<Rightarrow> t)"

text \<open>\<open>errors.Join\<close>: the texts, one to a line.\<close>

fun joinErrors :: "osError list \<Rightarrow> bytes" where
  "joinErrors [] = []"
| "joinErrors [e] = errorText e"
| "joinErrors (e # es) = errorText e @ [ch CHR 0x0A] @ joinErrors es"

definition failWatch :: "nat \<Rightarrow> nat \<times> nat \<Rightarrow> 'i nodes \<times> 'w process \<Rightarrow> bytes \<Rightarrow> bytes \<times> 'w process" where
  "failWatch kq wake st e = (e, closeFd (snd wake) (cleanup kq (fst wake) (fst st) (snd st)))"

definition kqueueDirs ::
    "('w, 'i) kqueueOs \<Rightarrow> bytes list \<Rightarrow> bytes list \<Rightarrow> 'w process \<Rightarrow> (bytes \<times> 'w process) + ('w, 'i) kqueueWatch" where
  "kqueueDirs os sources dirs s =
     (if dirs = [] then Inl (lit ''no configuration directory exists yet'', s)
      else (case asks (Kqueue os) s of
          (Inl e, s) \<Rightarrow> Inl (e, s)
        | (Inr kq, s) \<Rightarrow>
            (case asks (MakePipe os) (holdFd kq s) of
               (Inl e, s) \<Rightarrow> Inl (e, closeFd kq s)
             | (Inr (r, w), s) \<Rightarrow>
                 (case addDirs os kq dirs [] ([], holdFd w (holdFd r s)) of (watched, st) \<Rightarrow>
                   if fst st = [] then Inl (failWatch kq (r, w) st (lit ''the configuration directory cannot be watched''))
                   else (let paths = watched @ filter (\<lambda>path. Dir path \<in> set watched) sources in
                     case refresh os kq paths st of (failures, st) \<Rightarrow>
                       if failures \<noteq> [] then Inl (failWatch kq (r, w) st (joinErrors failures))
                       else (case asks (SubscribeWake os kq r) (snd st) of
                           (Some e, s) \<Rightarrow> Inl (failWatch kq (r, w) (fst st, s) e)
                         | (None, s) \<Rightarrow>
                             Inr \<lparr>queue = kq, wakeRead = r, wakeWrite = w, paths = paths, nodes = fst st,
                               stopSent = False, following = True, notice = False, rearmFailed = [], host = s\<rparr>))))))"

definition signalStop :: "('w, 'i) kqueueWatch \<Rightarrow> ('w, 'i) kqueueWatch" where
  "signalStop s = (if stopSent s then s else s\<lparr>stopSent := True, host := closeFd (wakeWrite s) (host s)\<rparr>)"

text \<open>The deferred calls of the goroutine, and one turn of its loop for what \<open>Kevent\<close> answered.\<close>

definition finishFollowing :: "('w, 'i) kqueueWatch \<Rightarrow> ('w, 'i) kqueueWatch" where
  "finishFollowing s =
     (let s = signalStop s in
      s\<lparr>following := False, nodes := [], host := cleanup (queue s) (wakeRead s) (nodes s) (host s)\<rparr>)"

datatype kevents = Interrupted | QueueFailed bytes | Idents "nat list"

definition followTurn :: "('w, 'i) kqueueOs \<Rightarrow> kevents \<Rightarrow> ('w, 'i) kqueueWatch \<Rightarrow> ('w, 'i) kqueueWatch" where
  "followTurn os ev s =
     (case ev of
        Interrupted \<Rightarrow> s
      | QueueFailed e \<Rightarrow> finishFollowing s
      | Idents ids \<Rightarrow>
          if wakeRead s \<in> set ids then finishFollowing s
          else if ids \<noteq> [] then
            (case refresh os (queue s) (paths s) (nodes s, host s) of
               (failures, (ns, p)) \<Rightarrow> s\<lparr>nodes := ns, host := p, rearmFailed := failures, notice := True\<rparr>)
          else s)"

datatype kqueueEvent = Answered kevents | NoticeTaken | StopAsked

inductive kqueueStep :: "('w, 'i) kqueueOs \<Rightarrow> ('w, 'i) kqueueWatch \<Rightarrow> kqueueEvent \<Rightarrow> ('w, 'i) kqueueWatch \<Rightarrow> bool"
  for os where
  answered: "following s \<Longrightarrow> kqueueStep os s (Answered ev) (followTurn os ev s)"
| notice_taken: "notice s \<Longrightarrow> kqueueStep os s NoticeTaken (s\<lparr>notice := False\<rparr>)"
| stop_asked: "kqueueStep os s StopAsked (signalStop s)"


subsection \<open>The account of the watched files\<close>

definition nodesHeld :: "nat multiset \<Rightarrow> nat multiset \<Rightarrow> 'i nodes \<times> 'w process \<Rightarrow> bool" where
  "nodesHeld others M st \<longleftrightarrow> holds others (M + mset (nodeFds (fst st))) (snd st) \<and> distinct (map fst (fst st))"

lemma forget_absent: "path \<notin> fst ` set ns \<Longrightarrow> forget path ns = ns"
  unfolding forget_def by (rule filter_True) auto

lemma forget_names: "fst ` set (forget path ns) = fst ` set ns - {path}"
  by (auto simp: forget_def)

lemma forget_fds:
  assumes "distinct (map fst ns)" and "map_of ns path = Some (fd, was)"
  shows "mset (nodeFds ns) = add_mset fd (mset (nodeFds (forget path ns)))"
  using assms
proof (induction ns)
  case (Cons n ns)
  show ?case
  proof (cases "fst n = path")
    case True
    with Cons.prems have "forget path (n # ns) = ns" using forget_absent [of path ns] by (auto simp: forget_def)
    with True Cons.prems(2) show ?thesis by (cases n) (simp add: nodeFds_def)
  next
    case False
    with Cons show ?thesis by (cases n) (simp add: nodeFds_def forget_def)
  qed
qed simp

lemma addNode_held:
  assumes "addNode os kq path st = (e, st')" and "nodesHeld others M st" and "path \<notin> fst ` set (fst st)"
  shows "nodesHeld others M st' \<and> fst ` set (fst st') \<subseteq> insert path (fst ` set (fst st)) \<and> (e = None \<or> fst st' = fst st)"
  using assms
  by (auto simp: addNode_def nodesHeld_def nodeFds_def forget_absent holds_asks
      split: prod.splits sum.splits if_splits option.splits intro!: holds_close)

lemma addDirs_held:
  assumes "addDirs os kq dirs ps st = (ps', st')" and "nodesHeld others M st" and "fst ` set (fst st) \<subseteq> set ps"
  shows "nodesHeld others M st'"
  using assms
proof (induction os kq dirs ps st rule: addDirs.induct)
  case (2 os kq dir dirs ps st)
  show ?case
  proof (cases "dir \<in> set ps")
    case True
    with 2 show ?thesis by simp
  next
    case False
    obtain e u where u: "addNode os kq dir st = (e, u)" by (rule prod.exhaust)
    have "dir \<notin> fst ` set (fst st)" using False "2.prems"(3) by blast
    note held = addNode_held [OF u "2.prems"(2) this]
    have "nodesHeld others M u" using held by simp
    moreover have "fst ` set (fst u) \<subseteq> insert dir (set ps)"
      using held "2.prems"(3) by (meson insert_mono order_trans)
    moreover have "e = None \<or> fst ` set (fst u) \<subseteq> set ps" using held "2.prems"(3) by metis
    ultimately show ?thesis using u False 2 by (cases e) (auto split: if_splits)
  qed
qed simp

lemma refreshOne_held:
  assumes "refreshOne os kq path st = (e, st')" and "nodesHeld others M st"
  shows "nodesHeld others M st'"
proof -
  obtain ns s where st: "st = (ns, s)" by (cases st)
  obtain answer u where u: "asks (StatPath os path) s = (answer, u)" by fastforce
  have held: "nodesHeld others M (ns, u)" using assms(2) holds_asks [OF u] by (simp add: st nodesHeld_def)
  define v where "v = (case map_of ns path of Some (fd, was) \<Rightarrow> (forget path ns, closeFd fd u) | None \<Rightarrow> (ns, u))"
  have "nodesHeld others M v \<and> path \<notin> fst ` set (fst v)"
  proof (cases "map_of ns path")
    case None
    then have "path \<notin> fst ` set ns" by (simp add: map_of_eq_None_iff)
    with None held show ?thesis by (simp add: v_def)
  next
    case (Some n)
    obtain fd was where n: "n = (fd, was)" by (cases n)
    have "distinct (map fst ns)" using held by (simp add: nodesHeld_def)
    with forget_fds [OF this] Some n held show ?thesis
      by (auto simp: v_def nodesHeld_def forget_names distinct_map_filter forget_def intro!: holds_close)
  qed
  with addNode_held [of os kq path v _ _ others M] held assms(1) show ?thesis
    unfolding st refreshOne_def prod.case u Let_def v_def [symmetric]
    by (auto split: if_splits option.splits prod.splits)
qed

lemma refresh_held: "refresh os kq ps st = (es, st') \<Longrightarrow> nodesHeld others M st \<Longrightarrow> nodesHeld others M st'"
  by (induction os kq ps st arbitrary: es st' rule: refresh.induct) (auto split: prod.splits dest: refreshOne_held)


lemma cleanup_holds:
  assumes "nodesHeld others (add_mset r (add_mset kq M)) (ns, s)"
  shows "holds others M (cleanup kq r ns s)"
proof -
  have "holds others (add_mset kq (add_mset r (M + mset (nodeFds ns)))) s"
    using assms by (simp add: nodesHeld_def add_mset_commute)
  then have "holds others (add_mset r (M + mset (nodeFds ns))) (closeFd kq s)" by (rule holds_close)
  then show ?thesis unfolding cleanup_def by - (rule holds_closeAll, rule holds_close)
qed

lemma failWatch_holds:
  assumes "nodesHeld others {#w, r, kq#} st" and "failWatch kq (r, w) st e = (text, s')"
  shows "holds others {#} s'"
proof -
  have "nodesHeld others (add_mset r (add_mset kq {#w#})) (fst st, snd st)"
    using assms(1) by (simp add: add_mset_commute)
  from holds_close [OF cleanup_holds [OF this]] assms(2) show ?thesis by (auto simp: failWatch_def)
qed

definition kqueueOwes :: "('w, 'i) kqueueWatch \<Rightarrow> nat multiset" where
  "kqueueOwes s = (if stopSent s then {#} else {#wakeWrite s#})
     + (if following s then {#wakeRead s, queue s#} + mset (nodeFds (nodes s)) else {#})"

definition kqueueSound :: "('w, 'i) kqueueWatch \<Rightarrow> bool" where
  "kqueueSound s \<longleftrightarrow> distinct (map fst (nodes s)) \<and> (\<not> following s \<longrightarrow> stopSent s)"

text \<open>A failure of \<open>notifyDirs\<close> gives everything back, a success accounts for everything.\<close>

lemma kqueueDirs_holds:
  assumes "holds others {#} s"
  shows "case kqueueDirs os sources dirs s of Inl (e, s') \<Rightarrow> holds others {#} s'
    | Inr t \<Rightarrow> kqueueSound t \<and> holds others (kqueueOwes t) (host t)"
proof (cases "dirs = []")
  case False
  obtain x s1 where s1: "asks (Kqueue os) s = (x, s1)" by (rule prod.exhaust)
  then have h1: "holds others {#} s1" using assms holds_asks [OF s1] by simp
  show ?thesis
  proof (cases x)
    case (Inr kq)
    obtain y s2 where s2: "asks (MakePipe os) (holdFd kq s1) = (y, s2)" by (rule prod.exhaust)
    then have h2: "holds others {#kq#} s2" using h1 holds_asks [OF s2] by simp
    show ?thesis
    proof (cases y)
      case (Inl e)
      then show ?thesis using False s1 s2 Inr holds_close [OF h2] by (simp add: kqueueDirs_def)
    next
      case (Inr wake)
      obtain r w where wake: "wake = (r, w)" by (rule prod.exhaust)
      obtain watched st where st: "addDirs os kq dirs [] ([], holdFd w (holdFd r s2)) = (watched, st)" by (rule prod.exhaust)
      have h3: "nodesHeld others {#w, r, kq#} st"
        using h2 by (intro addDirs_held [OF st]) (simp_all add: nodesHeld_def nodeFds_def)
      obtain failures st' where st': "refresh os kq (watched @ filter (\<lambda>path. Dir path \<in> set watched) sources) st = (failures, st')"
        by (rule prod.exhaust)
      have h4: "nodesHeld others {#w, r, kq#} st'" by (rule refresh_held [OF st' h3])
      obtain z s5 where s5: "asks (SubscribeWake os kq r) (snd st') = (z, s5)" by (rule prod.exhaust)
      have h5: "nodesHeld others {#w, r, kq#} (fst st', s5)" using h4 holds_asks [OF s5] by (simp add: nodesHeld_def)
      show ?thesis
        using False s1 s2 \<open>x = Inr kq\<close> Inr wake st st' s5 h5
        by (auto simp: kqueueDirs_def Let_def kqueueSound_def kqueueOwes_def nodesHeld_def add_mset_commute
            split: option.splits prod.splits if_splits
            dest: failWatch_holds [OF h3] failWatch_holds [OF h4] failWatch_holds [OF h5])
    qed
  qed (use False s1 h1 in \<open>simp add: kqueueDirs_def\<close>)
qed (simp add: kqueueDirs_def assms)

lemma signalStop_keeps:
  assumes "kqueueSound s" and "holds others (kqueueOwes s) (host s)"
  shows "kqueueSound (signalStop s) \<and> holds others (kqueueOwes (signalStop s)) (host (signalStop s))"
  using assms
  by (cases "following s") (auto simp: signalStop_def kqueueSound_def kqueueOwes_def add_mset_commute intro!: holds_close)

lemma finishFollowing_keeps:
  assumes "kqueueSound s" and "holds others (kqueueOwes s) (host s)" and "following s"
  shows "kqueueSound (finishFollowing s) \<and> holds others (kqueueOwes (finishFollowing s)) (host (finishFollowing s))"
proof -
  let ?t = "signalStop s"
  have t: "stopSent ?t" "following ?t" using assms(3) by (auto simp: signalStop_def)
  have k: "kqueueSound ?t" "holds others (kqueueOwes ?t) (host ?t)" using signalStop_keeps [OF assms(1,2)] by simp_all
  then have "nodesHeld others {#wakeRead ?t, queue ?t#} (nodes ?t, host ?t)"
    using t by (simp add: nodesHeld_def kqueueOwes_def kqueueSound_def)
  from cleanup_holds [OF this] t show ?thesis
    by (simp add: finishFollowing_def Let_def kqueueSound_def kqueueOwes_def)
qed

lemma followTurn_keeps:
  assumes "kqueueSound s" and "holds others (kqueueOwes s) (host s)" and "following s"
  shows "kqueueSound (followTurn os ev s) \<and> holds others (kqueueOwes (followTurn os ev s)) (host (followTurn os ev s))"
proof (cases ev)
  case (Idents ids)
  show ?thesis
  proof (cases "wakeRead s \<in> set ids \<or> ids = []")
    case True
    then show ?thesis using assms finishFollowing_keeps [OF assms] by (auto simp: followTurn_def Idents)
  next
    case False
    obtain es ns p where r: "refresh os (queue s) (paths s) (nodes s, host s) = (es, ns, p)" by (metis prod_cases3)
    let ?M = "(if stopSent s then {#} else {#wakeWrite s#}) + {#wakeRead s, queue s#}"
    have "nodesHeld others ?M (nodes s, host s)" using assms by (simp add: nodesHeld_def kqueueOwes_def kqueueSound_def ac_simps)
    from refresh_held [OF r this] False assms(1,3) show ?thesis
      by (cases "stopSent s") (simp_all add: add_mset_commute followTurn_def Idents r nodesHeld_def kqueueOwes_def kqueueSound_def ac_simps)
  qed
qed (use assms finishFollowing_keeps in \<open>auto simp: followTurn_def\<close>)

interpretation kqueue: notification "kqueueStep os" host kqueueOwes kqueueSound "\<lambda>s. \<not> following s"
proof
  fix s e s' others
  assume "kqueueStep os s e s'" "kqueueSound s" "holds others (kqueueOwes s) (host s)"
  then show "kqueueSound s' \<and> holds others (kqueueOwes s') (host s')"
  proof cases
    case answered
    then show ?thesis using followTurn_keeps \<open>kqueueSound s\<close> \<open>holds _ _ _\<close> by blast
  next
    case stop_asked
    then show ?thesis using signalStop_keeps \<open>kqueueSound s\<close> \<open>holds _ _ _\<close> by blast
  qed (auto simp: kqueueSound_def kqueueOwes_def split: if_splits)
next
  show "kqueueSound s \<Longrightarrow> \<not> following s \<Longrightarrow> kqueueOwes s = {#}" for s
    by (simp add: kqueueSound_def kqueueOwes_def)
qed


text \<open>A process with three descriptors open, where \<open>kernel\<close> is the next to hand out.\<close>

definition sampleProcess :: "nat process" where
  "sampleProcess = \<lparr>kernel = 3, owned = {#0, 1, 2#}, misclosed = False\<rparr>"

end
