(* ===== verification/NotifyWindows.thy ===== *)
theory NotifyWindows
  imports Notify
begin

section \<open>Directory notification on Windows\<close>

text \<open>
  Models \<open>go/notify_windows.go\<close>. Each directory has a handle, a completion port, at most one request to the
  system and a goroutine \<open>report\<close>; the stop function marks every directory, cancels its request and waits for
  its goroutine. The system completes a request because something changed or went wrong (\<open>Completes\<close>), which it
  may never do, or because the request was cancelled (\<open>Aborts\<close>), which it does: no other cause is relied on where
  the stop function is shown to return. A section under \<open>d.mu\<close> is one step, and so is each wait. The goroutines are taken to start
  when all directories are open: what they do before concerns no handle of another directory.
\<close>

subsection \<open>One directory\<close>

datatype readAnswer = ReadNow | IoPending | ReadRefused

record 'w winOs =
  Utf16 :: "bytes \<Rightarrow> bool"
  CreateFile :: "bytes \<Rightarrow> 'w \<Rightarrow> nat option \<times> 'w"
  CreatePort :: "nat \<Rightarrow> 'w \<Rightarrow> nat option \<times> 'w"
  ReadDirectory :: "nat \<Rightarrow> 'w \<Rightarrow> readAnswer \<times> 'w"

text \<open>Whether a request is now outstanding: one that is answered at once still queues its completion.\<close>

definition arm :: "'w winOs \<Rightarrow> nat \<Rightarrow> 'w \<Rightarrow> bool \<times> 'w" where
  "arm os h w = (case ReadDirectory os h w of (a, w) \<Rightarrow> (a \<noteq> ReadRefused, w))"

text \<open>Where \<open>report\<close> is: waiting for the port, holding a completion that succeeded or not, announcing after the next
  request was made or refused, in its deferred calls, or over. \<open>handleOpen\<close> stands for \<open>d.h \<noteq> 0\<close>.\<close>

datatype reporterPhase = Waiting | Collected bool | Announcing bool | Leaving | Finished

record directory =
  handle :: nat
  port :: nat
  handleOpen :: bool
  marked :: bool
  pending :: bool
  aborting :: bool
  completion :: "bool option"
  reporter :: reporterPhase

definition openDirectory :: "'w winOs \<Rightarrow> bytes \<Rightarrow> 'w process \<Rightarrow> directory option \<times> 'w process" where
  "openDirectory os dir s =
     (if \<not> Utf16 os dir then (None, s)
      else (case asks (CreateFile os dir) s of
          (None, s) \<Rightarrow> (None, s)
        | (Some h, s) \<Rightarrow>
            (case asks (CreatePort os h) (holdFd h s) of
               (None, s) \<Rightarrow> (None, closeFd h s)
             | (Some q, s) \<Rightarrow>
                 (case asks (arm os h) (holdFd q s) of
                    (False, s) \<Rightarrow> (None, closeFd q (closeFd h s))
                  | (True, s) \<Rightarrow>
                      (Some \<lparr>handle = h, port = q, handleOpen = True, marked = False, pending = True, aborting = False, completion = None,
                         reporter = Waiting\<rparr>, s)))))"

datatype directoryEvent = Completes bool | Aborts | Collects | PortFailed | Judges | Announces | Leaves

definition judge :: "'w winOs \<Rightarrow> bool \<Rightarrow> directory \<times> 'w process \<Rightarrow> directory \<times> 'w process" where
  "judge os ok st =
     (case st of (d, s) \<Rightarrow>
       if marked d \<or> \<not> ok then (d\<lparr>reporter := Leaving\<rparr>, s)
       else (case asks (arm os (handle d)) s of (armed, s) \<Rightarrow> (d\<lparr>pending := armed, aborting := False, reporter := Announcing armed\<rparr>, s)))"

text \<open>A cancellation concerns the request that is outstanding when it is made, if there is one.\<close>

definition cancelIo :: "directory \<Rightarrow> directory" where
  "cancelIo d = d\<lparr>aborting := pending d\<rparr>"

lemma marked_cancelIo [simp]: "marked (cancelIo d) = marked d"
  by (simp add: cancelIo_def)

definition finishReport :: "directory \<times> 'w process \<Rightarrow> directory \<times> 'w process" where
  "finishReport st = (case st of (d, s) \<Rightarrow> (d\<lparr>handleOpen := False, reporter := Finished\<rparr>, closeFd (port d) (closeFd (handle d) s)))"

text \<open>The third component of a state is the one place of the channel \<open>events\<close>.\<close>

inductive directoryStep ::
    "'w winOs \<Rightarrow> directory \<times> 'w process \<times> bool \<Rightarrow> directoryEvent \<Rightarrow> directory \<times> 'w process \<times> bool \<Rightarrow> bool" for os where
  completes: "pending d \<Longrightarrow> directoryStep os (d, s, n) (Completes ok) (d\<lparr>pending := False, completion := Some ok\<rparr>, s, n)"
| aborts: "pending d \<Longrightarrow> aborting d \<Longrightarrow>
    directoryStep os (d, s, n) Aborts (d\<lparr>pending := False, aborting := False, completion := Some False\<rparr>, s, n)"
| collects: "reporter d = Waiting \<Longrightarrow> completion d = Some ok \<Longrightarrow>
    directoryStep os (d, s, n) Collects (d\<lparr>completion := None, reporter := Collected ok\<rparr>, s, n)"
| port_failed: "reporter d = Waiting \<Longrightarrow> directoryStep os (d, s, n) PortFailed (d\<lparr>reporter := Leaving\<rparr>, s, n)"
| judges: "reporter d = Collected ok \<Longrightarrow> judge os ok (d, s) = (d', s') \<Longrightarrow> directoryStep os (d, s, n) Judges (d', s', n)"
| announces: "reporter d = Announcing armed \<Longrightarrow>
    directoryStep os (d, s, n) Announces (d\<lparr>reporter := if armed then Waiting else Leaving\<rparr>, s, True)"
| leaves: "reporter d = Leaving \<Longrightarrow> finishReport (d, s) = (d', s') \<Longrightarrow> directoryStep os (d, s, n) Leaves (d', s', n)"

inductive_cases directoryStepE: "directoryStep os (d, s, n) e (d', s', n')"

definition handles :: "directory \<Rightarrow> nat list" where
  "handles d = (if handleOpen d then [handle d, port d] else [])"

text \<open>A goroutine that waits, or will, has a request outstanding or a completion to collect, and a directory that was
  marked has no request outstanding that is not cancelled.\<close>

definition directorySound :: "directory \<Rightarrow> bool" where
  "directorySound d \<longleftrightarrow> (handleOpen d \<longleftrightarrow> reporter d \<noteq> Finished)
     \<and> (reporter d = Waiting \<or> reporter d = Announcing True \<longrightarrow> pending d \<or> completion d \<noteq> None)
     \<and> \<not> (pending d \<and> completion d \<noteq> None)
     \<and> (\<forall>ok. reporter d = Collected ok \<longrightarrow> \<not> pending d \<and> completion d = None)
     \<and> (marked d \<and> pending d \<and> reporter d \<noteq> Finished \<longrightarrow> aborting d)"

lemma directoryStep_keeps:
  assumes "directoryStep os (d, s, n) e (d', s', n')" and "directorySound d" and "holds others (mset (handles d)) s"
  shows "directorySound d' \<and> holds others (mset (handles d')) s' \<and> (marked d' \<longleftrightarrow> marked d)"
  using assms(1)
proof cases
  case (judges ok)
  then show ?thesis using assms(2,3)
    by (auto simp: judge_def directorySound_def handles_def holds_asks split: if_splits prod.splits)
next
  case leaves
  then have "d' = d\<lparr>handleOpen := False, reporter := Finished\<rparr>" "s' = closeFd (port d) (closeFd (handle d) s)" "handleOpen d"
    using assms(2) by (auto simp: finishReport_def directorySound_def)
  moreover from this assms(3) have "holds others {#} s'" by (auto simp: handles_def intro!: holds_close)
  ultimately show ?thesis using assms(2) by (simp add: directorySound_def handles_def)
qed (use assms(2,3) in \<open>auto simp: directorySound_def handles_def\<close>)

text \<open>What is left for the goroutine of a marked directory.\<close>

fun stepsLeft :: "reporterPhase \<Rightarrow> nat" where
  "stepsLeft Finished = 0"
| "stepsLeft Leaving = 1"
| "stepsLeft (Collected ok) = 2"
| "stepsLeft Waiting = 3"
| "stepsLeft (Announcing armed) = 4"

definition left :: "directory \<Rightarrow> nat" where
  "left d = (if pending d then 1 else 0) + stepsLeft (reporter d)"

lemma marked_decreases:
  "directoryStep os (d, s, n) e (d', s', n') \<Longrightarrow> marked d \<Longrightarrow> left d' < left d"
  by (erule directoryStepE) (auto simp: left_def judge_def finishReport_def)

text \<open>What the goroutine, or the system after a cancellation, is sure to do: a change of the directory, an error of the
  request and a failing port are not among it.\<close>

fun ownStep :: "directoryEvent \<Rightarrow> bool" where
  "ownStep (Completes ok) = False"
| "ownStep PortFailed = False"
| "ownStep _ = True"

lemma marked_goes_on:
  assumes "directorySound d" and "marked d" and "reporter d \<noteq> Finished"
  shows "\<exists>e d' s' n'. ownStep e \<and> directoryStep os (d, s, n) e (d', s', n')"
proof (cases "reporter d")
  case Waiting
  with assms consider "pending d" "aborting d" | ok where "completion d = Some ok" by (auto simp: directorySound_def)
  then show ?thesis
  proof cases
    case 1
    from aborts [OF this, of os s n] show ?thesis by (intro exI [of _ Aborts]) (simp, blast)
  next
    case 2
    from collects [OF Waiting this, of os s n] show ?thesis by (intro exI [of _ Collects]) (simp, blast)
  qed
next
  case (Collected ok)
  obtain d' s' where "judge os ok (d, s) = (d', s')" by fastforce
  from judges [OF Collected this, of n] show ?thesis by (intro exI [of _ Judges]) (simp, blast)
next
  case (Announcing armed)
  from announces [OF this, of os s n] show ?thesis by (intro exI [of _ Announces]) (simp, blast)
next
  case Leaving
  obtain d' s' where "finishReport (d, s) = (d', s')" by fastforce
  from leaves [OF Leaving this, of os n] show ?thesis by (intro exI [of _ Leaves]) (simp, blast)
qed (use assms in simp)


subsection \<open>The whole watch\<close>

text \<open>How far the body of \<open>once.Do\<close> has come; \<open>Marking i\<close> and \<open>Joining i\<close> are its two loops. \<open>misused\<close> records
  a cancellation on a handle that is not open.\<close>

datatype stopPhase = NotAsked | Marking nat | Joining nat | Stopped

record 'w windowsWatch =
  directories :: "directory list"
  stopPhase :: stopPhase
  notice :: bool
  misused :: bool
  program :: "'w process"

fun openDirectories :: "'w winOs \<Rightarrow> bytes list \<Rightarrow> directory list \<Rightarrow> 'w process \<Rightarrow> directory list \<times> 'w process" where
  "openDirectories os [] ds s = (ds, s)"
| "openDirectories os (dir # dirs) ds s =
     (case openDirectory os dir s of
        (None, s) \<Rightarrow> openDirectories os dirs ds s
      | (Some d, s) \<Rightarrow> openDirectories os dirs (ds @ [d]) s)"

definition windowsDirs :: "'w winOs \<Rightarrow> bytes list \<Rightarrow> 'w process \<Rightarrow> (bytes \<times> 'w process) + 'w windowsWatch" where
  "windowsDirs os dirs s =
     (if dirs = [] then Inl (lit ''no configuration directory exists yet'', s)
      else (case openDirectories os dirs [] s of (ds, s) \<Rightarrow>
        if ds = [] then Inl (lit ''the configuration directory cannot be opened for notification'', s)
        else Inr \<lparr>directories = ds, stopPhase = NotAsked, notice = False, misused = False, program = s\<rparr>))"

definition markDirectory :: "nat \<Rightarrow> 'w windowsWatch \<Rightarrow> 'w windowsWatch" where
  "markDirectory i s =
     (let d = directories s ! i;
          d' = (if handleOpen d then cancelIo (d\<lparr>marked := True\<rparr>) else d\<lparr>marked := True\<rparr>) in
      s\<lparr>directories := (directories s)[i := d'], stopPhase := Marking (i + 1),
        misused := misused s \<or> handleOpen d \<and> handle d \<notin># owned (program s)\<rparr>)"

datatype windowsEvent = Directory nat directoryEvent | EventTaken | StopBegins | Marks | AllMarked | Joins | StopReturns

inductive windowsStep :: "'w winOs \<Rightarrow> 'w windowsWatch \<Rightarrow> windowsEvent \<Rightarrow> 'w windowsWatch \<Rightarrow> bool" for os where
  directory: "i < length (directories s) \<Longrightarrow>
    directoryStep os (directories s ! i, program s, notice s) e (d, p, n) \<Longrightarrow>
    windowsStep os s (Directory i e) (s\<lparr>directories := (directories s)[i := d], program := p, notice := n\<rparr>)"
| event_taken: "notice s \<Longrightarrow> windowsStep os s EventTaken (s\<lparr>notice := False\<rparr>)"
| stop_begins: "stopPhase s = NotAsked \<Longrightarrow> windowsStep os s StopBegins (s\<lparr>stopPhase := Marking 0\<rparr>)"
| marks: "stopPhase s = Marking i \<Longrightarrow> i < length (directories s) \<Longrightarrow> windowsStep os s Marks (markDirectory i s)"
| all_marked: "stopPhase s = Marking i \<Longrightarrow> i = length (directories s) \<Longrightarrow>
    windowsStep os s AllMarked (s\<lparr>stopPhase := Joining 0\<rparr>)"
| joins: "stopPhase s = Joining i \<Longrightarrow> i < length (directories s) \<Longrightarrow> reporter (directories s ! i) = Finished \<Longrightarrow>
    windowsStep os s Joins (s\<lparr>stopPhase := Joining (i + 1)\<rparr>)"
| stop_returns: "stopPhase s = Joining i \<Longrightarrow> i = length (directories s) \<Longrightarrow>
    windowsStep os s StopReturns (s\<lparr>stopPhase := Stopped\<rparr>)"

subsection \<open>The account of the handles\<close>

definition windowsOwes :: "'w windowsWatch \<Rightarrow> nat multiset" where
  "windowsOwes s = mset (concat (map handles (directories s)))"

fun markedSoFar :: "stopPhase \<Rightarrow> nat \<Rightarrow> nat" where
  "markedSoFar NotAsked n = 0"
| "markedSoFar (Marking i) n = i"
| "markedSoFar (Joining i) n = n"
| "markedSoFar Stopped n = n"

fun joinedSoFar :: "stopPhase \<Rightarrow> nat \<Rightarrow> nat" where
  "joinedSoFar (Joining i) n = i"
| "joinedSoFar Stopped n = n"
| "joinedSoFar phase n = 0"

definition windowsSound :: "'w windowsWatch \<Rightarrow> bool" where
  "windowsSound s \<longleftrightarrow> (\<forall>d \<in> set (directories s). directorySound d) \<and> \<not> misused s
     \<and> markedSoFar (stopPhase s) (length (directories s)) \<le> length (directories s)
     \<and> joinedSoFar (stopPhase s) (length (directories s)) \<le> length (directories s)
     \<and> (\<forall>i < markedSoFar (stopPhase s) (length (directories s)). marked (directories s ! i))
     \<and> (\<forall>i < joinedSoFar (stopPhase s) (length (directories s)). reporter (directories s ! i) = Finished)"

lemma mset_concat_update:
  assumes "i < length xs"
  shows "mset (concat (xs[i := y])) + mset (xs ! i) = mset (concat xs) + mset y"
proof -
  have "xs = take i xs @ xs ! i # drop (Suc i) xs" using assms by (rule id_take_nth_drop)
  then have "mset (concat xs) = mset (concat (take i xs)) + mset (xs ! i) + mset (concat (drop (Suc i) xs))"
    by (metis concat.simps(2) concat_append mset_append union_assoc)
  moreover have "mset (concat (xs[i := y])) = mset (concat (take i xs)) + mset y + mset (concat (drop (Suc i) xs))"
    using assms by (simp add: upd_conv_take_nth_drop)
  ultimately show ?thesis by simp
qed

lemma finished_stays:
  "directoryStep os (d, s, n) e (d', s', n') \<Longrightarrow> directorySound d \<Longrightarrow> reporter d = Finished \<Longrightarrow> reporter d' = Finished"
  by (erule directoryStepE) (auto simp: directorySound_def)


lemma directory_account:
  assumes "i < length ds" and "holds others (mset (concat (map handles ds))) s"
    and "\<And>others. holds others (mset (handles (ds ! i))) s \<Longrightarrow> holds others (mset (handles d)) s'"
  shows "holds others (mset (concat (map handles (ds[i := d])))) s'"
proof -
  let ?all = "mset (concat (map handles ds))" and ?new = "mset (concat (map handles (ds[i := d])))"
  obtain R where sum: "?all = R + mset (handles (ds ! i))"
    using mset_concat_update [of i "map handles ds" "[]"] assms(1) by simp metis
  have "holds (others + R) (mset (handles (ds ! i))) s"
    using assms(2) unfolding sum by (simp add: holds_def ac_simps)
  from assms(3) [OF this] have "holds others (R + mset (handles d)) s'" by (simp add: holds_def ac_simps)
  moreover have "?new + mset (handles (ds ! i)) = ?all + mset (handles d)"
    using mset_concat_update [of i "map handles ds" "handles d"] assms(1) by (simp add: map_update)
  then have "?new = R + mset (handles d)" unfolding sum by simp
  ultimately show ?thesis by simp
qed

lemma handle_owned:
  assumes "i < length ds" and "holds others (mset (concat (map handles ds))) s" and "handleOpen (ds ! i)"
  shows "handle (ds ! i) \<in># owned s"
proof -
  have "handle (ds ! i) \<in> set (concat (map handles ds))" using assms(1,3) by (force simp: handles_def)
  with assms(2) show ?thesis by (simp add: holds_def)
qed

lemma directoryStep_sound:
  "directoryStep os (d, s, n) e (d', s', n') \<Longrightarrow> directorySound d \<Longrightarrow> directorySound d' \<and> (marked d' \<longleftrightarrow> marked d)"
  by (erule directoryStepE) (auto simp: directorySound_def judge_def finishReport_def split: if_splits prod.splits)

lemma windowsStep_holds:
  assumes "windowsStep os s e s'" and "windowsSound s" and "holds others (windowsOwes s) (program s)"
  shows "holds others (windowsOwes s') (program s')"
  using assms(1)
proof cases
  case (directory i e d p n)
  have "directorySound (directories s ! i)" using directory(3) assms(2) by (simp add: windowsSound_def)
  from directoryStep_keeps [OF directory(4) this] directory_account [OF directory(3) assms(3) [unfolded windowsOwes_def], of d p]
  show ?thesis by (simp add: directory(2) windowsOwes_def)
next
  case (marks i)
  have "map handles (directories (markDirectory i s)) = map handles (directories s)"
    by (simp add: markDirectory_def cancelIo_def Let_def map_update handles_def list_update_same_conv marks(4))
  then show ?thesis using assms(3) by (simp add: marks(2) windowsOwes_def) (simp add: markDirectory_def Let_def)
qed (use assms(3) in \<open>simp_all add: windowsOwes_def\<close>)

lemma windowsStep_sound:
  assumes "windowsStep os s e s'" and "windowsSound s" and "holds others (windowsOwes s) (program s)"
  shows "windowsSound s'"
  using assms(1)
proof cases
  case (directory i e d p n)
  have old: "directorySound (directories s ! i)" using directory(3) assms(2) by (simp add: windowsSound_def)
  note new = directoryStep_sound [OF directory(4) old] finished_stays [OF directory(4) old]
  show ?thesis using assms(2) new
    by (auto simp: directory(2,3) windowsSound_def nth_list_update dest: set_update_subset_insert [THEN subsetD])
next
  case (marks i)
  have "directorySound (if handleOpen d then cancelIo (d\<lparr>marked := True\<rparr>) else d\<lparr>marked := True\<rparr>)"
    if "directorySound d" for d
    using that by (auto simp: cancelIo_def directorySound_def)
  then have "directorySound (directories (markDirectory i s) ! i)"
    using marks(4) assms(2) by (simp add: windowsSound_def markDirectory_def Let_def)
  with handle_owned [OF marks(4) assms(3) [unfolded windowsOwes_def]] assms(2) marks show ?thesis
    by (auto simp: markDirectory_def Let_def windowsSound_def nth_list_update less_Suc_eq
        dest: set_update_subset_insert [THEN subsetD])
qed (use assms(2) in \<open>auto simp: windowsSound_def less_Suc_eq\<close>)

interpretation windows: notification "windowsStep os" program windowsOwes windowsSound "\<lambda>s. stopPhase s = Stopped"
proof
  show "windowsSound s' \<and> holds others (windowsOwes s') (program s')"
    if "windowsStep os s e s'" "windowsSound s" "holds others (windowsOwes s) (program s)" for s e s' others
    using windowsStep_sound [OF that] windowsStep_holds [OF that] by simp
  show "windowsOwes s = {#}" if "windowsSound s" "stopPhase s = Stopped" for s :: "'a windowsWatch"
  proof -
    have "handles d = []" if "d \<in> set (directories s)" for d
      using that \<open>windowsSound s\<close> \<open>stopPhase s = Stopped\<close>
      by (auto simp: windowsSound_def handles_def directorySound_def in_set_conv_nth)
    then show ?thesis by (simp add: windowsOwes_def)
  qed
qed

subsection \<open>Setting the watch up\<close>

definition accounts :: "nat multiset \<Rightarrow> directory list \<Rightarrow> 'w process \<Rightarrow> bool" where
  "accounts others ds s \<longleftrightarrow> (\<forall>d \<in> set ds. directorySound d) \<and> holds others (mset (concat (map handles ds))) s"

lemma holds_open_second [simp]:
  "holds others (add_mset fd (add_mset fd' M)) (holdFd fd' s) = holds others (add_mset fd M) s"
  by (subst add_mset_commute) simp

lemma openDirectory_accounts:
  assumes "openDirectory os dir s = (found, s')" and "accounts others ds s"
  shows "accounts others (case found of None \<Rightarrow> ds | Some d \<Rightarrow> ds @ [d]) s'"
  using assms
  by (auto simp: openDirectory_def accounts_def holds_asks directorySound_def handles_def add_mset_commute
      split: if_splits prod.splits option.splits bool.splits intro!: holds_close)

lemma openDirectories_accounts:
  "openDirectories os dirs ds s = (ds', s') \<Longrightarrow> accounts others ds s \<Longrightarrow> accounts others ds' s'"
proof (induction os dirs ds s rule: openDirectories.induct)
  case (2 os dir dirs ds s)
  obtain found u where u: "openDirectory os dir s = (found, u)" by fastforce
  from openDirectory_accounts [OF this "2.prems"(2)] 2 u show ?case by (cases found) auto
qed simp

lemma windowsDirs_holds:
  assumes "holds others {#} s"
  shows "case windowsDirs os dirs s of Inl (e, s') \<Rightarrow> holds others {#} s'
    | Inr t \<Rightarrow> windowsSound t \<and> holds others (windowsOwes t) (program t)"
proof -
  obtain ds u where u: "openDirectories os dirs [] s = (ds, u)" by fastforce
  have "accounts others ds u" by (rule openDirectories_accounts [OF u]) (simp add: accounts_def assms)
  then show ?thesis using assms u by (auto simp: windowsDirs_def accounts_def windowsSound_def windowsOwes_def)
qed

subsection \<open>The stop function returns\<close>

text \<open>A run, with the number of its steps that are not a reader taking an event.\<close>

inductive windowsRun :: "'w winOs \<Rightarrow> 'w windowsWatch \<Rightarrow> nat \<Rightarrow> 'w windowsWatch \<Rightarrow> bool" for os s where
  begins: "windowsRun os s 0 s"
| goes_on: "windowsRun os s k t \<Longrightarrow> windowsStep os t e u \<Longrightarrow> windowsRun os s (if e = EventTaken then k else k + 1) u"

lemma windowsRun_reaches: "windowsRun os s k t \<Longrightarrow> (\<lambda>s t. \<exists>e. windowsStep os s e t)\<^sup>*\<^sup>* s t"
  by (induction rule: windowsRun.induct) (auto intro: rtranclp.rtrancl_into_rtrancl)

fun joining :: "stopPhase \<Rightarrow> bool" where
  "joining (Joining i) = True"
| "joining Stopped = True"
| "joining phase = False"

definition remaining :: "'w windowsWatch \<Rightarrow> nat" where
  "remaining s = sum_list (map left (directories s))
     + (case stopPhase s of Joining i \<Rightarrow> length (directories s) - i + 1 | _ \<Rightarrow> 0)"

lemma left_bound: "left d \<le> 5"
  by (cases "reporter d") (simp_all add: left_def)

lemma remaining_bound: "remaining s \<le> 6 * length (directories s) + 1"
proof -
  have "sum_list (map left ds) \<le> 5 * length ds" for ds
    using sum_list_mono [of ds left "\<lambda>_. 5"] left_bound by (simp add: sum_list_triv)
  from this [of "directories s"] show ?thesis by (auto simp: remaining_def split: stopPhase.splits)
qed

lemma sum_list_less:
  fixes xs :: "nat list"
  assumes "i < length xs" and "y < xs ! i"
  shows "sum_list (xs[i := y]) < sum_list xs"
  using assms by (induction xs arbitrary: i) (auto split: nat.splits)

lemma joining_marked:
  assumes "windowsSound s" and "joining (stopPhase s)" and "i < length (directories s)"
  shows "marked (directories s ! i)"
  using assms by (cases "stopPhase s") (auto simp: windowsSound_def)

lemma joining_decreases:
  assumes "windowsStep os s e s'" and "windowsSound s" and "joining (stopPhase s)"
  shows "joining (stopPhase s') \<and> length (directories s') = length (directories s)
    \<and> (if e = EventTaken then remaining s' = remaining s else remaining s' < remaining s)"
  using assms(1)
proof cases
  case (directory i e d p n)
  then have "left d < left (directories s ! i)"
    using marked_decreases joining_marked [OF assms(2,3)] by blast
  with directory(3) have "sum_list (map left ((directories s)[i := d])) < sum_list (map left (directories s))"
    by (simp add: map_update sum_list_less)
  then show ?thesis using assms(3) by (cases "stopPhase s") (simp_all add: directory(1,2) remaining_def)
next
  case event_taken
  then show ?thesis using assms(3) by (cases "stopPhase s") (simp_all add: remaining_def)
qed (use assms(3) in \<open>auto simp: remaining_def\<close>)

text \<open>The steps that are taken without a change in a directory, an error of the system and a reader of the events.\<close>

fun unaided :: "windowsEvent \<Rightarrow> bool" where
  "unaided (Directory i e) = ownStep e"
| "unaided EventTaken = False"
| "unaided _ = True"

lemma joining_goes_on:
  assumes "windowsSound s" and "joining (stopPhase s)" and "stopPhase s = Joining i"
  shows "\<exists>e t. unaided e \<and> windowsStep os s e t"
proof (cases "i < length (directories s)")
  case True
  show ?thesis
  proof (cases "reporter (directories s ! i) = Finished")
    case False
    have "directorySound (directories s ! i)" using True assms(1) by (simp add: windowsSound_def)
    from marked_goes_on [OF this joining_marked [OF assms(1,2) True] False]
    obtain e d p n where "ownStep e" "directoryStep os (directories s ! i, program s, notice s) e (d, p, n)" by blast
    with directory [OF True] show ?thesis by (intro exI [of _ "Directory i e"]) (simp, blast)
  next
    case True
    with joins [OF assms(3) \<open>i < length (directories s)\<close>] show ?thesis by (intro exI [of _ Joins]) (simp, blast)
  qed
next
  case False
  then have "i = length (directories s)" using assms by (simp add: windowsSound_def)
  with stop_returns [OF assms(3)] show ?thesis by (intro exI [of _ StopReturns]) (simp, blast)
qed

lemma joining_run:
  assumes "windowsRun os s k t" and "windowsSound s" and "holds others (windowsOwes s) (program s)"
    and "joining (stopPhase s)"
  shows "joining (stopPhase t) \<and> remaining t + k \<le> remaining s"
  using assms(1)
proof (induction rule: windowsRun.induct)
  case (goes_on k t e u)
  have "windowsSound t" using windows.steps_keep [OF windowsRun_reaches [OF goes_on.hyps(1)] assms(2,3)] by simp
  from joining_decreases [OF goes_on.hyps(2) this] goes_on.IH show ?case by (auto split: if_splits)
qed (use assms(4) in simp)

subsection \<open>Properties\<close>

text \<open>C28: a Windows notification closes every handle and completion port it opened exactly once: what cannot be
  set up gives everything back, and after the stop function returned nothing is open, whatever order the system, the
  goroutines and the callers take; and no request is ever cancelled on a handle that is no longer its own.\<close>

theorem windows_leaves_nothing:
  assumes "owned s = others" and "\<not> misclosed s"
  shows "case windowsDirs os dirs s of
      Inl (e, s') \<Rightarrow> owned s' = others \<and> \<not> misclosed s'
    | Inr t \<Rightarrow> (\<forall>k u. windowsRun os t k u \<longrightarrow>
        \<not> misclosed (program u) \<and> \<not> misused u \<and> (stopPhase u = Stopped \<longrightarrow> owned (program u) = others))"
proof -
  have s: "holds others {#} s" using assms by (simp add: holds_def)
  show ?thesis
  proof (cases "windowsDirs os dirs s")
    case (Inr t)
    then have t: "windowsSound t" "holds others (windowsOwes t) (program t)" using windowsDirs_holds [OF s, of os dirs] by auto
    have "\<not> misclosed (program u) \<and> \<not> misused u \<and> (stopPhase u = Stopped \<longrightarrow> owned (program u) = others)"
      if "windowsRun os t k u" for k u
      using windows.steps_keep [OF windowsRun_reaches [OF that] t] windows.nothing_left [OF windowsRun_reaches [OF that] t]
      by (auto simp: holds_def windowsSound_def)
    with Inr show ?thesis by simp
  qed (use windowsDirs_holds [OF s, of os dirs] in \<open>auto simp: holds_def\<close>)
qed

text \<open>C18: the stop function of a Windows notification returns: once every directory is marked, at most six steps for
  each directory and one more can happen apart from a reader taking events, and until it has returned one of
  them can that depends neither on a change in a directory nor on an error of the system nor on a reader: the
  goroutines are woken by the cancellation of their requests.\<close>

theorem windows_stop_returns:
  assumes "windowsDirs os dirs s = Inr t" and "\<not> misclosed s"
    and "windowsRun os t j u" and "stopPhase u = Joining 0" and "windowsRun os u k v"
  shows "k \<le> 6 * length (directories u) + 1
    \<and> (stopPhase v \<noteq> Stopped \<longrightarrow> (\<exists>e w. unaided e \<and> windowsStep os v e w))"
proof -
  have "holds (owned s) {#} s" using assms(2) by (simp add: holds_def)
  with windowsDirs_holds [of "owned s" s os dirs] assms(1)
  have t: "windowsSound t" "holds (owned s) (windowsOwes t) (program t)" by auto
  have u: "windowsSound u" "holds (owned s) (windowsOwes u) (program u)"
    using windows.steps_keep [OF windowsRun_reaches [OF assms(3)] t] by simp_all
  have v: "windowsSound v" using windows.steps_keep [OF windowsRun_reaches [OF assms(5)] u] by simp
  have run: "joining (stopPhase v)" "remaining v + k \<le> remaining u"
    using joining_run [OF assms(5) u] assms(4) by simp_all
  have "k \<le> 6 * length (directories u) + 1" using run(2) remaining_bound [of u] by simp
  moreover have "\<exists>e w. unaided e \<and> windowsStep os v e w" if "stopPhase v \<noteq> Stopped"
    using run(1) that joining_goes_on [OF v run(1), of _ os] by (cases "stopPhase v") simp_all
  ultimately show ?thesis by blast
qed


subsection \<open>Runs\<close>

text \<open>A system that hands out handles in order.\<close>

definition sampleWindows :: "nat winOs" where
  "sampleWindows =
     \<lparr>Utf16 = (\<lambda>dir. True), CreateFile = (\<lambda>dir w. (Some w, w + 1)), CreatePort = (\<lambda>h w. (Some w, w + 1)),
      ReadDirectory = (\<lambda>h w. (IoPending, w))\<rparr>"

lemmas sampleWindows_defs = sampleWindows_def arm_def sampleProcess_def windowsDirs_def openDirectory_def asks_def holdFd_def

lemma windows_leaves_nothing_witness:
  "\<exists>s'. windowsDirs (sampleWindows\<lparr>ReadDirectory := \<lambda>h w. (ReadRefused, w)\<rparr>) [lit ''d''] sampleProcess
      = Inl (lit ''the configuration directory cannot be opened for notification'', s')
    \<and> owned s' = {#0, 1, 2#} \<and> \<not> misclosed s'"
proof -
  obtain s' where failed: "windowsDirs (sampleWindows\<lparr>ReadDirectory := \<lambda>h w. (ReadRefused, w)\<rparr>) [lit ''d''] sampleProcess
      = Inl (lit ''the configuration directory cannot be opened for notification'', s')"
    by (simp add: sampleWindows_defs)
  with windows_leaves_nothing [of sampleProcess "{#0, 1, 2#}" "sampleWindows\<lparr>ReadDirectory := \<lambda>h w. (ReadRefused, w)\<rparr>" "[lit ''d'']"]
  show ?thesis by (simp add: sampleProcess_def)
qed

lemma goes_on_step: "windowsRun os s k t \<Longrightarrow> windowsStep os t e u \<Longrightarrow> e \<noteq> EventTaken \<Longrightarrow> windowsRun os s (Suc k) u"
  using goes_on [of os s k t e u] by simp

lemma windows_stop_returns_witness:
  "\<exists>t u (e :: windowsEvent) w. windowsDirs sampleWindows [lit ''d''] sampleProcess = Inr t \<and> stopPhase u = Joining 0
    \<and> windowsRun sampleWindows t 3 u \<and> windowsStep sampleWindows u e w \<and> unaided e"
proof -
  obtain t where t: "windowsDirs sampleWindows [lit ''d''] sampleProcess = Inr t"
    and phase: "stopPhase t = NotAsked" "length (directories t) = 1"
    by (simp add: sampleWindows_defs)
  let ?marking = "t\<lparr>stopPhase := Marking 0\<rparr>"
  let ?marked = "markDirectory 0 ?marking"
  let ?joining = "?marked\<lparr>stopPhase := Joining 0\<rparr>"
  have "windowsStep sampleWindows ?marking Marks ?marked" using phase(2) by (intro marks) simp_all
  from goes_on_step [OF goes_on_step [OF begins stop_begins [OF phase(1)]] this]
  have marked: "windowsRun sampleWindows t 2 ?marked" by (simp add: numeral_2_eq_2)
  have "windowsStep sampleWindows ?marked AllMarked ?joining"
    using phase(2) by (intro all_marked) (simp_all add: markDirectory_def Let_def)
  from goes_on_step [OF marked this] have run: "windowsRun sampleWindows t 3 ?joining" by (simp add: numeral_3_eq_3)
  have "\<exists>e w. unaided e \<and> windowsStep sampleWindows ?joining e w"
    using windows_stop_returns [OF t _ run _ begins] by (simp add: sampleProcess_def)
  moreover have "stopPhase ?joining = Joining 0" by simp
  ultimately show ?thesis using t run by blast
qed

end
