(* ===== verification/Subscription.thy ===== *)
theory Subscription
  imports NotifyWindows Watch
begin

section \<open>A subscription and the notification of its system\<close>

text \<open>
  Models \<open>watchable\<close> and the whole of \<open>WatchInvalidations\<close> of \<open>go/watch.go\<close>, over any \<open>notifyDirs\<close>: those of \<open>Notify\<close> and
  \<open>NotifyWindows\<close> and the one of \<open>go/notify_other.go\<close>. The registration in \<open>live\<close> is that of \<open>Watch\<close>.
\<close>

subsection \<open>Setting it up\<close>

text \<open>The directories of the configuration files that are there; \<open>isDir\<close> is \<open>os.Stat\<close> with \<open>IsDir\<close>.\<close>

fun watchable :: "(bytes \<Rightarrow> 'w \<Rightarrow> bool \<times> 'w) \<Rightarrow> bytes list \<Rightarrow> bytes list \<Rightarrow> 'w process \<Rightarrow> bytes list \<times> 'w process" where
  "watchable isDir seen [] s = ([], s)"
| "watchable isDir seen (path # ps) s =
     (let d = Dir path in
      if d \<in> set seen then watchable isDir seen ps s
      else (case asks (isDir d) s of (yes, s) \<Rightarrow>
        (case watchable isDir (d # seen) ps s of (out, s) \<Rightarrow> (if yes then d # out else out, s))))"

text \<open>\<open>i\<close> names the new subscription.\<close>

definition openSubscription ::
    "(bytes list \<Rightarrow> 'w process \<Rightarrow> (bytes \<times> 'w process) + 's) \<Rightarrow> (bytes \<Rightarrow> 'w \<Rightarrow> bool \<times> 'w) \<Rightarrow> (bytes \<times> bytes) list
      \<Rightarrow> nat \<Rightarrow> 'w process \<Rightarrow> watchState \<Rightarrow> ((bytes \<times> 'w process) + 's) \<times> watchState" where
  "openSubscription notify isDir sources i s w =
     (case watchable isDir [] (map fst sources) s of (dirs, s) \<Rightarrow>
       (case notify dirs s of
          Inl (e, s) \<Rightarrow> (Inl (e, s), w)
        | Inr t \<Rightarrow> (Inr t, WatchInvalidations i w)))"

definition otherDirs :: "bytes list \<Rightarrow> 'w process \<Rightarrow> (bytes \<times> 'w process) + unit" where
  "otherDirs dirs s = Inl (lit ''this platform has no directory notification'', s)"

lemma watchable_holds: "watchable isDir seen ps s = (out, s') \<Longrightarrow> holds others M s' = holds others M s"
proof (induction isDir seen ps s arbitrary: out s' rule: watchable.induct)
  case (2 isDir seen path ps s)
  obtain yes u where u: "asks (isDir (Dir path)) s = (yes, u)" by fastforce
  obtain out' v where v: "watchable isDir (Dir path # seen) ps u = (out', v)" by fastforce
  from 2 u v holds_asks [OF u] show ?case by (auto simp: Let_def split: if_splits)
qed simp

lemma watchable_dirs:
  "watchable isDir seen ps s = (out, s') \<Longrightarrow> distinct out \<and> set out \<subseteq> Dir ` set ps - set seen"
proof (induction isDir seen ps s arbitrary: out s' rule: watchable.induct)
  case (2 isDir seen path ps s)
  obtain yes u where u: "asks (isDir (Dir path)) s = (yes, u)" by fastforce
  obtain out' v where v: "watchable isDir (Dir path # seen) ps u = (out', v)" by fastforce
  from 2 u v show ?case by (fastforce simp: Let_def split: if_splits)
qed simp

subsection \<open>A system that notifies\<close>

text \<open>What \<open>notifyDirs\<close> promises: a refusal gives back what it took, a success is a protocol that accounts for it.\<close>

locale notifier = notification step "process" owes sound over
  for step :: "'s \<Rightarrow> 'e \<Rightarrow> 's \<Rightarrow> bool" and "process" :: "'s \<Rightarrow> 'w process" and owes sound over +
  fixes notify :: "bytes list \<Rightarrow> 'w process \<Rightarrow> (bytes \<times> 'w process) + 's"
  assumes notify_accounts: "holds others {#} s \<Longrightarrow>
    case notify dirs s of Inl (e, s') \<Rightarrow> holds others {#} s' | Inr t \<Rightarrow> sound t \<and> holds others (owes t) (process t)"
begin

lemma subscription_refused:
  assumes "openSubscription notify isDir sources i s w = (Inl (e, s'), w')" and "holds others {#} s"
  shows "w' = w \<and> holds others {#} s'"
proof -
  obtain dirs u where u: "watchable isDir [] (map fst sources) s = (dirs, u)" by fastforce
  then have "holds others {#} u" using assms(2) watchable_holds [OF u] by simp
  from notify_accounts [OF this, of dirs] assms(1) u show ?thesis
    by (auto simp: openSubscription_def split: sum.splits)
qed

lemma subscription_over:
  assumes "openSubscription notify isDir sources i s w = (Inr t, w')" and "holds others {#} s"
    and "(\<lambda>s t. \<exists>e. step s e t)\<^sup>*\<^sup>* t u"
  shows "w' = WatchInvalidations i w \<and> \<not> misclosed (process u) \<and> (over u \<longrightarrow> owned (process u) = others)"
proof -
  obtain dirs v where v: "watchable isDir [] (map fst sources) s = (dirs, v)" by fastforce
  then have "holds others {#} v" using assms(2) watchable_holds [OF v] by simp
  from notify_accounts [OF this, of dirs] assms(1) v
  have t: "sound t" "holds others (owes t) (process t)" "w' = WatchInvalidations i w"
    by (auto simp: openSubscription_def split: sum.splits)
  with steps_keep [OF assms(3) t(1,2)] nothing_left [OF assms(3) t(1,2)] show ?thesis by (auto simp: holds_def)
qed

end

interpretation inotifyNotifier: notifier inotifyStep inotifyWatch.running inotifyOwes inotifySound "\<lambda>s. \<not> fileOpen s" "inotifyDirs linux" for linux
  by unfold_locales (rule inotifyDirs_holds)

interpretation kqueueNotifier: notifier "kqueueStep bsd" host kqueueOwes kqueueSound "\<lambda>s. \<not> following s" "kqueueDirs bsd sources"
  for bsd sources
  by unfold_locales (rule kqueueDirs_holds)

interpretation windowsNotifier: notifier "windowsStep os" program windowsOwes windowsSound "\<lambda>s. stopPhase s = Stopped" "windowsDirs os"
  for os
  by unfold_locales (rule windowsDirs_holds)

text \<open>Where the system has no notification there is nothing to step.\<close>

interpretation otherNotifier: notifier "\<lambda>s e t. False" "\<lambda>s. p" "\<lambda>s. {#}" "\<lambda>s. True" "\<lambda>s. True" otherDirs for p
  by unfold_locales (simp_all add: otherDirs_def)

subsection \<open>Properties\<close>

text \<open>C17: a subscription the system refuses, on any platform and at whichever call, registers nobody with the announcements
  and gives back every descriptor it took, closing none twice.\<close>

theorem refused_subscription_leaves_nothing:
  assumes "owned s = others" and "\<not> misclosed s"
    and "openSubscription (inotifyDirs linux) isDir sources i s w = (Inl (e, s'), w')
      \<or> openSubscription (kqueueDirs bsd (map fst sources)) isDir sources i s w = (Inl (e, s'), w')
      \<or> openSubscription (windowsDirs windows) isDir sources i s w = (Inl (e, s'), w')
      \<or> openSubscription otherDirs isDir sources i s w = (Inl (e, s'), w')"
  shows "w' = w \<and> owned s' = others \<and> \<not> misclosed s'"
proof -
  have "holds others {#} s" using assms(1,2) by (simp add: holds_def)
  note refused = inotifyNotifier.subscription_refused [OF _ this] kqueueNotifier.subscription_refused [OF _ this]
    windowsNotifier.subscription_refused [OF _ this] otherNotifier.subscription_refused [OF _ this]
  have "w' = w \<and> holds others {#} s'" using assms(3) by (elim disjE) (erule refused)+
  then show ?thesis by (simp add: holds_def)
qed

text \<open>C27: a subscription by kqueue is registered once the system watches, and used in any order by the system, its
  goroutine and the callers of its stop function, however often they call it and whatever paths are replaced under it,
  never closes a descriptor twice; when its goroutine has ended every descriptor it ever took is closed.\<close>

theorem kqueue_subscription_leaves_nothing:
  assumes "owned s = others" and "\<not> misclosed s"
    and "openSubscription (kqueueDirs bsd (map fst sources)) isDir sources i s w = (Inr t, w')"
    and "(\<lambda>t u. \<exists>e. kqueueStep bsd t e u)\<^sup>*\<^sup>* t u"
  shows "i \<in> set (invalidations w') \<and> \<not> misclosed (host u) \<and> (\<not> following u \<longrightarrow> owned (host u) = others)"
proof -
  have "holds others {#} s" using assms(1,2) by (simp add: holds_def)
  from kqueueNotifier.subscription_over [OF assms(3) this assms(4)] show ?thesis by (simp add: WatchInvalidations_def)
qed

text \<open>The same for inotify, whose \<open>os.File\<close> both sides close.\<close>

theorem inotify_subscription_leaves_nothing:
  assumes "owned s = others" and "\<not> misclosed s"
    and "openSubscription (inotifyDirs linux) isDir sources i s w = (Inr t, w')"
    and "(\<lambda>t u. \<exists>e. inotifyStep t e u)\<^sup>*\<^sup>* t u"
  shows "i \<in> set (invalidations w') \<and> \<not> misclosed (inotifyWatch.running u) \<and> (\<not> fileOpen u \<longrightarrow> owned (inotifyWatch.running u) = others)"
proof -
  have "holds others {#} s" using assms(1,2) by (simp add: holds_def)
  from inotifyNotifier.subscription_over [OF assms(3) this assms(4)] show ?thesis by (simp add: WatchInvalidations_def)
qed

subsection \<open>Runs\<close>

text \<open>A system that hands out descriptors in order and knows one directory. Where \<open>refuses\<close> is set, \<open>Kevent\<close> refuses
  every subscription.\<close>

definition sampleBsd :: "bool \<Rightarrow> (nat, unit) kqueueOs" where
  "sampleBsd refuses =
     \<lparr>Kqueue = (\<lambda>w. (Inr w, w + 1)), MakePipe = (\<lambda>w. (Inr (w, w + 1), w + 2)), OpenNode = (\<lambda>path w. (Inr w, w + 1)),
      StatNode = (\<lambda>fd w. (Inr (), w)), Plain = (\<lambda>i. True),
      Subscribe = (\<lambda>kq fd w. (if refuses then Some (OsError []) else None, w)), SubscribeWake = (\<lambda>kq fd w. (None, w)),
      StatPath = (\<lambda>path w. (Inr (), w)), SameFile = (\<lambda>i j. True)\<rparr>"

lemmas sampleBsd_defs = sampleBsd_def sampleProcess_def kqueueDirs_def asks_def holdFd_def closeFd_def addNode_def
  failWatch_def cleanup_def closeAll_def nodeFds_def forget_def refreshOne_def

text \<open>The directory is there, and the user's file is the only source.\<close>

definition sampleSources :: "(bytes \<times> bytes) list" where
  "sampleSources = [(lit ''/d/f'', User)]"

definition sampleIsDir :: "bytes \<Rightarrow> nat \<Rightarrow> bool \<times> nat" where
  "sampleIsDir d w = (True, w)"

lemma sampleDir: "Dir (lit ''/d/f'') = lit ''/d''"
  by code_simp

lemmas sampleSubscription_defs = sampleBsd_defs openSubscription_def sampleSources_def sampleIsDir_def sampleDir

lemma refused_subscription_leaves_nothing_witness:
  "\<exists>e s'. openSubscription (kqueueDirs (sampleBsd True) (map fst sampleSources)) sampleIsDir sampleSources 1 sampleProcess watchStart
      = (Inl (e, s'), watchStart) \<and> owned s' = {#0, 1, 2#}"
proof -
  obtain e s' where failed: "openSubscription (kqueueDirs (sampleBsd True) (map fst sampleSources)) sampleIsDir sampleSources 1
      sampleProcess watchStart = (Inl (e, s'), watchStart)"
    by (simp add: sampleSubscription_defs)
  have "owned s' = {#0, 1, 2#}"
    using refused_subscription_leaves_nothing [of sampleProcess "{#0, 1, 2#}" _ _ _ _ watchStart e s'] failed
    by (fastforce simp: sampleProcess_def)
  with failed show ?thesis by blast
qed

lemma kqueue_one: "kqueueStep os s e t \<Longrightarrow> (\<lambda>t u. \<exists>e. kqueueStep os t e u)\<^sup>*\<^sup>* s t"
  by (rule r_into_rtranclp) blast

lemma kqueue_subscription_leaves_nothing_witness:
  "\<exists>t (u :: (nat, unit) kqueueWatch) w. openSubscription (kqueueDirs (sampleBsd False) (map fst sampleSources)) sampleIsDir
      sampleSources 1 sampleProcess watchStart = (Inr t, w) \<and> \<not> following u \<and> owned (host u) = {#0, 1, 2#}"
proof -
  obtain t w where t: "openSubscription (kqueueDirs (sampleBsd False) (map fst sampleSources)) sampleIsDir sampleSources 1
      sampleProcess watchStart = (Inr t, w)" "following t"
    by (simp add: sampleSubscription_defs Let_def)
  let ?u = "followTurn (sampleBsd False) (Idents [wakeRead (signalStop t)]) (signalStop t)"
  have "following (signalStop t)" using t(2) by (simp add: signalStop_def)
  then have run: "(\<lambda>t u. \<exists>e. kqueueStep (sampleBsd False) t e u)\<^sup>*\<^sup>* t ?u"
    by (intro rtranclp_trans [OF kqueue_one [OF stop_asked] kqueue_one [OF answered]])
  have over: "\<not> following ?u" by (simp add: followTurn_def finishFollowing_def Let_def)
  have "owned (host ?u) = {#0, 1, 2#}"
    using kqueue_subscription_leaves_nothing [OF _ _ t(1) run, of "{#0, 1, 2#}"] over by (simp add: sampleProcess_def)
  with t(1) over show ?thesis by blast
qed

end
