(* ===== verification/TrustWindows.thy ===== *)
theory TrustWindows
  imports Notify ConfigSpec
begin

section \<open>Who wrote the machine file, on Windows\<close>

text \<open>
  Models \<open>go/trust_windows.go\<close>. The calls of the security interface are a record of functions on a world; a security
  descriptor the system allocated is something the process owns until \<open>LocalFree\<close>, in the account of \<open>Notify\<close>.
  \<open>dirOf\<close> is \<open>filepath.Dir\<close> with the volumes of Windows.
\<close>

record 'w securityOs =
  Utf16Error :: "bytes \<Rightarrow> bytes option"
  SecurityInfo :: "bytes \<Rightarrow> 'w \<Rightarrow> (bytes + nat \<times> nat) \<times> 'w"
  SidString :: "nat \<Rightarrow> 'w \<Rightarrow> (bytes + bytes) \<times> 'w"
  LookupAccount :: "nat \<Rightarrow> 'w \<Rightarrow> (bytes \<times> bytes) option \<times> 'w"

definition administrators :: "bytes list" where
  "administrators = [lit ''S-1-5-32-544'', lit ''S-1-5-18'']"

definition ownerOf :: "'w securityOs \<Rightarrow> bytes \<Rightarrow> 'w process \<Rightarrow> (bytes + bytes \<times> bytes) \<times> 'w process" where
  "ownerOf os path s =
     (case Utf16Error os path of Some e \<Rightarrow> (Inl e, s)
      | None \<Rightarrow>
          (case asks (SecurityInfo os path) s of
             (Inl e, s) \<Rightarrow> (Inl e, s)
           | (Inr (sid, sd), s) \<Rightarrow>
               (case asks (SidString os sid) (holdFd sd s) of
                  (Inl e, s) \<Rightarrow> (Inl e, closeFd sd s)
                | (Inr text, s) \<Rightarrow>
                    (case asks (LookupAccount os sid) s of (found, s) \<Rightarrow>
                      (Inr (text, case found of None \<Rightarrow> text
                         | Some (account, domain) \<Rightarrow> domain @ [0x5C] @ account @ lit '' ('' @ text @ lit '')''),
                       closeFd sd s)))))"

fun trustedEach :: "'w securityOs \<Rightarrow> bytes list \<Rightarrow> 'w process \<Rightarrow> bytes option \<times> 'w process" where
  "trustedEach os [] s = (None, s)"
| "trustedEach os (p # ps) s =
     (case ownerOf os p s of
        (Inl e, s) \<Rightarrow> (Some (p @ lit '': cannot tell who owns it: '' @ e), s)
      | (Inr (sid, who), s) \<Rightarrow>
          if sid \<notin> set administrators
          then (Some (p @ lit '' is owned by '' @ who @ lit '', not by Administrators or SYSTEM, so no administrator wrote it''), s)
          else trustedEach os ps s)"

definition trustedWindows :: "'w securityOs \<Rightarrow> (bytes \<Rightarrow> bytes) \<Rightarrow> bytes \<Rightarrow> 'w process \<Rightarrow> bytes option \<times> 'w process" where
  "trustedWindows os dirOf path s = trustedEach os [path, dirOf path] s"

text \<open>Every descriptor the system handed out is freed once, on each way out.\<close>

lemma ownerOf_frees: "ownerOf os path s = (r, s') \<Longrightarrow> owned s' = owned s \<and> misclosed s' = misclosed s"
  by (auto simp: ownerOf_def asks_def holdFd_def closeFd_def split: option.splits prod.splits sum.splits)

lemma trustedEach_frees: "trustedEach os ps s = (r, s') \<Longrightarrow> owned s' = owned s \<and> misclosed s' = misclosed s"
proof (induction os ps s rule: trustedEach.induct)
  case (2 os p ps s)
  obtain x u where u: "ownerOf os p s = (x, u)" by fastforce
  note frees = ownerOf_frees [OF u]
  show ?case
  proof (cases x)
    case (Inr found)
    obtain sid who where "found = (sid, who)" by fastforce
    with 2 u Inr frees show ?thesis by (cases "sid \<in> set administrators") auto
  qed (use 2 u frees in auto)
qed simp

lemma trustedEach_yes:
  assumes "trustedEach os (p # ps) s = (None, s')"
  obtains sid who u where "ownerOf os p s = (Inr (sid, who), u)" and "sid \<in> set administrators" and "trustedEach os ps u = (None, s')"
  using assms by (auto split: sum.splits prod.splits if_splits)

subsection \<open>Properties\<close>

text \<open>C33: on Windows, asking for the owners frees every security descriptor the system allocated, once, on every way
  out, whatever the verdict and whichever call failed; and a configuration is read from the machine rung only when
  Administrators or SYSTEM own the file and its directory.\<close>

theorem machine_file_owned_by_administrators:
  assumes "trustedWindows os dirOf path s = (verdict, s')"
  shows "owned s' = owned s \<and> misclosed s' = misclosed s
    \<and> (readMachineSource readLimit (\<lambda>p. verdict) path = Inr c \<or> readSource casRead (\<lambda>p. verdict) path Machine = Inr c \<longrightarrow>
        (\<exists>sid sid' who who' t. ownerOf os path s = (Inr (sid, who), t) \<and> ownerOf os (dirOf path) t = (Inr (sid', who'), s')
          \<and> sid \<in> set administrators \<and> sid' \<in> set administrators))"
proof (intro conjI impI)
  have each: "trustedEach os [path, dirOf path] s = (verdict, s')" using assms by (simp add: trustedWindows_def)
  show "owned s' = owned s" "misclosed s' = misclosed s" using trustedEach_frees [OF each] by simp_all
  assume "readMachineSource readLimit (\<lambda>p. verdict) path = Inr c \<or> readSource casRead (\<lambda>p. verdict) path Machine = Inr c"
  then have "verdict = None"
    by (auto simp: readMachineSource_eq readSource_eq split: option.splits sum.splits)
  with each have yes: "trustedEach os [path, dirOf path] s = (None, s')" by simp
  from yes obtain sid who t where first: "ownerOf os path s = (Inr (sid, who), t)" "sid \<in> set administrators"
    and next': "trustedEach os [dirOf path] t = (None, s')" by (rule trustedEach_yes)
  from next' obtain sid' who' u where "ownerOf os (dirOf path) t = (Inr (sid', who'), u)" "sid' \<in> set administrators"
    "trustedEach os [] u = (None, s')" by (rule trustedEach_yes)
  with first show "\<exists>sid sid' who who' t. ownerOf os path s = (Inr (sid, who), t) \<and> ownerOf os (dirOf path) t = (Inr (sid', who'), s')
      \<and> sid \<in> set administrators \<and> sid' \<in> set administrators" by auto
qed

text \<open>A system where SYSTEM owns everything.\<close>

definition sampleSecurity :: "nat securityOs" where
  "sampleSecurity =
     \<lparr>Utf16Error = (\<lambda>path. None), SecurityInfo = (\<lambda>path w. (Inr (7, w), w + 1)), SidString = (\<lambda>sid w. (Inr (lit ''S-1-5-18''), w)),
      LookupAccount = (\<lambda>sid w. (Some (lit ''SYSTEM'', lit ''NT AUTHORITY''), w))\<rparr>"

text \<open>There the file is read and both owners were asked; where the identifier cannot be written out nothing is left either.\<close>

lemma machine_file_owned_by_administrators_witness:
  "owned (snd (trustedWindows sampleSecurity (\<lambda>p. lit ''d'') (lit ''f'') \<lparr>kernel = 3, owned = {#}, misclosed = False\<rparr>)) = {#}
   \<and> (\<exists>sid who t. ownerOf sampleSecurity (lit ''f'') \<lparr>kernel = 3, owned = {#}, misclosed = False\<rparr> = (Inr (sid, who), t)
        \<and> sid \<in> set administrators)
   \<and> owned (snd (trustedWindows (sampleSecurity\<lparr>SidString := \<lambda>sid w. (Inl [], w)\<rparr>) (\<lambda>p. lit ''d'') (lit ''f'')
        \<lparr>kernel = 3, owned = {#}, misclosed = False\<rparr>)) = {#}"
proof -
  let ?s = "\<lparr>kernel = 3, owned = {#}, misclosed = False\<rparr>"
  obtain s' where yes: "trustedWindows sampleSecurity (\<lambda>p. lit ''d'') (lit ''f'') ?s = (None, s')"
    by (simp add: trustedWindows_def ownerOf_def sampleSecurity_def asks_def holdFd_def closeFd_def administrators_def)
  obtain e t where no: "trustedWindows (sampleSecurity\<lparr>SidString := \<lambda>sid w. (Inl [], w)\<rparr>) (\<lambda>p. lit ''d'') (lit ''f'') ?s = (e, t)"
    by fastforce
  have "readMachineSource (\<lambda>path n. Inr (Some (Config_Marshal sampleValues))) (\<lambda>p. None) (lit ''f'')
      = Inr (foldl (markKey (lit ''f'') Machine) sampleValues Keys)"
    using Unmarshal_Marshal [OF sample_values(1)] by (simp only: readMachineSource_eq decodeSource_eq sample_values(2)) simp
  with machine_file_owned_by_administrators [OF yes] machine_file_owned_by_administrators [OF no]
  show ?thesis unfolding yes no by fastforce
qed

end
