(* ===== verification/Clients.thy ===== *)
theory Clients
  imports HostSpec ConfigSpec
begin

section \<open>The client library\<close>

text \<open>
  Models \<open>go/client/client.go\<close>, \<open>editor.go\<close> and \<open>observer.go\<close>: the bindings an application holds. A
  \<open>listen.FrameClient\<close> is another module's, a value of type \<open>'t\<close>; \<open>frames\<close> is what the bindings use of it and of
  \<open>context\<close>. A state \<open>'s\<close> is everything a call can touch. The generated clients and the check of an
  observation are those of \<open>Dispatch\<close> and \<open>Observer\<close>.
\<close>

record ('t, 'c, 's) frames =
  FrameClient :: "bytes \<Rightarrow> 't"
  WithDefaults :: "u64 \<Rightarrow> nat \<Rightarrow> 't \<Rightarrow> 't"
  WithContext :: "'c \<Rightarrow> 't \<Rightarrow> 't"
  SetTimeout :: "u64 \<Rightarrow> 't \<Rightarrow> 't"
  ExchangeFrame :: "'t \<Rightarrow> 's exchange"
  ContextErr :: "'c \<Rightarrow> 's \<Rightarrow> bytes option"
  Background :: 'c

definition EnvEndpoint :: bytes where
  "EnvEndpoint = lit ''ABSTRACTION_CONFIG_ENDPOINT''"

text \<open>Two seconds, and the frame limit of one mebibyte.\<close>

definition DefaultTimeout :: u64 where
  "DefaultTimeout = 2 * 1000000000"

definition frameLimit :: nat where
  "frameLimit = 2 ^ 20"

record 't Client =
  transport :: 't

record 't Editor =
  transport :: 't

record 't Observer =
  transport :: 't

text \<open>\<open>listenEndpoint\<close> is \<open>listen.Endpoint\<close>, the name the installed runtime gives a service.\<close>

definition DefaultEndpoint :: "(bytes \<Rightarrow> bytes) \<Rightarrow> (bytes \<Rightarrow> bytes) \<Rightarrow> bytes" where
  "DefaultEndpoint getenv listenEndpoint =
     (let v = getenv EnvEndpoint in if v \<noteq> [] then v else listenEndpoint (lit ''config-v1''))"

definition NewWithTransport :: "('t, 'c, 's) frames \<Rightarrow> 't \<Rightarrow> 't Client" where
  "NewWithTransport fr t = \<lparr>Client.transport = WithDefaults fr DefaultTimeout frameLimit t\<rparr>"

definition New :: "('t, 'c, 's) frames \<Rightarrow> bytes \<Rightarrow> 't Client" where
  "New fr endpoint = NewWithTransport fr (FrameClient fr endpoint)"

definition Discover :: "('t, 'c, 's) frames \<Rightarrow> (bytes \<Rightarrow> bytes) \<Rightarrow> (bytes \<Rightarrow> bytes) \<Rightarrow> 't Client" where
  "Discover fr getenv listenEndpoint = New fr (DefaultEndpoint getenv listenEndpoint)"

definition NewEditorWithTransport :: "('t, 'c, 's) frames \<Rightarrow> 't \<Rightarrow> 't Editor" where
  "NewEditorWithTransport fr t = \<lparr>Editor.transport = WithDefaults fr DefaultTimeout frameLimit t\<rparr>"

definition NewEditor :: "('t, 'c, 's) frames \<Rightarrow> bytes \<Rightarrow> 't Editor" where
  "NewEditor fr endpoint = NewEditorWithTransport fr (FrameClient fr endpoint)"

definition NewObserverWithTransport :: "('t, 'c, 's) frames \<Rightarrow> 't \<Rightarrow> 't Observer" where
  "NewObserverWithTransport fr t = \<lparr>Observer.transport = WithDefaults fr DefaultTimeout frameLimit t\<rparr>"

definition NewObserver :: "('t, 'c, 's) frames \<Rightarrow> bytes \<Rightarrow> 't Observer" where
  "NewObserver fr endpoint = NewObserverWithTransport fr (FrameClient fr endpoint)"

text \<open>Every call first asks the context, and sends nothing when it is over.\<close>

definition withinContext ::
    "('t, 'c, 's) frames \<Rightarrow> 'c \<Rightarrow> ('s \<Rightarrow> (goerror + 'x) \<times> 's) \<Rightarrow> 's \<Rightarrow> (goerror + 'x) \<times> 's" where
  "withinContext fr ctx call s =
     (case ContextErr fr ctx s of Some e \<Rightarrow> (Inl (ErrOther e), s) | None \<Rightarrow> call s)"

definition ReadWithOverridesContext ::
    "('t, 'c, 's) frames \<Rightarrow> 't Client \<Rightarrow> 'c \<Rightarrow> RunOverrides \<Rightarrow> 's \<Rightarrow> (goerror + Snapshot) \<times> 's" where
  "ReadWithOverridesContext fr c ctx overrides =
     withinContext fr ctx
       (ConfigReaderClient_Read (ExchangeFrame fr (WithContext fr ctx (Client.transport c))) overrides)"

definition callerOverrides :: "(bytes \<Rightarrow> bytes) \<Rightarrow> RunOverrides" where
  "callerOverrides getenv =
     \<lparr>RunOverrides.NasStore = getenv (lit ''ABSTRACTION_NAS_STORE''), Store = getenv (lit ''ABSTRACTION_STORE''),
      LogSink = getenv (lit ''ABSTRACTION_LOG''), LogService = getenv (lit ''ABSTRACTION_LOG_SERVICE'')\<rparr>"

definition ReadContext ::
    "('t, 'c, 's) frames \<Rightarrow> (bytes \<Rightarrow> bytes) \<Rightarrow> 't Client \<Rightarrow> 'c \<Rightarrow> 's \<Rightarrow> (goerror + Snapshot) \<times> 's" where
  "ReadContext fr getenv c ctx = ReadWithOverridesContext fr c ctx (callerOverrides getenv)"

definition Client_Read ::
    "('t, 'c, 's) frames \<Rightarrow> (bytes \<Rightarrow> bytes) \<Rightarrow> 't Client \<Rightarrow> 's \<Rightarrow> (goerror + Snapshot) \<times> 's" where
  "Client_Read fr getenv c = ReadContext fr getenv c (Background fr)"

definition ReadWithOverrides ::
    "('t, 'c, 's) frames \<Rightarrow> 't Client \<Rightarrow> RunOverrides \<Rightarrow> 's \<Rightarrow> (goerror + Snapshot) \<times> 's" where
  "ReadWithOverrides fr c = ReadWithOverridesContext fr c (Background fr)"

definition ReadUserContext :: "('t, 'c, 's) frames \<Rightarrow> 't Editor \<Rightarrow> 'c \<Rightarrow> 's \<Rightarrow> (goerror + UserSnapshot) \<times> 's" where
  "ReadUserContext fr c ctx =
     withinContext fr ctx (ConfigEditorClient_ReadUser (ExchangeFrame fr (WithContext fr ctx (Editor.transport c))))"

definition Editor_ReadUser :: "('t, 'c, 's) frames \<Rightarrow> 't Editor \<Rightarrow> 's \<Rightarrow> (goerror + UserSnapshot) \<times> 's" where
  "Editor_ReadUser fr c = ReadUserContext fr c (Background fr)"

definition ReplaceUserContext ::
    "('t, 'c, 's) frames \<Rightarrow> 't Editor \<Rightarrow> 'c \<Rightarrow> bytes \<Rightarrow> UserSettings \<Rightarrow> 's \<Rightarrow> (goerror + UserReplaceResult) \<times> 's" where
  "ReplaceUserContext fr c ctx expected values =
     withinContext fr ctx
       (ConfigEditorClient_ReplaceUser (ExchangeFrame fr (WithContext fr ctx (Editor.transport c))) expected values)"

definition Editor_ReplaceUser ::
    "('t, 'c, 's) frames \<Rightarrow> 't Editor \<Rightarrow> bytes \<Rightarrow> UserSettings \<Rightarrow> 's \<Rightarrow> (goerror + UserReplaceResult) \<times> 's" where
  "Editor_ReplaceUser fr c = ReplaceUserContext fr c (Background fr)"

text \<open>Durations are nanoseconds in an \<open>int64\<close>.\<close>

definition WithTimeout :: "('t, 'c, 's) frames \<Rightarrow> 't Observer \<Rightarrow> u64 \<Rightarrow> bytes + 't Observer" where
  "WithTimeout fr c timeout =
     (if timeout \<le>s 0 \<or> 35 * 1000000000 <s timeout
      then Inl (lit ''config: timeout must be positive and at most 35 seconds'')
      else Inr (c\<lparr>Observer.transport := SetTimeout fr timeout (Observer.transport c)\<rparr>))"

definition Observer_ObserveContext ::
    "('t, 'c, 's) frames \<Rightarrow> 't Observer \<Rightarrow> 'c \<Rightarrow> RunOverrides \<Rightarrow> bytes \<Rightarrow> u64 \<Rightarrow> 's
      \<Rightarrow> (goerror + ConfigObservation) \<times> 's" where
  "Observer_ObserveContext fr c ctx overrides cursor waitMS s =
     ObserveContext (ExchangeFrame fr (WithContext fr ctx (Observer.transport c))) (ContextErr fr ctx s) overrides cursor waitMS s"

subsection \<open>A timeout is positive and at most 35 seconds\<close>

lemma WithTimeout_bounds:
  "(\<exists>c'. WithTimeout fr c timeout = Inr c') \<longleftrightarrow> 0 < sint timeout \<and> sint timeout \<le> 35 * 10 ^ 9"
  by (simp add: WithTimeout_def word_sle_eq word_sless_alt not_le not_less)

subsection \<open>The caller's own environment\<close>

lemma mget_callerOverrides: "name \<in> override_names \<Longrightarrow> mget (overridesMap (callerOverrides getenv)) name = getenv name"
  by (auto simp: override_names_def overridesMap_def callerOverrides_def mget_def)

lemma callerOverrides_view: "environment_view (mget (overridesMap (callerOverrides getenv))) = environment_view getenv"
  by (rule ext) (auto simp: environment_view_def mget_callerOverrides EnvVars_names)

lemma valid_callerOverrides:
  "(\<And>name. name \<in> override_names \<Longrightarrow> validUTF8 (getenv name)) \<Longrightarrow> valid_RunOverrides (callerOverrides getenv)"
  by (simp add: valid_RunOverrides_def callerOverrides_def override_names_def)

subsection \<open>Properties\<close>

text \<open>C3: a read by an application, through its client, the wire, the endpoint, the dispatcher and the store, answers the
  layered configuration of its own run: the machine's file (unless the rung is omitted) under the
  user's record under the caller's own environment, not the service's, each key with its origin.\<close>

theorem client_read_is_layered:
  assumes "ContextErr fr ctx s = None" and "ExchangeFrame fr (WithContext fr ctx (Client.transport c)) = serveFrame d"
    and "host_ok (receiver d)" and "\<forall>name \<in> override_names. validUTF8 (getenv name)"
    and "authorize (receiver d) (world s) = None" and "loadHook (host (receiver d)) = None"
    and "readUserValue (userStore (host (receiver d))) (userPath (host (receiver d))) (world s) = (Inr v, w)"
  shows "\<exists>cfg. ReadContext fr getenv c ctx s = (Inr (wireSnapshot cfg), s\<lparr>world := w\<rparr>)
    \<and> view cfg =
      (if withoutMachine (host (receiver d)) \<or> MachinePath (receiver d) = [] then Map.empty
       else contribution (readMachineSource (MachineRead (receiver d) w) (MachineTrust (receiver d) w)
         (MachinePath (receiver d))))
      ++ contribution (decodeSource (dataIn (userStore (host (receiver d))) v) (userPath (host (receiver d))) User)
      ++ environment_view getenv"
proof -
  have "valid_RunOverrides (callerOverrides getenv)" using assms(4) by (simp add: valid_callerOverrides)
  from host_read_layered [OF assms(3) this assms(5-7)] assms(1,2) show ?thesis
    by (simp add: ReadContext_def ReadWithOverridesContext_def withinContext_def callerOverrides_view)
qed

text \<open>C12: while nobody else moves the record, an editor reads the user's settings, replaces them expecting the
  revision it read, and is told so: the settings it sent are what it and every later reader of the record get,
  with the revision the answer named, and the subscribers were told once.\<close>

theorem editor_session:
  assumes "\<forall>s. ContextErr fr ctx s = None" and "ExchangeFrame fr (WithContext fr ctx (Editor.transport c)) = serveFrame d"
    and "\<forall>w. authorize (receiver d) w = None" and "editPolicy (host (receiver d)) = None"
    and "userStore (host (receiver d)) = Some st" and "quiet st content (userPath (host (receiver d)))"
    and "\<not> blank (userPath (host (receiver d)))" and "sizeOf (content (world s) (userPath (host (receiver d)))) \<le> MaxUserFileBytes"
    and "userSnapshot (content (world s) (userPath (host (receiver d)))) = Inr current"
    and "valid_UserSettings values" and "length (userText (wireValues values)) \<le> MaxUserFileBytes"
  shows "\<exists>s'. ReadUserContext fr c ctx s = (Inr (userWire current), s)
    \<and> ReplaceUserContext fr c ctx (UserSnapshot.Revision (userWire current)) values s
      = (Inr \<lparr>UserReplaceResult.Outcome = UserReplaceOutcomeApplied,
          Snapshot = \<lparr>UserSnapshot.Values = values, Revision = revisionOf (wireValues values)\<rparr>\<rparr>, s')
    \<and> ReadUserContext fr c ctx s' = (Inr \<lparr>UserSnapshot.Values = values, Revision = revisionOf (wireValues values)\<rparr>, s')
    \<and> live s' = announce (live s)"
proof -
  let ?r = "receiver d" and ?path = "userPath (host (receiver d))" and ?cfg = "wireValues values"
  have cfg: "settings ?cfg = ?cfg" "valid_Config ?cfg"
    using assms(10) by (simp_all add: settings_def wireValues_def valid_Config_def valid_UserSettings_def)
  have wired: "userWire (snapshotOf ?cfg) = \<lparr>UserSnapshot.Values = values, Revision = revisionOf ?cfg\<rparr>"
    by (simp add: userWire_def snapshotOf_def wireValues_def)
  obtain known where known: "current = snapshotOf known" using userSnapshot_values [OF assms(9)] by blast
  have revision: "validUTF8 (Revision current)" "Revision current \<noteq> []"
    by (simp_all add: known snapshotOf_def revisionOf_valid) (simp add: revisionOf_def lit_def)
  obtain v where v: "readUserStore (Some st) ?path (world s) = (Inr (v, current), world s)"
    using quiet_read [OF assms(6,7,8,9)] by blast
  obtain w where w: "ReplaceUserStore (Some st) ?path (Revision current) ?cfg (world s, live s)
        = (Inr (snapshotOf ?cfg, True), (w, announce (live s)))"
      "ReadUserStore (Some st) ?path w = (Inr (snapshotOf ?cfg), w)"
    using quiet_replace [OF assms(6,7,8,9,11) cfg(2), of "live s"] by (simp add: cfg(1)) blast
  let ?s = "s\<lparr>world := w, live := announce (live s)\<rparr>"
  have "receiver_ReadUser ?r s = (Returns (userWire current), s)"
    using v assms(3,5) by (simp add: receiver_ReadUser_def ReadUserStore_def)
  moreover have "receiver_ReplaceUser ?r (Revision current) values s =
      (Returns \<lparr>UserReplaceResult.Outcome = UserReplaceOutcomeApplied, Snapshot = userWire (snapshotOf ?cfg)\<rparr>, ?s)"
    using w(1) assms(3,4,5) revision(2) by (simp add: receiver_ReplaceUser_def consultPolicy_def)
  moreover have "receiver_ReadUser ?r ?s = (Returns (userWire (snapshotOf ?cfg)), ?s)"
    using w(2) assms(3,5) by (simp add: receiver_ReadUser_def)
  moreover have "UserSnapshot.Revision (userWire current) = Revision current" by (simp add: userWire_def Let_def)
  ultimately show ?thesis using assms(1,2)
    by (intro exI [of _ ?s])
      (simp add: ReadUserContext_def ReplaceUserContext_def withinContext_def host_ReadUser
        host_ReplaceUser [OF revision(1) assms(10)] clientSees_def wired)
qed

subsection \<open>Runs\<close>

text \<open>A transport that reaches the host of \<open>HostSpec\<close>, and a caller with one variable set.\<close>

definition sampleFrames :: "(bytes, unit, memory hostState) frames" where
  "sampleFrames =
     \<lparr>FrameClient = id, WithDefaults = (\<lambda>timeout limit t. t), WithContext = (\<lambda>ctx t. t), SetTimeout = (\<lambda>timeout t. t),
      ExchangeFrame = (\<lambda>t. serveFrame sampleHost), ContextErr = (\<lambda>ctx s. None), Background = ()\<rparr>"

definition sampleEnvironment :: "bytes \<Rightarrow> bytes" where
  "sampleEnvironment name = (if name = lit ''ABSTRACTION_STORE'' then lit ''/mine'' else [])"

lemma sampleEnvironment_valid: "validUTF8 (sampleEnvironment name)"
  by (simp add: sampleEnvironment_def lit_valid)

lemma sampleFrames_fields [simp]: "ContextErr sampleFrames = (\<lambda>ctx s. None)" "ExchangeFrame sampleFrames = (\<lambda>t. serveFrame sampleHost)"
  by (simp_all add: sampleFrames_def)

lemma client_read_is_layered_witness:
  "\<exists>cfg. ReadContext sampleFrames sampleEnvironment (New sampleFrames (lit ''e'')) () sampleState = (Inr (wireSnapshot cfg), sampleState)
    \<and> view cfg = environment_view sampleEnvironment"
  using client_read_is_layered [of sampleFrames "()" sampleState "New sampleFrames (lit ''e'')" sampleHost sampleEnvironment None Map.empty]
    sample_home(2)
  by (simp add: sample_receiver sample_authorized readUserValue_def dataIn_def decodeSource_eq contribution_def sizeOf_def
      sampleEnvironment_valid)
    (simp add: sampleReceiver_def sampleState_def memoryStore_def sizeOf_def dataIn_def decodeSource_eq contribution_def)

lemma editor_session_witness:
  "\<exists>s'. ReadUserContext sampleFrames (NewEditor sampleFrames (lit ''e'')) () s' =
    (Inr \<lparr>UserSnapshot.Values = sampleEdit, Revision = revisionOf sampleValues\<rparr>, s')"
proof -
  have "\<exists>s'. ReadUserContext sampleFrames (NewEditor sampleFrames (lit ''e'')) () s' =
    (Inr \<lparr>UserSnapshot.Values = sampleEdit, Revision = revisionOf (wireValues sampleEdit)\<rparr>, s')"
    using editor_session [of sampleFrames "()" "NewEditor sampleFrames (lit ''e'')" sampleHost memoryStore "\<lambda>w. w" sampleState
        "snapshotOf Config_zero" sampleEdit]
    by (simp add: sample_receiver sample_authorized memoryStore_quiet sample_home sample_edit sizeOf_def userSnapshot_none) blast
  then show ?thesis by (simp add: sample_edit)
qed

end
