(* ===== verification/Command.thy ===== *)
theory Command
  imports HostSpec
begin

section \<open>The serve command\<close>

text \<open>
  Models \<open>go/service/serve.go\<close>, and \<open>Listen\<close> and \<open>ListenWithStore\<close> of \<open>service.go\<close>. Of Go's \<open>flag\<close> it writes out what
  a set with one string flag does. The identity of the process and the framed listener are another module's,
  functions of the record \<open>hosting\<close>. What the command prints is kept in order, with the stream; a write may
  fail, which \<open>writeErr\<close> says.
\<close>

subsection \<open>Flags\<close>

datatype flagError = ErrHelp | FlagError bytes

text \<open>The name and the value after \<open>=\<close>, which cannot be first.\<close>

definition flagParts :: "bytes \<Rightarrow> bytes \<times> bytes option" where
  "flagParts name =
     (let k = 1 + length (takeWhile (\<lambda>b. b \<noteq> ch CHR ''='') (tl name)) in
      if k < length name then (take k name, Some (drop (k + 1) name)) else (name, None))"

definition flagName :: "bytes \<Rightarrow> bytes" where
  "flagName arg = drop (if take 2 arg = lit ''--'' then 2 else 1) arg"

text \<open>\<open>FlagSet.Parse\<close>: the endpoint and the arguments left.\<close>

fun parseFlags :: "bytes list \<Rightarrow> bytes \<Rightarrow> flagError + bytes \<times> bytes list" where
  "parseFlags [] endpoint = Inr (endpoint, [])"
| "parseFlags (arg # args) endpoint =
     (if length arg < 2 \<or> hd arg \<noteq> ch CHR ''-'' then Inr (endpoint, arg # args)
      else if arg = lit ''--'' then Inr (endpoint, args)
      else if take 1 (flagName arg) \<in> {lit ''-'', lit ''=''} then Inl (FlagError (lit ''bad flag syntax: '' @ arg))
      else (case flagParts (flagName arg) of (name, value) \<Rightarrow>
        if name \<noteq> lit ''endpoint'' then
          (if name = lit ''help'' \<or> name = lit ''h'' then Inl ErrHelp
           else Inl (FlagError (lit ''flag provided but not defined: -'' @ name)))
        else (case value of Some v \<Rightarrow> parseFlags args v
          | None \<Rightarrow> (case args of [] \<Rightarrow> Inl (FlagError (lit ''flag needs an argument: -'' @ name))
              | v # args \<Rightarrow> parseFlags args v))))"

subsection \<open>The host\<close>

record 'w hosting =
  currentUser :: "'w \<Rightarrow> (bytes + bytes) \<times> 'w"
  listenFramed :: "bytes \<Rightarrow> 'w \<Rightarrow> (bytes + nat) \<times> 'w"

record ('w, 'v, 'p) opened =
  listener :: nat
  opened_host :: "('w, 'v, 'p) Host"
  opened_observation :: observationState

definition ListenWithStore ::
    "'w hosting \<Rightarrow> bytes \<Rightarrow> ('w, 'v) Store option \<Rightarrow> bytes \<Rightarrow> 'w \<Rightarrow> (bytes + ('w, 'v, 'p) opened) \<times> 'w" where
  "ListenWithStore sys endpoint store path w =
     (if store = None \<or> path = [] then (Inl (lit ''config service: user storage required''), w)
      else (case currentUser sys w of
          (Inl e, w) \<Rightarrow> (Inl e, w)
        | (Inr uid, w) \<Rightarrow>
            if uid = [] then (Inl (lit ''config service: current principal unavailable''), w)
            else (case listenFramed sys endpoint w of
                (Inl e, w) \<Rightarrow> (Inl e, w)
              | (Inr l, w) \<Rightarrow>
                  (Inr \<lparr>listener = l,
                     opened_host = \<lparr>owner = uid, loadHook = None, userStore = store, userPath = path, withoutMachine = False,
                       editPolicy = None\<rparr>,
                     opened_observation = \<lparr>serving = False, initialized = False, failed = False, configured = False, epoch = [],
                       slots = 0, cancelled = False\<rparr>\<rparr>, w))))"

text \<open>\<open>configureFileObservation\<close> drops the error of \<open>EnableObservation\<close>.\<close>

definition configureFileObservation :: "('w, 'v, 'p) opened \<Rightarrow> ('w, 'v, 'p) opened" where
  "configureFileObservation h =
     (case EnableObservation (opened_observation h) of Inl e \<Rightarrow> h | Inr o' \<Rightarrow> h\<lparr>opened_observation := o'\<rparr>)"

definition Listen ::
    "'w hosting \<Rightarrow> ('w, 'v) Store \<Rightarrow> bytes \<Rightarrow> bytes \<Rightarrow> 'w \<Rightarrow> (bytes + ('w, 'v, 'p) opened) \<times> 'w" where
  "Listen sys fileStore path endpoint w =
     (case ListenWithStore sys endpoint (Some fileStore) path w of
        (Inl e, w) \<Rightarrow> (Inl e, w)
      | (Inr h, w) \<Rightarrow> (Inr (configureFileObservation h), w))"

subsection \<open>The command\<close>

datatype stream = Stdout | Stderr

record 'w session =
  printed :: "(stream \<times> bytes) list"
  system :: 'w

datatype serveError = UsageError bytes | Failure bytes

text \<open>What the command needs: how writes fail, the default endpoint, \<open>Listen\<close>, and the host's own \<open>Serve\<close> and \<open>Close\<close>
  (\<open>Lifecycle\<close>), where \<open>hostServe\<close> runs until the interrupt signal and prints what \<open>OnError\<close> is told.\<close>

record ('w, 'h) command =
  writeErr :: "stream \<Rightarrow> bytes \<Rightarrow> bytes option"
  defaultEndpoint :: bytes
  listen :: "bytes \<Rightarrow> 'w \<Rightarrow> (bytes + 'h) \<times> 'w"
  hostServe :: "'h \<Rightarrow> 'w session \<Rightarrow> serveError option \<times> 'w session"
  hostClose :: "'h \<Rightarrow> 'w \<Rightarrow> 'w"

definition prints :: "stream \<Rightarrow> bytes \<Rightarrow> 'w session \<Rightarrow> 'w session" where
  "prints out text s = s\<lparr>printed := printed s @ [(out, text)]\<rparr>"

definition newline :: bytes where
  "newline = [ch CHR 0x0A]"

definition configUsage :: bytes where
  "configUsage = lit ''Usage: openabstractions serve config [options]'' @ newline @ newline @
     lit ''Answers configuration reads and edits for this account through the service.'' @ newline @ newline @
     lit ''  --endpoint EP   framed per-user config endpoint (default: the installed'' @ newline @
     lit ''                  runtime'' @ [0x27] @ lit ''s pipe for this service)'' @ newline @ newline @
     lit ''Exit codes: 0 a clean stop, 1 startup failure, 2 usage error.'' @ newline"

definition isHelp :: "bytes \<Rightarrow> bool" where
  "isHelp arg \<longleftrightarrow> arg = lit ''--help'' \<or> arg = lit ''-h'' \<or> arg = lit ''help''"

definition usageError :: "bytes \<Rightarrow> bytes option \<Rightarrow> serveError" where
  "usageError text written =
     UsageError (lit ''config: usage error: '' @ text @ (case written of Some e \<Rightarrow> newline @ e | None \<Rightarrow> []))"

text \<open>From \<open>Listen\<close> on.\<close>

definition startHost :: "('w, 'h) command \<Rightarrow> bytes \<Rightarrow> 'w session \<Rightarrow> serveError option \<times> 'w session" where
  "startHost c endpoint s =
     (case listen c endpoint (system s) of
        (Inl e, w) \<Rightarrow> (Some (Failure e), s\<lparr>system := w\<rparr>)
      | (Inr h, w) \<Rightarrow>
          (case hostServe c h (prints Stdout (lit ''config: listening '' @ endpoint @ newline) (s\<lparr>system := w\<rparr>)) of
             (r, s) \<Rightarrow> (r, s\<lparr>system := hostClose c h (system s)\<rparr>)))"

definition Serve :: "('w, 'h) command \<Rightarrow> bytes list \<Rightarrow> 'w session \<Rightarrow> serveError option \<times> 'w session" where
  "Serve c args s =
     (if args \<noteq> [] \<and> isHelp (hd args) then (map_option Failure (writeErr c Stdout configUsage), prints Stdout configUsage s)
      else (case parseFlags args (defaultEndpoint c) of
          Inl ErrHelp \<Rightarrow> (map_option Failure (writeErr c Stderr configUsage), prints Stderr configUsage s)
        | Inl (FlagError e) \<Rightarrow>
            (Some (usageError e (writeErr c Stderr configUsage)), prints Stderr configUsage (prints Stderr (e @ newline) s))
        | Inr (endpoint, extra) \<Rightarrow>
            if extra \<noteq> [] then (Some (usageError (lit ''config: unexpected arguments'') None), prints Stderr configUsage s)
            else startHost c endpoint s))"

subsection \<open>What the arguments may be\<close>

text \<open>A grammar of its own: any number of \<open>-endpoint\<close> flags in the four spellings, then perhaps \<open>--\<close>; the last one
  counts.\<close>

inductive says :: "bytes \<Rightarrow> bytes list \<Rightarrow> bytes \<Rightarrow> bool" where
  nothing: "says e [] e"
| dashes: "says e [lit ''--''] e"
| apart: "says v args e \<Longrightarrow> f \<in> {lit ''-endpoint'', lit ''--endpoint''} \<Longrightarrow> says d (f # v # args) e"
| joined: "says v args e \<Longrightarrow> f \<in> {lit ''-endpoint='', lit ''--endpoint=''} \<Longrightarrow> says d ((f @ v) # args) e"

text \<open>An argument that asks for the usage text.\<close>

definition helpWord :: "bytes \<Rightarrow> bool" where
  "helpWord arg \<longleftrightarrow> isHelp arg \<or> fst (flagParts (flagName arg)) \<in> {lit ''h'', lit ''help''}"

lemma flagParts_joined: "flagParts (lit ''endpoint'' @ ch CHR ''='' # v) = (lit ''endpoint'', Some v)"
  by (simp add: flagParts_def lit_def Let_def)

lemma flagParts_plain: "flagParts (lit ''endpoint'') = (lit ''endpoint'', None)"
  by (simp add: flagParts_def lit_def Let_def)

lemma flagParts_back:
  assumes "flagParts n = (a, value)"
  shows "n = (case value of None \<Rightarrow> a | Some v \<Rightarrow> a @ ch CHR ''='' # v)"
proof -
  let ?p = "\<lambda>b. b \<noteq> ch CHR ''=''" and ?k = "1 + length (takeWhile (\<lambda>b. b \<noteq> ch CHR ''='') (tl n))"
  show ?thesis
  proof (cases "?k < length n")
    case True
    then have "n ! ?k = tl n ! length (takeWhile ?p (tl n))" by (simp add: nth_tl)
    also have "\<dots> = ch CHR ''=''" using True nth_length_takeWhile [of ?p "tl n"] by simp
    finally have "n = take ?k n @ ch CHR ''='' # drop (?k + 1) n" using id_take_nth_drop [OF True] by simp
    with assms True show ?thesis by (auto simp: flagParts_def Let_def)
  qed (use assms in \<open>auto simp: flagParts_def Let_def\<close>)
qed

lemma flagName_back:
  assumes "2 \<le> length arg" and "hd arg = ch CHR ''-''"
  shows "arg = lit ''-'' @ flagName arg \<or> arg = lit ''--'' @ flagName arg"
proof -
  obtain c rest' where "arg = ch CHR ''-'' # c # rest'" using assms by (cases arg; cases "tl arg") auto
  then show ?thesis by (simp add: flagName_def lit_def)
qed

lemma says_parses: "says d args e \<Longrightarrow> parseFlags args d = Inr (e, [])"
proof (induction rule: says.induct)
  case (apart v args e f d)
  then show ?case using flagParts_plain [unfolded lit_def, simplified] by (auto simp: flagName_def lit_def)
next
  case (joined v args e f d)
  then show ?case using flagParts_joined [of v] by (auto simp: flagName_def lit_def)
qed (auto simp: lit_def)

text \<open>One flag at a time, the parser accepts nothing else.\<close>

lemma parses_says: "parseFlags args d = Inr (e, []) \<Longrightarrow> says d args e"
proof (induction args d rule: parseFlags.induct)
  case (2 arg args d)
  show ?case
  proof (cases "arg = lit ''--''")
    case True
    with 2 show ?thesis by (auto simp: lit_def intro: dashes [unfolded lit_def, simplified])
  next
    case False
    have flag: "2 \<le> length arg" "hd arg = ch CHR ''-''" using "2.prems" by (auto split: if_splits)
    obtain name given where parts: "flagParts (flagName arg) = (name, given)" by fastforce
    have name: "name = lit ''endpoint''" using "2.prems" flag False parts by (auto split: if_splits)
    note arg = flagName_back [OF flag] flagParts_back [OF parts]
    show ?thesis
    proof (cases given)
      case (Some v)
      then have "parseFlags args v = Inr (e, [])" "says v args e" 
        using 2 flag False parts name by (auto split: if_splits)
      moreover have "arg = lit ''-endpoint='' @ v \<or> arg = lit ''--endpoint='' @ v"
        using arg by (simp add: Some name) (auto simp: lit_def)
      ultimately show ?thesis using joined by blast
    next
      case None
      then obtain v more where "args = v # more" "says v more e"
        using 2 flag False parts name by (auto split: if_splits list.splits)
      moreover have "arg \<in> {lit ''-endpoint'', lit ''--endpoint''}"
        using arg by (simp add: None name) (auto simp: lit_def)
      ultimately show ?thesis using apart by blast
    qed
  qed
qed (auto intro: says.nothing)

lemma parseFlags_help: "parseFlags args d = Inl ErrHelp \<Longrightarrow> \<exists>arg \<in> set args. helpWord arg"
proof (induction args d rule: parseFlags.induct)
  case (2 arg args d)
  show ?case
  proof (cases "helpWord arg")
    case False
    with 2 show ?thesis
      by (auto simp: helpWord_def split: if_splits prod.splits option.splits list.splits)
  qed simp
qed simp

lemma take_lit: "take (Suc 0) (lit (c # s)) = lit [c]"
  by (simp add: lit_Cons)

lemma parseFlags_text: "parseFlags args d = Inl (FlagError e) \<Longrightarrow> take 1 e \<in> {lit ''b'', lit ''f''}"
proof (induction args d rule: parseFlags.induct)
  case (2 arg args d)
  obtain name given where parts: "flagParts (flagName arg) = (name, given)" by fastforce
  from 2 parts show ?case
    by (cases given; cases args) (auto simp: take_lit split: if_splits)
qed simp

definition timesPrinted :: "bytes \<Rightarrow> 'w session \<Rightarrow> nat" where
  "timesPrinted text s = length (filter (\<lambda>p. snd p = text) (printed s))"

lemma timesPrinted_prints: "timesPrinted text (prints out other s) = timesPrinted text s + (if other = text then 1 else 0)"
  by (simp add: timesPrinted_def prints_def)

lemma prints_system [simp]: "system (prints out text s) = system s"
  by (simp add: prints_def)

lemma flag_text_not_usage: "parseFlags args d = Inl (FlagError e) \<Longrightarrow> e @ newline \<noteq> configUsage"
proof
  assume "parseFlags args d = Inl (FlagError e)" and same: "e @ newline = configUsage"
  from parseFlags_text [OF this(1)] obtain c more where "e = c # more" "c \<noteq> ch CHR ''U''"
    by (cases e) (auto simp: lit_def)
  with same show False by (simp add: configUsage_def lit_def)
qed

subsection \<open>Properties\<close>

text \<open>C29: the serve command listens exactly when its arguments are the endpoint flag in one of its spellings, on the last
  endpoint they name or else the default one. For any other arguments it opens nothing, prints its usage
  exactly once, and answers a usage error unless help was asked for.\<close>

theorem command_line:
  shows "((args = [] \<or> \<not> isHelp (hd args)) \<and> says (defaultEndpoint c) args e \<longrightarrow> Serve c args s = startHost c e s)
    \<and> ((args \<noteq> [] \<and> isHelp (hd args)) \<or> (\<nexists>e. says (defaultEndpoint c) args e) \<longrightarrow>
        system (snd (Serve c args s)) = system s
        \<and> timesPrinted configUsage (snd (Serve c args s)) = timesPrinted configUsage s + 1
        \<and> ((\<forall>arg \<in> set args. \<not> helpWord arg) \<longrightarrow> (\<exists>text. fst (Serve c args s) = Some (UsageError text))))"
proof (cases "args \<noteq> [] \<and> isHelp (hd args)")
  case True
  then have "\<exists>arg \<in> set args. helpWord arg" by (auto simp: helpWord_def intro: hd_in_set)
  with True show ?thesis by (auto simp: Serve_def timesPrinted_prints)
next
  case False
  show ?thesis
  proof (cases "parseFlags args (defaultEndpoint c)")
    case (Inl fe)
    then have "\<nexists>e. says (defaultEndpoint c) args e" using says_parses by fastforce
    with False Inl show ?thesis
      by (cases fe)
        (auto simp: Serve_def timesPrinted_prints usageError_def dest: parseFlags_help flag_text_not_usage)
  next
    case (Inr parsed)
    obtain e' extra where parsed: "parsed = (e', extra)" by fastforce
    show ?thesis
    proof (cases extra)
      case Nil
      then have "says (defaultEndpoint c) args e'" using Inr parsed parses_says by simp
      moreover have "e = e'" if "says (defaultEndpoint c) args e" using says_parses [OF that] Inr parsed by simp
      ultimately show ?thesis using False Inr parsed Nil by (auto simp: Serve_def)
    next
      case (Cons a b)
      then have "\<nexists>e. says (defaultEndpoint c) args e" using Inr parsed says_parses by fastforce
      with False Inr parsed Cons show ?thesis by (auto simp: Serve_def timesPrinted_prints usageError_def)
    qed
  qed
qed

definition sampleCommand :: "(nat, unit) command" where
  "sampleCommand =
     \<lparr>writeErr = (\<lambda>out text. None), defaultEndpoint = lit ''d'', listen = (\<lambda>e w. (Inr (), w + length e)),
      hostServe = (\<lambda>h s. (None, s)), hostClose = (\<lambda>h w. w)\<rparr>"

lemma command_line_witness:
  "Serve sampleCommand [lit ''--endpoint=a'', lit ''-endpoint'', lit ''b''] \<lparr>printed = [], system = 0\<rparr>
      = startHost sampleCommand (lit ''b'') \<lparr>printed = [], system = 0\<rparr>
    \<and> (\<exists>text. fst (Serve sampleCommand [lit ''config''] \<lparr>printed = [], system = 0\<rparr>) = Some (UsageError text))"
proof -
  have split: "lit ''--endpoint=a'' = lit ''--endpoint='' @ lit ''a''" by (simp add: lit_def)
  have "says (lit ''d'') [lit ''--endpoint=a'', lit ''-endpoint'', lit ''b''] (lit ''b'')"
    unfolding split by (rule joined [OF apart [OF says.nothing]]) simp_all
  moreover have "\<nexists>e. says (lit ''d'') [lit ''config''] e" by (auto dest!: says_parses simp: lit_def)
  moreover have "\<not> helpWord (lit ''config'')" by code_simp
  ultimately show ?thesis
    using command_line [of "[lit ''--endpoint=a'', lit ''-endpoint'', lit ''b'']" sampleCommand "lit ''b''" "\<lparr>printed = [], system = 0\<rparr>"]
      command_line [of "[lit ''config'']" sampleCommand "[]" "\<lparr>printed = [], system = 0\<rparr>"]
    by (simp add: sampleCommand_def isHelp_def)
qed

end
