(* ===== verification/Following.thy ===== *)
theory Following
  imports Prelude
begin

section \<open>Waiting for a change\<close>

text \<open>
  Models the concurrency of \<open>go/service/observer.go\<close> that a schedule of \<open>Observer\<close> stands for: the goroutine of
  \<open>startObservation\<close>, which replaces the channel \<open>o.changed\<close> at each event of the source, and the loops of any number
  of calls of \<open>Observe\<close>. A section under \<open>o.mu\<close> is one step, and so are the read of the settings and each wait. The
  channels \<open>o.changed\<close> are numbered; those below \<open>generation\<close> are closed. The settings are values of a type \<open>'v\<close>,
  and a call's cursor stands for the settings it knows: \<open>WaitingSpec\<close> takes the digests of
  snapshots for both. What the source promises is here a
  debt, \<open>owed\<close>: it delivers one event after a change, at some time, unless it closes its channel.
\<close>

subsection \<open>States\<close>

text \<open>Where a call is: before its turn, holding the channel it read, waiting on it, or answered.\<close>

datatype 'v callPlace = Top | Holding nat | Blocked nat | Answered 'v | Unchanged | Unavailable | GivenUp

record 'v waiter =
  known :: 'v
  expired :: bool
  place :: "'v callPlace"

record 'v following =
  settings :: 'v
  owed :: bool
  delivered :: bool
  sourceOpen :: bool
  generation :: nat
  broken :: bool
  running :: bool
  told :: nat
  hostOver :: bool
  waiters :: "nat \<rightharpoonup> 'v waiter"

definition followStart :: "'v \<Rightarrow> 'v following" where
  "followStart v =
     \<lparr>settings = v, owed = False, delivered = False, sourceOpen = True, generation = 0, broken = False, running = True, told = 0,
      hostOver = False, waiters = Map.empty\<rparr>"

subsection \<open>Operations\<close>

text \<open>The goroutine: an event received, and the channel found closed.\<close>

definition broadcast :: "'v following \<Rightarrow> 'v following" where
  "broadcast s = s\<lparr>delivered := False, generation := generation s + 1\<rparr>"

definition sourceEnded :: "'v following \<Rightarrow> 'v following" where
  "sourceEnded s = s\<lparr>generation := generation s + 1, broken := True, running := False, told := told s + 1\<rparr>"

text \<open>A call reads \<open>o.changed\<close> and \<open>o.failed\<close>, and then the settings.\<close>

definition captureTurn :: "'v following \<Rightarrow> 'v waiter \<Rightarrow> 'v waiter" where
  "captureTurn s c = c\<lparr>place := if broken s then Unavailable else Holding (generation s)\<rparr>"

definition readTurn :: "nat \<Rightarrow> 'v following \<Rightarrow> 'v waiter \<Rightarrow> 'v waiter" where
  "readTurn g s c =
     c\<lparr>place := if settings s \<noteq> known c then Answered (settings s) else if expired c then Unchanged else Blocked g\<rparr>"

definition setWaiter :: "nat \<Rightarrow> 'v waiter \<Rightarrow> 'v following \<Rightarrow> 'v following" where
  "setWaiter i c s = s\<lparr>waiters := (waiters s)(i \<mapsto> c)\<rparr>"

datatype 'v followEvent = Changes 'v | Delivers | SourceCloses | Receives | FindsClosed | HostEnds | FollowerLeaves
  | Calls nat | Captures nat | Reads nat | Wakes nat | TimesOut nat | GivesUp nat

inductive followStep :: "'v following \<Rightarrow> 'v followEvent \<Rightarrow> 'v following \<Rightarrow> bool" where
  changes: "followStep s (Changes v) (s\<lparr>settings := v, owed := owed s \<or> sourceOpen s\<rparr>)"
| delivers: "owed s \<Longrightarrow> sourceOpen s \<Longrightarrow> followStep s Delivers (s\<lparr>owed := False, delivered := True\<rparr>)"
| source_closes: "sourceOpen s \<Longrightarrow> followStep s SourceCloses (s\<lparr>owed := False, sourceOpen := False\<rparr>)"
| receives: "running s \<Longrightarrow> delivered s \<Longrightarrow> followStep s Receives (broadcast s)"
| finds_closed: "running s \<Longrightarrow> \<not> delivered s \<Longrightarrow> \<not> sourceOpen s \<Longrightarrow> followStep s FindsClosed (sourceEnded s)"
| host_ends: "followStep s HostEnds (s\<lparr>hostOver := True\<rparr>)"
| follower_leaves: "running s \<Longrightarrow> hostOver s \<Longrightarrow> followStep s FollowerLeaves (s\<lparr>running := False\<rparr>)"
| calls: "waiters s i = None \<Longrightarrow> place c = Top \<Longrightarrow> followStep s (Calls i) (setWaiter i c s)"
| captures: "waiters s i = Some c \<Longrightarrow> place c = Top \<Longrightarrow> followStep s (Captures i) (setWaiter i (captureTurn s c) s)"
| reads: "waiters s i = Some c \<Longrightarrow> place c = Holding g \<Longrightarrow> followStep s (Reads i) (setWaiter i (readTurn g s c) s)"
| wakes: "waiters s i = Some c \<Longrightarrow> place c = Blocked g \<Longrightarrow> g < generation s \<Longrightarrow>
    followStep s (Wakes i) (setWaiter i (c\<lparr>place := Top\<rparr>) s)"
| times_out: "waiters s i = Some c \<Longrightarrow> place c = Blocked g \<Longrightarrow>
    followStep s (TimesOut i) (setWaiter i (c\<lparr>expired := True, place := Top\<rparr>) s)"
| gives_up: "waiters s i = Some c \<Longrightarrow> place c = Top \<or> place c = Blocked g \<Longrightarrow>
    followStep s (GivesUp i) (setWaiter i (c\<lparr>place := GivenUp\<rparr>) s)"

inductive_cases followStepE: "followStep s e t"

subsection \<open>The invariant\<close>

text \<open>A call that waits although the settings are no longer those it knows will be woken: its channel is closed already, or
  the event that will close it is on its way.\<close>

definition awake :: "'v following \<Rightarrow> 'v waiter \<Rightarrow> bool" where
  "awake s c \<longleftrightarrow> (\<forall>g. (place c = Holding g \<or> place c = Blocked g \<longrightarrow> g \<le> generation s \<and> (broken s \<longrightarrow> g < generation s))
     \<and> (place c = Blocked g \<and> settings s \<noteq> known c \<longrightarrow> g < generation s \<or> delivered s \<or> owed s \<or> \<not> sourceOpen s))"

definition soundFollowing :: "'v following \<Rightarrow> bool" where
  "soundFollowing s \<longleftrightarrow> (\<forall>i c. waiters s i = Some c \<longrightarrow> awake s c) \<and> (\<not> running s \<longrightarrow> hostOver s \<or> broken s)
     \<and> (owed s \<longrightarrow> sourceOpen s) \<and> told s = (if broken s then 1 else 0) \<and> (broken s \<longrightarrow> \<not> running s)"

lemma followStart_sound: "soundFollowing (followStart v)"
  by (simp add: soundFollowing_def followStart_def)

lemma setWaiter_sound: "soundFollowing s \<Longrightarrow> awake s c \<Longrightarrow> soundFollowing (setWaiter i c s)"
  by (auto simp: soundFollowing_def setWaiter_def awake_def)

lemma awake_later: "awake s c \<Longrightarrow> generation s < generation t \<Longrightarrow> awake t c"
  unfolding awake_def by (meson le_less_trans less_imp_le)

lemma followStep_sound:
  assumes "followStep s e t" and "soundFollowing s"
  shows "soundFollowing t"
  using assms(1)
proof cases
  case (captures i c)
  have "awake s (captureTurn s c)" by (auto simp: awake_def captureTurn_def)
  with captures assms(2) show ?thesis by (simp add: setWaiter_sound)
next
  case (reads i c g)
  then have "awake s c" using assms(2) by (simp add: soundFollowing_def)
  then have "awake s (readTurn g s c)" using reads by (auto simp: awake_def readTurn_def)
  with reads assms(2) show ?thesis by (simp add: setWaiter_sound)
next
  case receives
  then show ?thesis using assms(2) awake_later [of s _ t] by (auto simp: soundFollowing_def broadcast_def)
next
  case finds_closed
  then show ?thesis using assms(2) awake_later [of s _ t] by (auto simp: soundFollowing_def sourceEnded_def split: if_splits)
qed (use assms(2) in \<open>auto simp: soundFollowing_def awake_def setWaiter_def\<close>)

subsection \<open>Runs\<close>

inductive followRun :: "'v following \<Rightarrow> 'v followEvent list \<Rightarrow> 'v following \<Rightarrow> bool" where
  run_nil: "followRun s [] s"
| run_cons: "followStep s e t \<Longrightarrow> followRun t es u \<Longrightarrow> followRun s (e # es) u"

lemma followRun_append: "followRun s es t \<Longrightarrow> followRun t es' u \<Longrightarrow> followRun s (es @ es') u"
  by (induction rule: followRun.induct) (auto intro: run_cons)

lemma followRun_sound: "followRun s es t \<Longrightarrow> soundFollowing s \<Longrightarrow> soundFollowing t"
  by (induction rule: followRun.induct) (auto dest: followStep_sound)

lemma run_one: "followStep s e t \<Longrightarrow> followRun s [e] t"
  by (rule run_cons [OF _ run_nil])

text \<open>First the channel of an outdated call is closed, by the goroutine; then the call goes round.\<close>

lemma channel_closes:
  assumes "soundFollowing s" and "waiters s i = Some c" and "place c = Blocked g" and "settings s \<noteq> known c" and "\<not> hostOver s"
  shows "\<exists>es t. followRun s es t \<and> length es \<le> 2 \<and> set es \<subseteq> {Delivers, Receives, FindsClosed} \<and> g < generation t
    \<and> waiters t = waiters s \<and> settings t = settings s"
proof (cases "g < generation s")
  case True
  then show ?thesis by (intro exI [of _ "[]"] exI [of _ s]) (simp add: run_nil)
next
  case False
  have c: "g \<le> generation s" "\<not> broken s" "delivered s \<or> owed s \<or> \<not> sourceOpen s"
    using assms False by (auto simp: soundFollowing_def awake_def)
  have up: "running s" using assms(1,5) c(2) by (auto simp: soundFollowing_def)
  consider "delivered s" | "\<not> delivered s" "owed s" "sourceOpen s" | "\<not> delivered s" "\<not> sourceOpen s"
    using c(3) assms(1) by (auto simp: soundFollowing_def)
  then show ?thesis
  proof cases
    case 1
    with run_one [OF receives [OF up 1]] c(1) show ?thesis by (fastforce simp: broadcast_def)
  next
    case 2
    let ?t = "s\<lparr>owed := False, delivered := True\<rparr>"
    have "followStep ?t Receives (broadcast ?t)" using up by (intro receives) simp_all
    from run_cons [OF delivers [OF 2(2,3)] run_one [OF this]] c(1) show ?thesis
      by (intro exI [of _ "[Delivers, Receives]"] exI [of _ "broadcast ?t"]) (simp add: broadcast_def)
  next
    case 3
    with run_one [OF finds_closed [OF up 3]] c(1) show ?thesis by (fastforce simp: sourceEnded_def)
  qed
qed

lemma call_goes_round:
  assumes "waiters s i = Some c" and "place c = Blocked g" and "settings s \<noteq> known c" and "g < generation s"
  shows "\<exists>es t c'. followRun s es t \<and> length es \<le> 3 \<and> set es \<subseteq> {Wakes i, Captures i, Reads i} \<and> settings t = settings s
    \<and> waiters t i = Some c' \<and> (place c' = Answered (settings s) \<or> place c' = Unavailable)"
proof -
  let ?c1 = "c\<lparr>place := Top\<rparr>" and ?s1 = "setWaiter i (c\<lparr>place := Top\<rparr>) s"
  let ?c2 = "captureTurn ?s1 ?c1"
  let ?s2 = "setWaiter i ?c2 ?s1"
  have woken: "followStep s (Wakes i) ?s1" by (rule wakes [OF assms(1,2,4)])
  have captured: "followStep ?s1 (Captures i) ?s2" by (rule captures) (simp_all add: setWaiter_def)
  note first = run_cons [OF woken run_one [OF captured]]
  show ?thesis
  proof (cases "broken s")
    case True
    then show ?thesis using first
      by (intro exI [of _ "[Wakes i, Captures i]"] exI [of _ ?s2] exI [of _ ?c2]) (simp add: setWaiter_def captureTurn_def)
  next
    case False
    let ?c3 = "readTurn (generation s) ?s2 ?c2"
    have "followStep ?s2 (Reads i) (setWaiter i ?c3 ?s2)"
      using False by (intro reads) (simp_all add: setWaiter_def captureTurn_def)
    from followRun_append [OF first run_one [OF this]] show ?thesis using assms(3) False
      by (intro exI [of _ "[Wakes i, Captures i, Reads i]"] exI [of _ "setWaiter i ?c3 ?s2"] exI [of _ ?c3])
        (simp add: setWaiter_def captureTurn_def readTurn_def)
  qed
qed

subsection \<open>Properties\<close>

text \<open>C11: no wake-up of an observing call is lost: in every interleaving of the source, the goroutine of the host and any number
  of calls, a call that waits although the settings are no longer those of its cursor is not stuck. Without
  its timer, and without another change, at most five steps answer it with the settings of now or, if the
  source has failed, tell it so.\<close>

theorem no_wakeup_lost:
  assumes "followRun (followStart v) history s" and "\<not> hostOver s"
    and "waiters s i = Some c" and "place c = Blocked g" and "settings s \<noteq> known c"
  shows "\<exists>es t c'. followRun s es t \<and> length es \<le> 5
    \<and> set es \<subseteq> {Delivers, Receives, FindsClosed, Wakes i, Captures i, Reads i} \<and> settings t = settings s
    \<and> waiters t i = Some c' \<and> (place c' = Answered (settings s) \<or> place c' = Unavailable)"
proof -
  have "soundFollowing s" by (rule followRun_sound [OF assms(1) followStart_sound])
  from channel_closes [OF this assms(3,4,5,2)] obtain es t where t: "followRun s es t" "length es \<le> 2"
    "set es \<subseteq> {Delivers, Receives, FindsClosed}" "g < generation t" "waiters t = waiters s" "settings t = settings s"
    by blast
  from call_goes_round [of t i c g] t assms(3-5) obtain es' u c' where u: "followRun t es' u" "length es' \<le> 3"
    "set es' \<subseteq> {Wakes i, Captures i, Reads i}" "settings u = settings s" "waiters u i = Some c'"
    "place c' = Answered (settings s) \<or> place c' = Unavailable"
    by (metis (no_types, lifting))
  have "length (es @ es') \<le> 5" using t(2) u(2) by simp
  moreover have "set (es @ es') \<subseteq> {Delivers, Receives, FindsClosed, Wakes i, Captures i, Reads i}" using t(3) u(3) by auto
  ultimately show ?thesis using followRun_append [OF t(1) u(1)] u(4-6) by blast
qed

text \<open>A call that knows the settings 0 waits; then they become 1.\<close>

lemma no_wakeup_lost_witness:
  "\<exists>es t (c' :: nat waiter). followRun (followStart 0) es t \<and> waiters t 7 = Some c' \<and> (place c' = Answered 1 \<or> place c' = Unavailable)"
proof -
  let ?c = "\<lparr>known = 0, expired = False, place = Top\<rparr> :: nat waiter"
  let ?s0 = "followStart 0 :: nat following"
  let ?s1 = "setWaiter 7 ?c ?s0"
  let ?s2 = "setWaiter 7 (captureTurn ?s1 ?c) ?s1"
  let ?s3 = "setWaiter 7 (readTurn 0 ?s2 (captureTurn ?s1 ?c)) ?s2"
  let ?s4 = "?s3\<lparr>settings := 1, owed := owed ?s3 \<or> sourceOpen ?s3\<rparr>"
  have a: "followStep ?s0 (Calls 7) ?s1" by (rule calls) (simp_all add: followStart_def)
  have b: "followStep ?s1 (Captures 7) ?s2" by (rule captures) (simp_all add: setWaiter_def)
  have d: "followStep ?s2 (Reads 7) ?s3" by (rule reads) (simp_all add: setWaiter_def captureTurn_def followStart_def)
  have e: "followStep ?s3 (Changes 1) ?s4" by (rule changes)
  note run = run_cons [OF a run_cons [OF b run_cons [OF d run_one [OF e]]]]
  have "waiters ?s4 7 = Some \<lparr>known = 0, expired = False, place = Blocked 0\<rparr>"
    by (simp add: setWaiter_def captureTurn_def readTurn_def followStart_def)
  moreover have "\<not> hostOver ?s4" "settings ?s4 = 1" by (simp_all add: setWaiter_def followStart_def)
  ultimately obtain es t c' where "followRun ?s4 es t" "waiters t 7 = Some c'" "place c' = Answered 1 \<or> place c' = Unavailable"
    using no_wakeup_lost [OF run, of 7 _ 0] by fastforce
  with followRun_append [OF run] show ?thesis by blast
qed

end
