(* ===== verification/WaitingSpec.thy ===== *)
theory WaitingSpec
  imports Following HostSpec
begin

section \<open>The waiting calls are calls of Observe\<close>

text \<open>
  \<open>Following\<close> speaks of settings and of what a call knows; here the settings are the digest of the snapshot
  that a read answers and what a call knows is the digest in its cursor, and one turn of \<open>observeTurn\<close> does what
  \<open>captureTurn\<close> and \<open>readTurn\<close> say, for a call that may read and that has, or finds, a slot.
\<close>

definition digestOf :: "Snapshot \<Rightarrow> bytes" where
  "digestOf snapshot = hexEncode (sum256 (Encode snapshot))"

lemma cursorOf_same: "cursorOf start overrides a = cursorOf start overrides b \<longleftrightarrow> digestOf a = digestOf b"
  by (simp add: cursorOf_def digestOf_def)

lemma failed_turn:
  assumes "WaitErr d (world s) = None" and "broken f = failed (observation s)" and "broken f"
  shows "place (captureTurn f c) = Unavailable
    \<and> observeTurn d overrides cursor ex held s = (Some (refusal cursor ConfigObservationOutcomeUnavailable), held, s)"
  using assms by (simp add: captureTurn_def observeTurn_def)

theorem turn_is_readTurn:
  assumes "WaitErr d (world s) = None" and "\<not> failed (observation s)"
    and "receiver_Read (receiver d) overrides s = (Returns snapshot, s')" and "authorize (receiver d) (world s') = None"
    and "held \<or> slots (observation s') < 32" and "cursor = cursorOf (epoch (observation s')) overrides before"
    and "following.settings f = digestOf snapshot" and "known c = digestOf before"
  shows "case place (readTurn g f c) of
      Answered v \<Rightarrow> v = digestOf snapshot \<and> observeTurn d overrides cursor (expired c) held s =
        (Some (Returns \<lparr>ConfigObservation.Outcome = ConfigObservationOutcomeSnapshot,
          Cursor = cursorOf (epoch (observation s')) overrides snapshot, Snapshot = Some snapshot\<rparr>), held, s')
    | Unchanged \<Rightarrow> observeTurn d overrides cursor (expired c) held s =
        (Some (refusal cursor ConfigObservationOutcomeUnchanged), held, s')
    | Blocked g' \<Rightarrow> g' = g \<and> fst (observeTurn d overrides cursor (expired c) held s) = None
    | _ \<Rightarrow> False"
  using assms by (auto simp: readTurn_def observeTurn_def Let_def cursorOf_same)

end
