(* ===== verification/Outcomes.thy ===== *)
theory Outcomes
  imports HostSpec
begin

section \<open>What the outcomes of an edit carry\<close>

text \<open>
  The contract of \<open>ReplaceUser\<close> (\<open>CFG-W8\<close>, \<open>CFG-W11\<close> and \<open>CFG-E3\<close> of \<open>CONTRACT.md\<close>) over the whole path of \<open>HostSpec\<close>: which
  settings each outcome brings to the client, and what it did.
\<close>

lemma userText_snapshot:
  "valid_UserSettings values \<Longrightarrow> userSnapshot (Some (userText (wireValues values))) = Inr (snapshotOf (wireValues values))"
  using userSnapshot_written [of "wireValues values"]
  by (simp add: userText_def settings_def wireValues_def valid_Config_def valid_UserSettings_def)

subsection \<open>Properties\<close>

text \<open>C13: only a resolved edit carries settings: \<open>applied\<close> brings back the settings that were sent with their revision,
  \<open>conflict\<close> a record that the store held during the call, of another revision than the expected one, and \<open>forbidden\<close> and
  \<open>unavailable\<close> no settings and no revision, the store being asked for nothing after the policy.\<close>

theorem outcome_carries:
  assumes "userStore (host (receiver d)) = Some st" and "compareSet st content env"
    and "\<forall>policy p w. editPolicy (host (receiver d)) = Some policy \<longrightarrow> env w (snd (policy p w))"
    and "validUTF8 expected" and "valid_UserSettings values"
    and "ConfigEditorClient_ReplaceUser (serveFrame d) expected values s = (Inr x, s')"
  shows "(UserReplaceResult.Outcome x = UserReplaceOutcomeApplied
        \<and> UserReplaceResult.Snapshot x = \<lparr>UserSnapshot.Values = values, Revision = revisionOf (wireValues values)\<rparr>)
    \<or> (UserReplaceResult.Outcome x = UserReplaceOutcomeConflict
        \<and> (\<exists>u current. env (world s) u \<and> userSnapshot (content u (userPath (host (receiver d)))) = Inr current
            \<and> Revision current \<noteq> expected \<and> UserReplaceResult.Snapshot x = userWire current))
    \<or> (UserReplaceResult.Outcome x \<in> {UserReplaceOutcomeForbidden, UserReplaceOutcomeUnavailable}
        \<and> UserReplaceResult.Snapshot x = \<lparr>UserSnapshot.Values = UserSettings_zero, Revision = []\<rparr>
        \<and> s' = s\<lparr>world := snd (consultPolicy (receiver d) (world s))\<rparr>)"
proof -
  have "receiver_ReplaceUser (receiver d) expected values s = (Returns x, s')"
    using assms(6) host_ReplaceUser [OF assms(4,5), of d s]
    by (auto simp: clientSees_def split: prod.splits handled.splits option.splits)
  then show ?thesis
  proof (cases rule: ReplaceUser_returns)
    case (1 outcome)
    then show ?thesis by (auto simp: refusedReplace_def)
  next
    case (2 snapshot applied w)
    note ok = ReplaceUserStore_ok [OF assms(2) 2(2) [unfolded assms(1)]]
    have w: "env (world s) w" by (rule consultPolicy_env [OF 2(1) compareSet_env(1) [OF assms(2)] assms(3)])
    show ?thesis
    proof (cases applied)
      case True
      with ok userText_snapshot [OF assms(5)] have "snapshot = snapshotOf (wireValues values)" by auto
      then show ?thesis using True by (simp add: 2(3) userWire_def snapshotOf_def wireValues_def)
    next
      case False
      with ok obtain u where "env w u" "userSnapshot (content u (userPath (host (receiver d)))) = Inr snapshot"
        "Revision snapshot \<noteq> expected" by auto
      with compareSet_env(2) [OF assms(2) w] False show ?thesis by (auto simp: 2(3))
    qed
  qed
qed

text \<open>An edit that expects a revision the store does not hold, and is shown the empty record.\<close>

lemma outcome_carries_witness:
  "\<exists>x s'. ConfigEditorClient_ReplaceUser (serveFrame sampleHost) (lit ''r'') sampleEdit sampleState = (Inr x, s')
    \<and> UserReplaceResult.Outcome x = UserReplaceOutcomeConflict
    \<and> UserReplaceResult.Snapshot x = userWire (snapshotOf Config_zero)"
proof -
  have other: "revisionOf Config_zero \<noteq> lit ''r''" by (simp add: revisionOf_def lit_Cons)
  have "userSnapshot (Some (userText sampleValues)) = Inr (snapshotOf sampleValues)"
    using userSnapshot_written [OF sample_values(1)] by (simp add: sample_values(2) userText_def)
  then have "ReplaceUserStore (Some memoryStore) sampleHome (lit ''r'') sampleValues (Map.empty, watchStart)
      = (Inr (snapshotOf Config_zero, False), (Map.empty, watchStart))"
    using sample_home other
    by (simp add: ReplaceUserStore_def maxAttempts_def numeral_eq_Suc readUserStore_def readUserValue_def dataIn_def
        sizeOf_def memoryStore_def userSnapshot_none snapshotOf_def)
  then have "receiver_ReplaceUser sampleReceiver (lit ''r'') sampleEdit sampleState = (Returns
      \<lparr>UserReplaceResult.Outcome = UserReplaceOutcomeConflict, Snapshot = userWire (snapshotOf Config_zero)\<rparr>, sampleState)"
    by (simp add: receiver_ReplaceUser_def sample_authorized consultPolicy_def sample_edit)
  then obtain x s' where call: "ConfigEditorClient_ReplaceUser (serveFrame sampleHost) (lit ''r'') sampleEdit sampleState = (Inr x, s')"
    and x: "UserReplaceResult.Outcome x = UserReplaceOutcomeConflict"
    using host_ReplaceUser [OF _ sample_edit(1), of "lit ''r''" sampleHost sampleState]
    by (simp add: sample_receiver clientSees_def lit_valid)
  have "\<exists>u current. (Map.empty :: memory) = u \<and> userSnapshot (u sampleHome) = Inr current \<and> UserReplaceResult.Snapshot x = userWire current"
    using outcome_carries [OF _ memoryStore_compareSet _ _ sample_edit(1) call] x
    by (auto simp: sample_receiver lit_valid UserReplaceOutcome_tags)
  with call x show ?thesis by (auto simp: userSnapshot_none)
qed

end
