(* ===== verification/Spec2Isabelle.thy ===== *)
theory Spec2Isabelle
  imports RpcSpec ConfigSpec FileEdit Driver ErrorSpec Lifecycle Subscription TrustWindows Clients Command WaitingSpec Outcomes
begin

text \<open>
  A verification library for abstraction-config, the program that answers an account's
  configuration from layered files and serves reads, edits and observations of it as framed records.

  \<^bold>\<open>The parts of the program.\<close> \<open>go/config.go\<close> merges a machine file, a user file and the
  environment into a \<open>Config\<close> that remembers which rung answered for each key.
  \<open>go/user_editor.go\<close> edits the user's record in a compare-and-set store. \<open>go/watch.go\<close> tells
  subscribers that something changed. \<open>go/abstraction/config/rec.go\<close> is the wire: strict readers and
  canonical writers for JSON records, request and reply frames, dispatchers that call a handler,
  clients, and the endpoint that routes among services. \<open>go/service\<close> puts the handlers (\<open>Read\<close>, \<open>ReadUser\<close>,
  \<open>ReplaceUser\<close>, \<open>Observe\<close>) behind the dispatchers, after asking who calls; \<open>go/client\<close> calls them.

  \<^bold>\<open>The theories of the wire\<close> (\<open>rec.go\<close>).
  \<^item> \<open>Prelude\<close>: bytes, words, literals, Go maps as finite maps.
  \<^item> \<open>Utf8\<close>: \<open>appendRune\<close> and \<open>validUTF8\<close> on \<open>int32\<close> words, against the encoding on numbers.
  \<^item> \<open>Emit\<close>: the writers (\<open>esc\<close>, \<open>num\<close>, \<open>strmap\<close>, the insertion sort of the keys); every writer
    appends the layout \<open>print\<close> of a document \<open>json\<close>.
  \<^item> \<open>Reader\<close>, \<open>Objects\<close>: the reader's state and scanning methods, the member loops, opaque values.
  \<^item> \<open>Scanner\<close>: the locales \<open>scanner\<close>, \<open>member_scanner\<close> and \<open>record_scanner\<close> (a step moves forward or
    refuses with a declared word inside the buffer), interpreted on every scanning method; they
    give that the variant checks of the loops (\<open>stuck\<close>) are never taken.
  \<^item> \<open>Wire\<close>, \<open>WireDecode\<close>: the vocabularies, the records, one encoder and one decoder for each.
  \<^item> \<open>Reads\<close>, \<open>Roundtrip\<close>, \<open>Records\<close>: a relation \<open>reads\<close> between a scanner and a text, proved
    for every primitive and every record.
  \<^item> \<open>Codec\<close>: the locales \<open>codec\<close> and \<open>payload_codec\<close>, interpreted on every record.
  \<^item> \<open>Dispatch\<close>: frames, replies, the endpoint, the dispatchers and the clients. A handler is a
    function of its arguments and of a state, whose result may be a value, an error or a panic.
  \<^item> \<open>Rpc\<close>: the locale \<open>rpc\<close> (arguments and results that are codecs, a dispatcher that answers), interpreted
    on the four methods.
  \<^item> \<open>Opaque\<close>: \<open>raw\<close> and \<open>rawmap\<close>, the writers of opaque values, as layouts of their tokens; the texts of
    refusals; the vocabulary of error codes.
  \<^item> \<open>CodecSpec\<close>, \<open>RpcSpec\<close>: the properties of these parts.

  \<^bold>\<open>The theories of the configuration.\<close>
  \<^item> \<open>GoText\<close>, \<open>GoJson\<close>, \<open>Sha256\<close>: what the code relies on of Go's \<open>encoding/json\<close> (version 1), \<open>unicode/utf8\<close>,
    \<open>crypto/sha256\<close> and \<open>encoding/hex\<close>, written out: the grammar, the replacement of what is not Unicode,
    the escapes, the two layouts.
  \<^item> \<open>Settings\<close>: \<open>Config\<close>, its keys and their provenance. \<open>GoConfig\<close>: a \<open>Config\<close> as a file, by its tags.
  \<^item> \<open>Config\<close>: the layers (\<open>merge\<close>, \<open>applyEnvironment\<close>, \<open>load\<close>, \<open>read\<close>, \<open>readMachineSource\<close>) with the lines the readers
    write to standard error, the \<open>view\<close> of a configuration as a map, the locale \<open>layer\<close>, interpreted on both loops. \<open>ConfigSpec\<close>: its properties.
  \<^item> \<open>UserFile\<close>: the strict reader of the user's record and its revisions (\<open>strictUserFields\<close>, \<open>userSnapshot\<close>).
  \<^item> \<open>Watch\<close>: announcements and subscriptions, with the interleavings of the goroutines as the step
    relation \<open>watchStep\<close>.
  \<^item> \<open>UserStore\<close>: the bounded reads, the loop of \<open>ReplaceUserStore\<close> and \<open>loadWithSources\<close> over a store that is
    an argument; \<open>compareSet\<close> is the contract of \<open>casapi.Store\<close>, with the moves of other programs.
  \<^item> \<open>Paths\<close>: lexical paths, \<open>UserPath\<close>, \<open>MachinePath\<close>, the data directory of \<open>datadir.go\<close>, and the owner
    check of \<open>trust_unix.go\<close> over an argument \<open>stat\<close>.
  \<^item> \<open>TrustWindows\<close>: the owner check of \<open>trust_windows.go\<close>; a security descriptor is owned until it is freed.
  \<^item> \<open>Notify\<close>, \<open>NotifyWindows\<close>: \<open>notifyDirs\<close> of \<open>notify_linux.go\<close>, \<open>notify_bsd.go\<close> and \<open>notify_windows.go\<close> with their
    goroutines and stop functions as step relations over an account of the descriptors the process owns; the locale
    \<open>notification\<close>, interpreted on each.
  \<^item> \<open>Subscription\<close>: \<open>watchable\<close> and \<open>WatchInvalidations\<close> over any of them, by the locale \<open>notifier\<close>, which extends
    \<open>notification\<close> with the promise of \<open>notifyDirs\<close>; interpreted on the four platforms.
  \<^item> \<open>FileEdit\<close>: \<open>asAdministrator\<close>, \<open>Save\<close>, \<open>Edit\<close> and \<open>Describe\<close> over a record of calls on a disk, with
    \<open>lockedChange\<close> as the contract of \<open>cas.Change\<close> and \<open>directoryCalls\<close> as that of \<open>os.Stat\<close>, \<open>os.MkdirAll\<close> and
    \<open>os.Remove\<close>.
  \<^item> \<open>Driver\<close>: the conformance driver of \<open>cmd/configdriver\<close>, over a record of calls on a disk; recorded scenarios
    of \<open>testdata\<close> are played in the kernel.

  \<^bold>\<open>The theories of the service.\<close>
  \<^item> \<open>Service\<close>: the receiver of \<open>service.go\<close> and \<open>editor.go\<close> over a \<open>hostState\<close> (the store's world, the
    subscribers, the observation); the locale \<open>honest\<close> (a handler whose answers and errors the wire can carry),
    interpreted on the four handlers.
  \<^item> \<open>Observer\<close>: cursors, the observation's source, the loop of \<open>Observe\<close> and the client's \<open>ObserveContext\<close>.
  \<^item> \<open>Following\<close>: the goroutine of \<open>startObservation\<close> and any number of waiting calls, as a step relation; \<open>WaitingSpec\<close>
    relates its turns to those of \<open>Observer\<close>.
  \<^item> \<open>Clients\<close>: the bindings of \<open>go/client\<close>, over a record of what they use of the framed transport.
  \<^item> \<open>Command\<close>: \<open>serve.go\<close> with the flags of Go's \<open>flag\<close>, \<open>Listen\<close> and \<open>ListenWithStore\<close>.
  \<^item> \<open>HostSpec\<close>: one frame through the host, and the properties of the whole path.
  \<^item> \<open>Outcomes\<close>: which settings each outcome of an edit carries.
  \<^item> \<open>ErrorSpec\<close>: the codes of the errors the service answers, against the declared ones.
  \<^item> \<open>Lifecycle\<close>: the goroutines of \<open>Serve\<close>, \<open>Close\<close>, \<open>startObservation\<close> and \<open>stopObservation\<close> as the step relation
    \<open>hostStep\<close>, its computable form \<open>hostNext\<close>, and the invariant \<open>sound_host\<close>.

  \<^bold>\<open>What the lemmas show.\<close> The codec is total, refuses only with its declared words at an offset of
  the input, and reads back every valid record it wrote. A call
  through client, frame, dispatcher and reply is the handler's call, errors and panics included, also behind the
  endpoint; a caller of another account changes nothing. Loading is the override of maps, the origin of a key is
  the highest rung that answers, and an untrusted machine file counts for nothing. A file that is there and could
  be read is used or named on standard error; one that could not be read is left out without a word. What is
  written to a file is read back as the same settings, by the lenient loader and the strict editor alike, and the
  editor reads exactly the records it can rewrite without loss. An edit reported as applied is one
  atomic swap of the record the client expected, and one announcement, which reaches every subscription that was
  registered when it began. \<open>Edit\<close> is one atomic change of the answers of a file; members this version
  does not know are dropped by it. A refused write to the machine rung leaves nothing behind, unless the write had
  failed and left the file. When \<open>Serve\<close> has returned no call and no source of changes is left; once the context
  is cancelled it does return, by steps that need nobody outside, because the listener is closed and the
  contexts are cancelled. An observation's cursor stands for the snapshot it came with, the client accepts every
  answer, and no wake-up of a waiting call is lost. Every descriptor and handle a notification takes is closed
  exactly once, in every order of the system, the goroutines and the stop function, and the stop function on Windows
  returns because it cancels the requests. The serve command opens nothing for arguments it does not know.

  \<^bold>\<open>Bounds.\<close> No definition uses fuel. \<open>int32\<close>, \<open>uint32\<close>, \<open>int64\<close> and \<open>uint64\<close> are words of that width;
  lengths, offsets and depths are numbers, since a buffer's length is far below \<open>2^63\<close>. A loop that goes
  round once per member compares the unread input; its failing branch answers \<open>stuck\<close>, which the
  scanner interpretations exclude. The loop of \<open>ReplaceUserStore\<close> has the code's 32 attempts. The loop of
  \<open>Observe\<close> follows a schedule of wakes that ends with the timer or the caller's context, as Go's
  timer does, so it is total.

  \<^bold>\<open>Not modelled.\<close> The framed transport and the identity of processes (\<open>listen\<close>), the store (\<open>casapi\<close>, \<open>cas\<close>) and
  \<open>watch.Settle\<close> are other modules': parameters, with what the code relies on as named contracts. The calls of the
  operating system are functions of records. Scheduling is the freedom of the step relations: the time of a timer, the
  deadlines of contexts and the interrupt signal are events that may happen; where something is shown to end, the
  steps it rests on are named apart from those (\<open>certain\<close> in \<open>Lifecycle\<close>, \<open>unaided\<close> in \<open>NotifyWindows\<close>), and each has
  its cause in the state.
\<close>

end
